(* ===== verification/Kernel_Prelude.thy ===== *)
theory Kernel_Prelude
  imports Main "HOL-Library.Word"
begin

text \<open>
  Shared vocabulary of the development: the machine integer types of
  \<^verbatim>\<open>inc/common/stdint.h\<close>, the C loops the kernel writes over them, and the
  lemmas on words, bits and lists that several components use.

  The kernel is compiled by gcc for x86-64 without optimisation, so a signed
  \<^verbatim>\<open>int\<close> that overflows wraps around in two's complement; a \<^verbatim>\<open>32 word\<close>
  counter read through \<open>scast\<close> models exactly that.
\<close>

unbundle bit_operations_syntax

type_synonym u8 = "8 word"
type_synonym u16 = "16 word"
type_synonym u32 = "32 word"
type_synonym u64 = "64 word"
type_synonym i32 = "32 word"

text \<open>Collections: facts that move a goal to \<open>nat\<close>, and bit-level facts.\<close>

named_theorems to_nat "rewrite word operations to operations on nat"
named_theorems bitwise "bit-level characterisations of the kernel's bit operations"

declare unat_word_ariths [to_nat] unat_div_distrib [to_nat] unat_mod_distrib [to_nat]
  word_less_nat_alt [to_nat] word_le_nat_alt [to_nat]

section \<open>Words\<close>

lemma unat_add_no_wrap:
  fixes a b :: "'a::len word"
  shows "unat a + unat b < 2 ^ LENGTH('a) \<Longrightarrow> unat (a + b) = unat a + unat b"
  by (simp add: unat_word_ariths)

lemma unat_mult_no_wrap:
  fixes a b :: "'a::len word"
  shows "unat a * unat b < 2 ^ LENGTH('a) \<Longrightarrow> unat (a * b) = unat a * unat b"
  by (simp add: unat_word_ariths)

lemma unat_sub_no_wrap:
  fixes a b :: "'a::len word"
  shows "unat b \<le> unat a \<Longrightarrow> unat (a - b) = unat a - unat b"
  by (simp add: unat_sub word_le_nat_alt)

lemma unat_Suc_no_wrap:
  fixes a b :: "'a::len word"
  shows "unat a < unat b \<Longrightarrow> unat (a + 1) = Suc (unat a)"
proof -
  assume "unat a < unat b"
  moreover have "unat b < 2 ^ LENGTH('a)" by (rule unsigned_less)
  ultimately have "Suc (unat a) < 2 ^ LENGTH('a)" by linarith
  then show ?thesis by (simp add: unat_word_ariths)
qed

lemma unat_of_nat_u64: "n < 2 ^ 64 \<Longrightarrow> unat (word_of_nat n :: u64) = n"
  by (simp add: unat_of_nat)

lemma unat_of_nat_u32: "n < 2 ^ 32 \<Longrightarrow> unat (word_of_nat n :: u32) = n"
  by (simp add: unat_of_nat)

lemma unat_u64_less [simp]: "unat (x :: u64) < 18446744073709551616"
  using unsigned_less [of x] by simp

lemma unat_u8_less [simp]: "unat (x :: u8) < 256"
  using unsigned_less [of x] by simp

lemma unat_u32_less: "unat (x :: u32) < 4294967296"
  using unsigned_less [of x] by simp

lemma unat_u16_less: "unat (x :: u16) < 65536"
  using unsigned_less [of x] by simp

text \<open>Widening keeps the value.\<close>

lemma unat_widen [simp]:
  "unat (ucast (x :: u32) :: u64) = unat x" "unat (ucast (y :: u8) :: u64) = unat y"
  "unat (ucast (z :: u16) :: u64) = unat z" "unat (ucast (y :: u8) :: u32) = unat y"
  "unat (ucast (y :: u8) :: u16) = unat y" "unat (ucast (z :: u16) :: u32) = unat z"
  by (simp only: unsigned_ucast_eq, rule take_bit_nat_eq_self,
      rule order_less_le_trans [OF unsigned_less], simp)+

lemma word_eq_iff_unat: "(x = y) = (unat x = unat y)"
  by (rule word_unat_eq_iff)

text \<open>Sign extension of a non-negative \<^verbatim>\<open>int\<close> keeps its value.\<close>

lemma scast_nonneg_i32:
  fixes t :: i32
  assumes "unat t < 2 ^ 31"
  shows "unat (scast t :: u64) = unat t"
proof -
  have "int (unat t) < int (2 ^ 31)" using assms by (simp only: of_nat_less_iff)
  then have u: "uint t < 2 ^ 31" by simp
  have "- (2 ^ 31) \<le> uint t" by (rule order_trans [OF _ uint_ge_0]) simp
  then have "signed_take_bit 31 (uint t) = uint t"
    using u by (rule signed_take_bit_int_eq_self)
  then have "sint t = uint t" by (subst sint_uint) simp
  then have "(scast t :: 64 word) = word_of_int (uint t)"
    by (simp only: scast_eq)
  also have "\<dots> = ucast t" by (rule ucast_eq [symmetric])
  finally show ?thesis
   using assms by (simp add: unsigned_ucast_eq take_bit_nat_eq_self)
qed

text \<open>A negative \<^verbatim>\<open>int\<close> becomes a large unsigned value.\<close>

lemma scast_neg_i32:
  assumes "2 ^ 31 \<le> k" and "k < 2 ^ 32"
  shows "unat (scast (word_of_nat k :: i32) :: u64) = k + (2 ^ 64 - 2 ^ 32)"
proof -
  let ?z = "int k - 2 ^ 32"
  have w: "(word_of_nat k :: i32) = word_of_int ?z" by simp
  have "sint (word_of_int ?z :: i32) = signed_take_bit 31 ?z"
    by (subst sint_sbintrunc') simp
  also have "\<dots> = ?z" using assms by (intro signed_take_bit_int_eq_self) simp_all
  finally have "(scast (word_of_nat k :: i32) :: u64) = word_of_int ?z"
    unfolding w by (simp only: scast_eq)
  also have "\<dots> = word_of_int (int (k + (2 ^ 64 - 2 ^ 32)))"
    by simp
  also have "\<dots> = word_of_nat (k + (2 ^ 64 - 2 ^ 32))" by simp
  finally have e: "(scast (word_of_nat k :: i32) :: u64) = word_of_nat (k + (2 ^ 64 - 2 ^ 32))" .
  show ?thesis unfolding e using assms by (subst unat_of_nat) simp
qed

section \<open>C loops\<close>

text \<open>
  \<open>int_for n body t s\<close> is \<^verbatim>\<open>for (int i = t; i < n; i++) body(i)\<close> with a 64-bit unsigned
  bound \<open>n\<close>, the shape of every page loop of the allocator: the counter is a 32-bit int that
  the comparison sign-extends to 64 bits.
\<close>

function int_for :: "u64 \<Rightarrow> (i32 \<Rightarrow> 's \<Rightarrow> 's) \<Rightarrow> i32 \<Rightarrow> 's \<Rightarrow> 's" where
  "int_for n body t s = (if (scast t :: u64) < n then int_for n body (t + 1) (body t s) else s)"
  by pat_completeness auto
termination
proof (relation "measure (\<lambda>(n, body, t, s). 2 ^ 32 - unat t)")
  show "wf (measure (\<lambda>(n :: u64, body :: i32 \<Rightarrow> 's \<Rightarrow> 's, t :: i32, s :: 's). 2 ^ 32 - unat t))"
    by (rule wf_measure)
next
  fix n :: u64 and body :: "i32 \<Rightarrow> 's \<Rightarrow> 's" and t :: i32 and s :: 's
  assume less: "(scast t :: u64) < n"
  have "t \<noteq> - 1"
  proof
    assume "t = - 1"
    then have "(- 1 :: u64) < n" using less by simp
    moreover have "n \<le> - 1" by (rule word_n1_ge)
    ultimately show False by simp
  qed
  then have "t + 1 \<noteq> 0" by (metis add.commute add_eq_0_iff)
  then have "unat (1 + t) = Suc (unat t)" by (intro unatSuc) (simp add: add.commute)
  moreover have "unat t < 2 ^ 32" using unsigned_less [of t] by simp
  ultimately show "((n, body, t + 1, body t s), n, body, t, s)
      \<in> measure (\<lambda>(n, body, t, s). 2 ^ 32 - unat t)"
    by (simp add: add.commute)
qed

declare int_for.simps [simp del]

lemma int_for_upt:
  assumes "unat n \<le> 2 ^ 31" and "k \<le> unat n"
  shows "int_for n body (word_of_nat k) s = fold (\<lambda>j. body (word_of_nat j)) [k..<unat n] s"
  using assms(2)
proof (induction "unat n - k" arbitrary: k s)
  case 0
  then have "k = unat n" by simp
  moreover have "unat (scast (word_of_nat k :: i32) :: u64) = k" if "k < 2 ^ 31"
    using that by (subst scast_nonneg_i32) (simp_all add: unat_of_nat)
  moreover have "\<not> (scast (word_of_nat (unat n) :: i32) :: u64) < n" if "unat n = 2 ^ 31"
  proof -
    have "n = word_of_nat (unat n)" by simp
    then have n: "n = word_of_nat (2 ^ 31)" using that by simp
    show ?thesis unfolding that n by simp
  qed
  ultimately show ?case
    using assms(1) by (subst int_for.simps) (cases "unat n < 2 ^ 31", auto simp: word_less_nat_alt)
next
  case (Suc d)
  then have k: "k < unat n" by simp
  with assms(1) have k31: "k < 2 ^ 31" by simp
  then have "unat (scast (word_of_nat k :: i32) :: u64) = k"
    by (subst scast_nonneg_i32) (simp_all add: unat_of_nat)
  with k have guard: "(scast (word_of_nat k :: i32) :: u64) < n" by (simp add: word_less_nat_alt)
  have step: "word_of_nat k + 1 = (word_of_nat (Suc k) :: i32)" by simp
  have "d = unat n - Suc k" "Suc k \<le> unat n" using Suc.hyps(2) k by simp_all
  then have "int_for n body (word_of_nat k + 1) (body (word_of_nat k) s)
      = fold (\<lambda>j. body (word_of_nat j)) [Suc k..<unat n] (body (word_of_nat k) s)"
    using Suc.hyps(1) [of "Suc k" "body (word_of_nat k) s"]
    by (simp add: step del: of_nat_Suc)
  with guard show ?case
    using k by (subst int_for.simps) (simp add: upt_conv_Cons)
qed

lemma int_for_fold:
  assumes "unat n \<le> 2 ^ 31"
  shows "int_for n body 0 s = fold (\<lambda>j. body (word_of_nat j)) [0..<unat n] s"
  using int_for_upt [of n 0 body s] assms by simp

text \<open>An invariant of the body is an invariant of the loop, for every bound.\<close>

lemma int_for_invariant:
  assumes "P s" and "\<And>t s. P s \<Longrightarrow> P (body t s)"
  shows "P (int_for n body t s)"
  using assms
proof (induction n body t s rule: int_for.induct)
  case (1 n body t s)
  then show ?case by (subst int_for.simps) simp
qed

text \<open>A relation between the start state and the end state of the loop.\<close>

lemma int_for_frame:
  assumes "\<And>t s. f (body t s) = f s"
  shows "f (int_for n body t s) = f s"
  using assms
proof (induction n body t s rule: int_for.induct)
  case (1 n body t s)
  then show ?case by (subst int_for.simps) simp
qed

text \<open>
  \<open>u64_for n body i s\<close> is \<^verbatim>\<open>for (size_t j = i; j < n; j++) body(j)\<close> with a 64-bit counter.
\<close>

function u64_for :: "u64 \<Rightarrow> (u64 \<Rightarrow> 's \<Rightarrow> 's) \<Rightarrow> u64 \<Rightarrow> 's \<Rightarrow> 's" where
  "u64_for n body i s = (if i < n then u64_for n body (i + 1) (body i s) else s)"
  by pat_completeness auto
termination
  by (relation "measure (\<lambda>(n, body, i, s). unat n - unat i)")
    (auto simp: word_less_nat_alt unat_Suc_no_wrap)

declare u64_for.simps [simp del]

lemma u64_for_upt:
  assumes "k \<le> unat n"
  shows "u64_for n body (word_of_nat k) s = fold (\<lambda>j. body (word_of_nat j)) [k..<unat n] s"
  using assms
proof (induction "unat n - k" arbitrary: k s)
  case 0
  then have "k = unat n" by simp
  then show ?case by (subst u64_for.simps) simp
next
  case (Suc d)
  then have k: "k < unat n" by simp
  also have "unat n < 2 ^ 64" by simp
  finally have "unat (word_of_nat k :: u64) = k" by (rule unat_of_nat_u64)
  with k have guard: "(word_of_nat k :: u64) < n" by (simp add: word_less_nat_alt)
  have step: "word_of_nat k + 1 = (word_of_nat (Suc k) :: u64)" by simp
  have "d = unat n - Suc k" "Suc k \<le> unat n" using Suc.hyps(2) k by simp_all
  then have "u64_for n body (word_of_nat k + 1) (body (word_of_nat k) s)
      = fold (\<lambda>j. body (word_of_nat j)) [Suc k..<unat n] (body (word_of_nat k) s)"
    using Suc.hyps(1) [of "Suc k" "body (word_of_nat k) s"] by (simp add: step del: of_nat_Suc)
  with guard show ?case
    using k by (subst u64_for.simps) (simp add: upt_conv_Cons)
qed

lemma u64_for_fold: "u64_for n body 0 s = fold (\<lambda>j. body (word_of_nat j)) [0..<unat n] s"
  using u64_for_upt [of 0 n body s] by simp

lemma u64_for_invariant:
  assumes "P s" and "\<And>i s. P s \<Longrightarrow> P (body i s)"
  shows "P (u64_for n body i s)"
  using assms
proof (induction n body i s rule: u64_for.induct)
  case (1 n body i s)
  then show ?case by (subst u64_for.simps) simp
qed

section \<open>Lists\<close>

lemma fold_invariant_upt:
  assumes "P 0 s" and "\<And>k s. k < n \<Longrightarrow> P k s \<Longrightarrow> P (Suc k) (f k s)"
  shows "P n (fold f [0..<n] s)"
proof -
  have "m \<le> n \<Longrightarrow> P m (fold f [0..<m] s)" for m
    by (induction m) (auto simp: assms)
  then show ?thesis by simp
qed

end
