(* ===== verification/Bitmap.thy ===== *)
theory Bitmap
  imports Kernel_Prelude
begin

text \<open>
  The page bitmap of \<^verbatim>\<open>src/Paging/Bitmap.cpp\<close>: one bit per 4 KiB page, most significant bit
  first, and the contract \<open>bit_store\<close> its clients rely on. The storage the pointer
  \<^verbatim>\<open>Buffer\<close> refers to is the field \<open>Bytes\<close>, indexed from the pointer; it does not stop at
  \<^verbatim>\<open>Size\<close>, so an access one past the end is visible as such.
\<close>

record bitmap =
  Size :: u64
  Buffer :: u64
  Bytes :: "u64 \<Rightarrow> u8"

section \<open>Operations\<close>

definition bit_indexer :: "u64 \<Rightarrow> u8" where
  "bit_indexer index = drop_bit (unat (index mod 8)) 0b10000000"

definition Get :: "bitmap \<Rightarrow> u64 \<Rightarrow> bool" where
  "Get b index =
     (if index > Size b * 8 then False
      else Bytes b (index div 8) AND bit_indexer index > 0)"

text \<open>
  \<^verbatim>\<open>operator[]\<close> calls \<^verbatim>\<open>Get\<close> and falls off its end without a \<^verbatim>\<open>return\<close>; in the
  unoptimised build the result register still holds what \<^verbatim>\<open>Get\<close> returned.
\<close>

definition bitmap_index :: "bitmap \<Rightarrow> u64 \<Rightarrow> bool" where
  "bitmap_index b index = Get b index"

definition Set :: "bitmap \<Rightarrow> u64 \<Rightarrow> bool \<Rightarrow> bool \<times> bitmap" where
  "Set b index v =
     (if index > Size b * 8 then (False, b)
      else let byteIndex = index div 8;
               cleared = Bytes b byteIndex AND NOT (bit_indexer index);
               byte = (if v then cleared OR bit_indexer index else cleared)
           in (True, b\<lparr>Bytes := (Bytes b)(byteIndex := byte)\<rparr>))"

section \<open>Single bits of a byte\<close>

lemma bit_indexer_bit [bitwise]:
  "bit (bit_indexer i) n \<longleftrightarrow> n = 7 - unat (i mod 8)"
proof -
  have "unat (i mod 8) < 8" by (simp add: unat_mod_distrib)
  moreover have "bit (0x80 :: u8) m \<longleftrightarrow> m = 7" for m
  proof -
    have e: "(0x80 :: u8) = 2 ^ 7" by simp
    show ?thesis unfolding e by (simp only: bit_exp_iff possible_bit_word) auto
  qed
  ultimately show ?thesis
    unfolding bit_indexer_def bit_drop_bit_eq comp_def by presburger
qed

lemma and_indexer: "(w AND bit_indexer i > 0) = bit w (7 - unat (i mod 8))"
proof -
  have "(w AND bit_indexer i > 0) = (w AND bit_indexer i \<noteq> 0)"
    by (simp add: word_gt_0)
  also have "\<dots> = (\<exists>n. bit (w AND bit_indexer i) n)"
    using bit_imp_le_length [where 'a = 8, simplified] by (auto simp: bit_eq_iff)
  also have "\<dots> = bit w (7 - unat (i mod 8))"
    by (auto simp: bit_simps bit_indexer_bit)
  finally show ?thesis .
qed

lemma u64_div_mod_8: "(i :: u64) div 8 = j div 8 \<Longrightarrow> i mod 8 = j mod 8 \<Longrightarrow> i = j"
  by (metis mult_div_mod_eq)

lemma same_bit_iff:
  "7 - unat (i mod 8) = 7 - unat (j mod 8) \<longleftrightarrow> (i :: u64) mod 8 = j mod 8"
proof -
  have "unat (i mod 8) < 8" "unat (j mod 8) < 8" by (simp_all add: unat_mod_distrib)
  then have "7 - unat (i mod 8) = 7 - unat (j mod 8) \<longleftrightarrow> unat (i mod 8) = unat (j mod 8)"
    by arith
  then show ?thesis by (simp add: word_eq_iff_unat)
qed

section \<open>Reading back what was written\<close>

lemma Size_Set [simp]: "Size (snd (Set b i v)) = Size b"
  by (simp add: Set_def Let_def)

lemma Buffer_Set [simp]: "Buffer (snd (Set b i v)) = Buffer b"
  by (simp add: Set_def Let_def)

lemma Set_result: "fst (Set b i v) \<longleftrightarrow> i \<le> Size b * 8"
  by (auto simp: Set_def Let_def linorder_not_less [symmetric])

lemma Set_fail: "\<not> i \<le> Size b * 8 \<Longrightarrow> snd (Set b i v) = b"
  by (simp add: Set_def not_le)

lemma Get_outside: "\<not> i \<le> Size b * 8 \<Longrightarrow> \<not> Get b i"
  by (simp add: Get_def not_le)

lemma Get_Set_same:
  assumes "i \<le> Size b * 8"
  shows "Get (snd (Set b i v)) i = v"
  using assms
  by (auto simp: Get_def Set_def Let_def not_less [symmetric] and_indexer bit_simps bit_indexer_bit
      intro: exI)

lemma Get_Set_other:
  assumes "i \<noteq> j"
  shows "Get (snd (Set b i v)) j = Get b j"
proof (cases "i \<le> Size b * 8 \<and> j div 8 = i div 8")
  case True
  then have "j mod 8 \<noteq> i mod 8" using assms u64_div_mod_8 by metis
  then have "7 - unat (j mod 8) \<noteq> 7 - unat (i mod 8)" by (simp only: same_bit_iff) simp
  with True show ?thesis
    by (auto simp: Get_def Set_def Let_def and_indexer bit_simps bit_indexer_bit)
next
  case False
  then show ?thesis by (auto simp: Get_def Set_def Let_def)
qed

section \<open>The contract of a bit store\<close>

text \<open>
  What the page frame allocator needs of its bitmap: writes inside the bound succeed and are
  read back, nothing else changes, and outside the bound reads are False and writes fail.
\<close>

locale bit_store =
  fixes get :: "'b \<Rightarrow> u64 \<Rightarrow> bool"
    and put :: "'b \<Rightarrow> u64 \<Rightarrow> bool \<Rightarrow> bool \<times> 'b"
    and inside :: "'b \<Rightarrow> u64 \<Rightarrow> bool"
  assumes put_result: "fst (put b i v) \<longleftrightarrow> inside b i"
    and put_fail: "\<not> inside b i \<Longrightarrow> snd (put b i v) = b"
    and get_outside: "\<not> inside b i \<Longrightarrow> \<not> get b i"
    and get_put_same: "inside b i \<Longrightarrow> get (snd (put b i v)) i = v"
    and get_put_other: "i \<noteq> j \<Longrightarrow> get (snd (put b i v)) j = get b j"
    and inside_put: "inside (snd (put b i v)) j = inside b j"
begin

definition ones :: "'b \<Rightarrow> nat \<Rightarrow> nat set" where
  "ones b n = {k. k < n \<and> get b (word_of_nat k)}"

lemma get_put: "get (snd (put b i v)) j = (if j = i \<and> inside b i then v else get b j)"
  by (metis get_put_other get_put_same put_fail)

lemma finite_ones: "finite (ones b n)"
  by (rule finite_subset [of _ "{..<n}"]) (auto simp: ones_def)

lemma ones_le: "card (ones b n) \<le> n"
  using card_mono [of "{..<n}" "ones b n"] by (auto simp: ones_def)

lemma ones_put_True:
  assumes "inside b i" and "unat i < n" and "n \<le> 2 ^ 64"
  shows "ones (snd (put b i True)) n = insert (unat i) (ones b n)"
  using assms by (auto simp: ones_def get_put unat_of_nat_u64 split: if_splits)

lemma ones_put_False:
  assumes "inside b i" and "unat i < n" and "n \<le> 2 ^ 64"
  shows "ones (snd (put b i False)) n = ones b n - {unat i}"
  using assms by (auto simp: ones_def get_put unat_of_nat_u64 split: if_splits)

lemma card_ones_put_True:
  assumes "inside b i" and "unat i < n" and "n \<le> 2 ^ 64" and "\<not> get b i"
  shows "card (ones (snd (put b i True)) n) = Suc (card (ones b n))"
  using assms finite_ones by (subst ones_put_True) (auto simp: ones_def)

lemma card_ones_put_False:
  assumes "inside b i" and "unat i < n" and "n \<le> 2 ^ 64" and "get b i"
  shows "card (ones b n) = Suc (card (ones (snd (put b i False)) n))"
proof -
  have "unat i \<in> ones b n" using assms by (simp add: ones_def)
  then have "Suc (card (ones b n - {unat i})) = card (ones b n)"
    by (rule card_Suc_Diff1 [OF finite_ones])
  then show ?thesis using assms by (subst ones_put_False) simp_all
qed

end

interpretation pb: bit_store Get Set "\<lambda>b i. i \<le> Size b * 8"
  by unfold_locales
    (simp_all only: Set_result Set_fail Get_outside Get_Set_same Get_Set_other Size_Set not_False_eq_True)

end
