(* ===== verification/PageFrameAllocator.thy ===== *)
theory PageFrameAllocator
  imports Bitmap
begin

text \<open>
  The page frame allocator of \<^verbatim>\<open>src/Paging/PageFrameAllocator.cpp\<close>. The record \<open>pfa\<close> holds
  the object's bitmap and the file's counters. The EFI memory map is read through the function
  \<open>efi_map\<close> from the byte offset into the map to the descriptor stored there.
\<close>

record EFI_MEMORY_DESCRIPTOR =
  efi_type :: u32
  physAddr :: u64
  virtAddr :: u64
  numPages :: u64
  attribs :: u64

type_synonym efi_map = "u64 \<Rightarrow> EFI_MEMORY_DESCRIPTOR"

record pfa =
  PageBitmap :: bitmap
  pageBitmapIndex :: u64
  FreeMemory :: u64
  ReservedMemory :: u64
  UsedMemory :: u64
  TotalMemory :: u64
  Initialised :: bool

section \<open>Single pages\<close>

definition LockPage :: "pfa \<Rightarrow> u64 \<Rightarrow> pfa" where
  "LockPage s address =
     (let index = address div 4096 in
      if bitmap_index (PageBitmap s) index then s
      else case Set (PageBitmap s) index True of (done, b) \<Rightarrow>
        if done then s\<lparr>PageBitmap := b, FreeMemory := FreeMemory s - 4096,
                       UsedMemory := UsedMemory s + 4096\<rparr>
        else s\<lparr>PageBitmap := b\<rparr>)"

definition ReservePage :: "pfa \<Rightarrow> u64 \<Rightarrow> pfa" where
  "ReservePage s address =
     (let index = address div 4096 in
      if bitmap_index (PageBitmap s) index then s
      else case Set (PageBitmap s) index True of (done, b) \<Rightarrow>
        if done then s\<lparr>PageBitmap := b, FreeMemory := FreeMemory s - 4096,
                       ReservedMemory := ReservedMemory s + 4096\<rparr>
        else s\<lparr>PageBitmap := b\<rparr>)"

definition FreePage :: "pfa \<Rightarrow> u64 \<Rightarrow> pfa" where
  "FreePage s address =
     (let index = address div 4096 in
      if \<not> bitmap_index (PageBitmap s) index then s
      else case Set (PageBitmap s) index False of (done, b) \<Rightarrow>
        if done then s\<lparr>PageBitmap := b, FreeMemory := FreeMemory s + 4096,
                       UsedMemory := UsedMemory s - 4096,
                       pageBitmapIndex := (if pageBitmapIndex s > index then index
                                           else pageBitmapIndex s)\<rparr>
        else s\<lparr>PageBitmap := b\<rparr>)"

definition UnreservePage :: "pfa \<Rightarrow> u64 \<Rightarrow> pfa" where
  "UnreservePage s address =
     (let index = address div 4096 in
      if \<not> bitmap_index (PageBitmap s) index then s
      else case Set (PageBitmap s) index False of (done, b) \<Rightarrow>
        if done then s\<lparr>PageBitmap := b, FreeMemory := FreeMemory s + 4096,
                       ReservedMemory := ReservedMemory s - 4096,
                       pageBitmapIndex := (if pageBitmapIndex s > index then index
                                           else pageBitmapIndex s)\<rparr>
        else s\<lparr>PageBitmap := b\<rparr>)"

section \<open>Runs of pages\<close>

text \<open>
  The loop body shared by the four plural methods,
  \<^verbatim>\<open>for (int t = 0; t < pageCount; t++) f(address + (t * 4096))\<close>. The product is computed in
  32-bit \<^verbatim>\<open>int\<close> and only then widened, so it wraps from page 524288 on.
\<close>

definition page_offset :: "i32 \<Rightarrow> u64" where
  "page_offset t = scast (t * 4096)"

definition each_page :: "(pfa \<Rightarrow> u64 \<Rightarrow> pfa) \<Rightarrow> u64 \<Rightarrow> u64 \<Rightarrow> pfa \<Rightarrow> pfa" where
  "each_page f address pageCount = int_for pageCount (\<lambda>t s. f s (address + page_offset t)) 0"

definition LockPages :: "pfa \<Rightarrow> u64 \<Rightarrow> u64 \<Rightarrow> pfa" where
  "LockPages s address pageCount = each_page LockPage address pageCount s"

definition ReservePages :: "pfa \<Rightarrow> u64 \<Rightarrow> u64 \<Rightarrow> pfa" where
  "ReservePages s address pageCount = each_page ReservePage address pageCount s"

definition FreePages :: "pfa \<Rightarrow> u64 \<Rightarrow> u64 \<Rightarrow> pfa" where
  "FreePages s address pageCount = each_page FreePage address pageCount s"

definition UnreservePages :: "pfa \<Rightarrow> u64 \<Rightarrow> u64 \<Rightarrow> pfa" where
  "UnreservePages s address pageCount = each_page UnreservePage address pageCount s"

section \<open>Requests\<close>

function RequestPage :: "pfa \<Rightarrow> u64 \<times> pfa" where
  "RequestPage s =
     (if pageBitmapIndex s < Size (PageBitmap s) * 8 then
        if bitmap_index (PageBitmap s) (pageBitmapIndex s)
        then RequestPage (s\<lparr>pageBitmapIndex := pageBitmapIndex s + 1\<rparr>)
        else (pageBitmapIndex s * 4096, LockPage s (pageBitmapIndex s * 4096))
      else (0, s))"
  by pat_completeness auto
termination
  by (relation "measure (\<lambda>s. unat (Size (PageBitmap s) * 8) - unat (pageBitmapIndex s))")
    (auto simp: word_less_nat_alt unat_Suc_no_wrap)

declare RequestPage.simps [simp del]

definition run_found :: "bitmap \<Rightarrow> u64 \<Rightarrow> u64 \<Rightarrow> bool" where
  "run_found b index count =
     int_for count (\<lambda>i found. if bitmap_index b (index + scast i) then False else found) 0 True"

function RequestPages_from :: "u64 \<Rightarrow> u64 \<Rightarrow> pfa \<Rightarrow> u64 \<times> pfa" where
  "RequestPages_from count BackupIndex s =
     (if pageBitmapIndex s < Size (PageBitmap s) * 8 then
        if run_found (PageBitmap s) (pageBitmapIndex s) count
        then (pageBitmapIndex s * 4096, LockPages s (pageBitmapIndex s * 4096) count)
        else RequestPages_from count BackupIndex (s\<lparr>pageBitmapIndex := pageBitmapIndex s + 1\<rparr>)
      else (0, s\<lparr>pageBitmapIndex := BackupIndex\<rparr>))"
  by pat_completeness auto
termination
  by (relation "measure (\<lambda>(c, b, s). unat (Size (PageBitmap s) * 8) - unat (pageBitmapIndex s))")
    (auto simp: word_less_nat_alt unat_Suc_no_wrap)

declare RequestPages_from.simps [simp del]

definition RequestPages :: "u64 \<Rightarrow> pfa \<Rightarrow> u64 \<times> pfa" where
  "RequestPages count s = RequestPages_from count (pageBitmapIndex s) s"

section \<open>Reading the EFI memory map\<close>

definition GetMemorySize :: "efi_map \<Rightarrow> u64 \<Rightarrow> u64 \<Rightarrow> pfa \<Rightarrow> u64 \<times> pfa" where
  "GetMemorySize mMap mMapEntries DescriptorSize s =
     (let n = int_for mMapEntries
                (\<lambda>i acc. acc + numPages (mMap (scast i * DescriptorSize)) * 4096) 0 0
      in (n, s\<lparr>TotalMemory := n\<rparr>))"

definition InitBitmap :: "u64 \<Rightarrow> u64 \<Rightarrow> pfa \<Rightarrow> pfa" where
  "InitBitmap bitMapSize bufferAddress s =
     s\<lparr>PageBitmap := (PageBitmap s)\<lparr>Size := bitMapSize, Buffer := bufferAddress,
         Bytes := int_for bitMapSize (\<lambda>b m. m(scast b := 0)) 0 (Bytes (PageBitmap s))\<rparr>\<rparr>"

definition largest_segment :: "efi_map \<Rightarrow> u64 \<Rightarrow> u64 \<Rightarrow> u64 \<times> u64" where
  "largest_segment mMap MapEntries DescriptorSize =
     int_for MapEntries
       (\<lambda>e (LargestSegment, LargestSegmentSize).
          let d = mMap (scast e * DescriptorSize) in
          if efi_type d = 7 \<and> numPages d * 4096 > LargestSegmentSize
          then (physAddr d, numPages d * 4096) else (LargestSegment, LargestSegmentSize))
       0 (0, 0)"

definition unreserve_conventional :: "efi_map \<Rightarrow> u64 \<Rightarrow> u64 \<Rightarrow> pfa \<Rightarrow> pfa" where
  "unreserve_conventional mMap MapEntries DescriptorSize =
     int_for MapEntries
       (\<lambda>e s. let d = mMap (scast e * DescriptorSize) in
          if efi_type d = 7 then UnreservePages s (physAddr d) (numPages d) else s) 0"

text \<open>\<open>None\<close>: the division by \<^verbatim>\<open>DescriptorSize\<close> raises the divide error.\<close>

definition ReadEFIMemoryMap :: "efi_map \<Rightarrow> u64 \<Rightarrow> u64 \<Rightarrow> pfa \<Rightarrow> pfa option" where
  "ReadEFIMemoryMap mMap mMapSize DescriptorSize s =
     (if Initialised s then Some s
      else if DescriptorSize = 0 then None
      else
        let MapEntries = mMapSize div DescriptorSize;
            LargestSegment = fst (largest_segment mMap MapEntries DescriptorSize);
            (MemorySize, s1) = GetMemorySize mMap MapEntries DescriptorSize
                                 (s\<lparr>Initialised := True\<rparr>);
            s2 = InitBitmap (MemorySize div 4096 div 8 + 1) LargestSegment
                   (s1\<lparr>FreeMemory := MemorySize\<rparr>);
            s3 = ReservePages s2 0 (MemorySize div 4096 + 1);
            s4 = unreserve_conventional mMap MapEntries DescriptorSize s3;
            s5 = ReservePages s4 0 0x100
        in Some (LockPages s5 (Buffer (PageBitmap s5)) (Size (PageBitmap s5) div 4096 + 1)))"

definition GetFreeRAM :: "pfa \<Rightarrow> u64" where "GetFreeRAM s = FreeMemory s"

definition GetUsedRAM :: "pfa \<Rightarrow> u64" where "GetUsedRAM s = UsedMemory s"

definition GetReservedRAM :: "pfa \<Rightarrow> u64" where "GetReservedRAM s = ReservedMemory s"

text \<open>The object before \<^verbatim>\<open>ReadEFIMemoryMap\<close>: zero-initialised statics.\<close>

definition initial_pfa :: "bitmap \<Rightarrow> pfa" where
  "initial_pfa b = \<lparr>PageBitmap = b, pageBitmapIndex = 0, FreeMemory = 0, ReservedMemory = 0,
     UsedMemory = 0, TotalMemory = 0, Initialised = False\<rparr>"

section \<open>Marks\<close>

definition marked :: "pfa \<Rightarrow> u64 \<Rightarrow> bool" where
  "marked s i = Get (PageBitmap s) i"

definition page_inside :: "pfa \<Rightarrow> u64 \<Rightarrow> bool" where
  "page_inside s i = (i \<le> Size (PageBitmap s) * 8)"

lemmas page_op_defs = LockPage_def ReservePage_def FreePage_def UnreservePage_def
  bitmap_index_def marked_def page_inside_def Let_def

text \<open>
  \<open>LockPage\<close> and \<open>ReservePage\<close> share one contract, \<open>FreePage\<close> and \<open>UnreservePage\<close>
  another: what they do to the marks, and that the bitmap keeps its size.
\<close>

locale page_marker =
  fixes mark :: "pfa \<Rightarrow> u64 \<Rightarrow> pfa"
  assumes marked_mark:
      "marked (mark s a) j \<longleftrightarrow> marked s j \<or> (j = a div 4096 \<and> page_inside s j)"
    and inside_mark: "page_inside (mark s a) = page_inside s"
begin

lemma inside_each: "page_inside (each_page mark a n s) = page_inside s"
  unfolding each_page_def by (rule int_for_frame) (rule inside_mark)

lemma marked_fold:
  "marked (fold (\<lambda>t s. mark s (f t)) ts s) j \<longleftrightarrow>
     marked s j \<or> (\<exists>t \<in> set ts. j = f t div 4096 \<and> page_inside s j)"
proof (induction ts arbitrary: s)
  case Nil
  then show ?case by simp
next
  case (Cons t ts)
  then show ?case by (auto simp: marked_mark inside_mark)
qed

lemma marked_each:
  assumes "unat n \<le> 2 ^ 31"
  shows "marked (each_page mark a n s) j \<longleftrightarrow>
    marked s j \<or> (\<exists>t < unat n. j = (a + page_offset (word_of_nat t)) div 4096 \<and> page_inside s j)"
  unfolding each_page_def int_for_fold [OF assms] by (subst marked_fold) auto

lemma marked_each_mono: "marked s j \<Longrightarrow> marked (each_page mark a n s) j"
  unfolding each_page_def
  by (rule int_for_invariant [where P = "\<lambda>s. marked s j"]) (simp_all add: marked_mark)

end

locale page_clearer =
  fixes clear :: "pfa \<Rightarrow> u64 \<Rightarrow> pfa"
  assumes marked_clear:
      "marked (clear s a) j \<longleftrightarrow> marked s j \<and> j \<noteq> a div 4096"
    and inside_clear: "page_inside (clear s a) = page_inside s"
begin

lemma inside_each: "page_inside (each_page clear a n s) = page_inside s"
  unfolding each_page_def by (rule int_for_frame) (rule inside_clear)

lemma marked_fold:
  "marked (fold (\<lambda>t s. clear s (f t)) ts s) j \<longleftrightarrow>
     marked s j \<and> (\<forall>t \<in> set ts. j \<noteq> f t div 4096)"
  by (induction ts arbitrary: s) (auto simp: marked_clear)

lemma marked_each:
  assumes "unat n \<le> 2 ^ 31"
  shows "marked (each_page clear a n s) j \<longleftrightarrow>
    marked s j \<and> (\<forall>t < unat n. j \<noteq> (a + page_offset (word_of_nat t)) div 4096)"
  unfolding each_page_def int_for_fold [OF assms] by (subst marked_fold) auto

end

lemma marked_Set:
  "Get (snd (Set b i v)) j = (if j = i \<and> i \<le> Size b * 8 then v else Get b j)"
  by (rule pb.get_put)


text \<open>Each operation as one guarded update: the failing branch changes nothing.\<close>

lemma LockPage_eq:
  "LockPage s a = (let i = a div 4096 in
     if marked s i \<or> \<not> page_inside s i then s
     else s\<lparr>PageBitmap := snd (Set (PageBitmap s) i True), FreeMemory := FreeMemory s - 4096,
            UsedMemory := UsedMemory s + 4096\<rparr>)"
  using Set_result [of "PageBitmap s" "a div 4096" True] Set_fail [of "a div 4096" "PageBitmap s" True]
  by (auto simp: page_op_defs split: prod.splits)

lemma ReservePage_eq:
  "ReservePage s a = (let i = a div 4096 in
     if marked s i \<or> \<not> page_inside s i then s
     else s\<lparr>PageBitmap := snd (Set (PageBitmap s) i True), FreeMemory := FreeMemory s - 4096,
            ReservedMemory := ReservedMemory s + 4096\<rparr>)"
  using Set_result [of "PageBitmap s" "a div 4096" True] Set_fail [of "a div 4096" "PageBitmap s" True]
  by (auto simp: page_op_defs split: prod.splits)

lemma marked_inside: "marked s i \<Longrightarrow> page_inside s i"
  using Get_outside by (auto simp: marked_def page_inside_def)

lemma FreePage_eq:
  "FreePage s a = (let i = a div 4096 in
     if \<not> marked s i then s
     else s\<lparr>PageBitmap := snd (Set (PageBitmap s) i False), FreeMemory := FreeMemory s + 4096,
            UsedMemory := UsedMemory s - 4096, pageBitmapIndex := min (pageBitmapIndex s) i\<rparr>)"
  using Set_result [of "PageBitmap s" "a div 4096" False] marked_inside [of s "a div 4096"]
  by (auto simp: page_op_defs min_def split: prod.splits)

lemma UnreservePage_eq:
  "UnreservePage s a = (let i = a div 4096 in
     if \<not> marked s i then s
     else s\<lparr>PageBitmap := snd (Set (PageBitmap s) i False), FreeMemory := FreeMemory s + 4096,
            ReservedMemory := ReservedMemory s - 4096,
            pageBitmapIndex := min (pageBitmapIndex s) i\<rparr>)"
  using Set_result [of "PageBitmap s" "a div 4096" False] marked_inside [of s "a div 4096"]
  by (auto simp: page_op_defs min_def split: prod.splits)

lemmas page_op_eqs = LockPage_eq ReservePage_eq FreePage_eq UnreservePage_eq Let_def

interpretation lock: page_marker LockPage
  by unfold_locales
    (auto simp: page_op_eqs marked_def page_inside_def marked_Set fun_eq_iff)

interpretation reserve: page_marker ReservePage
  by unfold_locales
    (auto simp: page_op_eqs marked_def page_inside_def marked_Set fun_eq_iff)

interpretation free: page_clearer FreePage
  by unfold_locales
    (auto simp: page_op_eqs marked_def page_inside_def marked_Set fun_eq_iff Get_outside)

interpretation unreserve: page_clearer UnreservePage
  by unfold_locales
    (auto simp: page_op_eqs marked_def page_inside_def marked_Set fun_eq_iff Get_outside)

section \<open>Memory accounting\<close>

definition pfa_ok :: "pfa \<Rightarrow> bool" where
  "pfa_ok s \<longleftrightarrow> unat (Size (PageBitmap s)) * 8 \<le> 2 ^ 51"

definition marks :: "bitmap \<Rightarrow> nat" where
  "marks b = card (pb.ones b (Suc (unat (Size b * 8))))"

text \<open>
  \<open>k\<close> counts the marks nobody paid for: \<open>InitBitmap\<close> clears \<^verbatim>\<open>Size\<close> bytes, but \<open>Get\<close> and
  \<open>Set\<close> also accept the index \<^verbatim>\<open>Size * 8\<close>, whose bit lies in the byte after them.
\<close>

definition pfa_inv :: "nat \<Rightarrow> pfa \<Rightarrow> bool" where
  "pfa_inv k s \<longleftrightarrow> pfa_ok s
     \<and> FreeMemory s + UsedMemory s + ReservedMemory s = TotalMemory s
     \<and> UsedMemory s + ReservedMemory s + 4096 * word_of_nat k
         = 4096 * word_of_nat (marks (PageBitmap s))"

lemma pfa_ok_bits: "pfa_ok s \<Longrightarrow> unat (Size (PageBitmap s) * 8) = unat (Size (PageBitmap s)) * 8"
  by (simp add: pfa_ok_def unat_mult_no_wrap)

lemma inside_unat: "i \<le> Size b * 8 \<Longrightarrow> unat i < Suc (unat (Size b * 8))"
  by (simp add: word_le_nat_alt less_Suc_eq_le)

lemma Suc_bits_le: "Suc (unat (Size b * 8)) \<le> 2 ^ 64"
  using unsigned_less [of "Size b * 8"] by (simp only: Suc_le_eq) simp

lemma marks_put_True:
  "\<not> Get b i \<Longrightarrow> i \<le> Size b * 8 \<Longrightarrow> marks (snd (Set b i True)) = Suc (marks b)"
  unfolding marks_def Size_Set
  by (rule pb.card_ones_put_True [OF _ inside_unat Suc_bits_le])

lemma marks_put_False:
  assumes "Get b i" and "i \<le> Size b * 8"
  shows "word_of_nat (marks (snd (Set b i False))) = (word_of_nat (marks b) - 1 :: u64)"
proof -
  have "marks b = Suc (marks (snd (Set b i False)))"
    unfolding marks_def Size_Set using assms
    by (intro pb.card_ones_put_False [OF _ inside_unat Suc_bits_le])
  then show ?thesis by simp
qed

lemma pfa_inv_LockPage: "pfa_inv k s \<Longrightarrow> pfa_inv k (LockPage s a)"
  by (auto simp: pfa_inv_def pfa_ok_def LockPage_eq Let_def marked_def page_inside_def
      marks_put_True algebra_simps)

lemma pfa_inv_ReservePage: "pfa_inv k s \<Longrightarrow> pfa_inv k (ReservePage s a)"
  by (auto simp: pfa_inv_def pfa_ok_def ReservePage_eq Let_def marked_def page_inside_def
      marks_put_True algebra_simps)

lemma pfa_inv_FreePage: "pfa_inv k s \<Longrightarrow> pfa_inv k (FreePage s a)"
  using marked_inside [of s "a div 4096"]
  by (auto simp: pfa_inv_def pfa_ok_def FreePage_eq Let_def marked_def page_inside_def
      marks_put_False algebra_simps)

lemma pfa_inv_UnreservePage: "pfa_inv k s \<Longrightarrow> pfa_inv k (UnreservePage s a)"
  using marked_inside [of s "a div 4096"]
  by (auto simp: pfa_inv_def pfa_ok_def UnreservePage_eq Let_def marked_def page_inside_def
      marks_put_False algebra_simps)

lemma pfa_inv_each_page:
  assumes "pfa_inv k s" and "\<And>s a. pfa_inv k s \<Longrightarrow> pfa_inv k (f s a)"
  shows "pfa_inv k (each_page f a n s)"
  unfolding each_page_def using assms by (rule int_for_invariant)

lemma pfa_inv_runs:
  assumes "pfa_inv k s"
  shows "pfa_inv k (LockPages s a n)" "pfa_inv k (ReservePages s a n)"
    "pfa_inv k (FreePages s a n)" "pfa_inv k (UnreservePages s a n)"
  using assms
  by (simp_all add: LockPages_def ReservePages_def FreePages_def UnreservePages_def
      pfa_inv_each_page pfa_inv_LockPage pfa_inv_ReservePage pfa_inv_FreePage pfa_inv_UnreservePage)

lemma pfa_inv_index [simp]: "pfa_inv k (s\<lparr>pageBitmapIndex := i\<rparr>) = pfa_inv k s"
  by (simp add: pfa_inv_def pfa_ok_def)

lemma pfa_inv_RequestPage: "pfa_inv k s \<Longrightarrow> pfa_inv k (snd (RequestPage s))"
proof (induction s rule: RequestPage.induct)
  case (1 s)
  then show ?case by (subst RequestPage.simps) (simp add: pfa_inv_LockPage)
qed

lemma pfa_inv_RequestPages_from:
  "pfa_inv k s \<Longrightarrow> pfa_inv k (snd (RequestPages_from c b s))"
proof (induction c b s rule: RequestPages_from.induct)
  case (1 c b s)
  then show ?case by (subst RequestPages_from.simps) (simp add: pfa_inv_runs)
qed

lemma pfa_inv_RequestPages: "pfa_inv k s \<Longrightarrow> pfa_inv k (snd (RequestPages c s))"
  by (simp add: RequestPages_def pfa_inv_RequestPages_from)

section \<open>Requests return free pages\<close>

lemma div_mult_4096:
  fixes i :: u64
  assumes "unat i < 2 ^ 52"
  shows "i * 4096 div 4096 = i"
  using assms by (intro word_div_mult) simp_all

lemma index_below:
  "pfa_ok s \<Longrightarrow> i < Size (PageBitmap s) * 8 \<Longrightarrow> unat i < 2 ^ 51"
  using pfa_ok_bits [of s] by (simp add: pfa_ok_def word_less_nat_alt)

text \<open>
  \<open>RequestPage\<close> takes the first clear bit from the hint on. Its result is described against
  the state before: the page was not marked, it is now, and no other mark changed.
\<close>

lemma RequestPage_spec:
  assumes "pfa_ok s" and "i < Size (PageBitmap s) * 8" and "pageBitmapIndex s \<le> i"
    and "\<not> marked s i" and "\<And>j. pageBitmapIndex s \<le> j \<Longrightarrow> j < i \<Longrightarrow> marked s j"
  shows "RequestPage s = (i * 4096, LockPage (s\<lparr>pageBitmapIndex := i\<rparr>) (i * 4096))"
  using assms
proof (induction s rule: RequestPage.induct)
  case (1 s)
  let ?i = "pageBitmapIndex s"
  have in_range: "?i < Size (PageBitmap s) * 8" using "1.prems" by auto
  show ?case
  proof (cases "marked s ?i")
    case False
    with "1.prems" have i: "?i = i" by (metis order_le_less order_refl)
    then have same: "s\<lparr>pageBitmapIndex := i\<rparr> = s" by auto
    then show ?thesis
      using False in_range unfolding same unfolding i [symmetric]
      by (subst RequestPage.simps) (simp add: bitmap_index_def marked_def)
  next
    case True
    then have "?i < i" using "1.prems" by (metis order_le_less)
    then have "?i + 1 \<le> i" and lt: "\<And>j. ?i + 1 \<le> j \<Longrightarrow> ?i \<le> j"
      using unat_Suc_no_wrap [of ?i i] by (auto simp: word_less_nat_alt word_le_nat_alt)
    then show ?thesis
      using True in_range "1.prems" "1.IH"
      by (subst RequestPage.simps) (simp add: bitmap_index_def marked_def pfa_ok_def)
  qed
qed

lemma RequestPage_none:
  assumes "\<And>j. pageBitmapIndex s \<le> j \<Longrightarrow> j < Size (PageBitmap s) * 8 \<Longrightarrow> marked s j"
  shows "fst (RequestPage s) = 0 \<and> PageBitmap (snd (RequestPage s)) = PageBitmap s"
  using assms
proof (induction s rule: RequestPage.induct)
  case (1 s)
  let ?i = "pageBitmapIndex s"
  show ?case
  proof (cases "?i < Size (PageBitmap s) * 8")
    case False
    then show ?thesis by (subst (1 2) RequestPage.simps) simp
  next
    case True
    then have "marked s ?i" using "1.prems" by simp
    moreover have "\<And>j. ?i + 1 \<le> j \<Longrightarrow> ?i \<le> j"
      using True unat_Suc_no_wrap [of ?i "Size (PageBitmap s) * 8"]
      by (auto simp: word_less_nat_alt word_le_nat_alt)
    ultimately show ?thesis
      using True "1.prems" "1.IH"
      by (subst (1 2) RequestPage.simps) (simp add: bitmap_index_def marked_def)
  qed
qed

section \<open>Runs of pages, with and without wrap-around\<close>

lemma page_offset_small:
  assumes "k < 2 ^ 19"
  shows "page_offset (word_of_nat k) = word_of_nat (k * 4096)"
proof -
  have t: "word_of_nat k * 4096 = (word_of_nat (k * 4096) :: i32)" by simp
  have u: "unat (word_of_nat (k * 4096) :: i32) = k * 4096"
    using assms by (intro unat_of_nat_u32) simp
  then have "unat (scast (word_of_nat (k * 4096) :: i32) :: u64) = k * 4096"
    using assms by (subst scast_nonneg_i32) simp_all
  moreover have "unat (word_of_nat (k * 4096) :: u64) = k * 4096"
    using assms by (intro unat_of_nat_u64) simp
  ultimately show ?thesis
    unfolding page_offset_def t by (simp only: word_eq_iff_unat)
qed

lemma page_at:
  assumes "k < 2 ^ 19" and "unat a + 4096 * k < 2 ^ 64"
  shows "unat ((a + page_offset (word_of_nat k)) div 4096) = unat a div 4096 + k"
proof -
  have "unat (word_of_nat (k * 4096) :: u64) = k * 4096"
    using assms by (intro unat_of_nat_u64) simp
  then have "unat (a + word_of_nat (k * 4096)) = unat a + k * 4096"
    using assms by (subst unat_add_no_wrap) simp_all
  then show ?thesis using assms by (simp add: page_offset_small unat_div_distrib)
qed

definition in_pages :: "u64 \<Rightarrow> u64 \<Rightarrow> u64 \<Rightarrow> bool" where
  "in_pages address pageCount j \<longleftrightarrow>
     unat address div 4096 \<le> unat j \<and> unat j < unat address div 4096 + unat pageCount"

lemma in_pages_iff:
  assumes "unat n \<le> 2 ^ 19" and "unat a + 4096 * unat n \<le> 2 ^ 64"
  shows "(\<exists>t < unat n. j = (a + page_offset (word_of_nat t)) div 4096) = in_pages a n j"
proof
  assume "\<exists>t < unat n. j = (a + page_offset (word_of_nat t)) div 4096"
  then obtain t where t: "t < unat n" and j: "j = (a + page_offset (word_of_nat t)) div 4096"
    by auto
  have "unat j = unat a div 4096 + t" unfolding j using t assms by (intro page_at) auto
  with t show "in_pages a n j" by (simp add: in_pages_def)
next
  assume j: "in_pages a n j"
  define t where "t = unat j - unat a div 4096"
  have t: "t < unat n" using j by (auto simp: in_pages_def t_def)
  then have "unat ((a + page_offset (word_of_nat t)) div 4096) = unat a div 4096 + t"
    using assms by (intro page_at) auto
  also have "\<dots> = unat j" using j by (simp add: in_pages_def t_def)
  finally show "\<exists>t < unat n. j = (a + page_offset (word_of_nat t)) div 4096"
    using t by (metis word_eq_iff_unat)
qed

lemma runs_marked:
  assumes "unat n \<le> 2 ^ 19" and "unat a + 4096 * unat n \<le> 2 ^ 64"
  shows "marked (LockPages s a n) j \<longleftrightarrow> marked s j \<or> (in_pages a n j \<and> page_inside s j)"
    and "marked (ReservePages s a n) j \<longleftrightarrow> marked s j \<or> (in_pages a n j \<and> page_inside s j)"
    and "marked (FreePages s a n) j \<longleftrightarrow> marked s j \<and> \<not> in_pages a n j"
    and "marked (UnreservePages s a n) j \<longleftrightarrow> marked s j \<and> \<not> in_pages a n j"
proof -
  have n: "unat n \<le> 2 ^ 31" using assms(1) by simp
  note iff = in_pages_iff [OF assms, of j, symmetric]
  show "marked (LockPages s a n) j \<longleftrightarrow> marked s j \<or> (in_pages a n j \<and> page_inside s j)"
    unfolding LockPages_def lock.marked_each [OF n] iff by auto
  show "marked (ReservePages s a n) j \<longleftrightarrow> marked s j \<or> (in_pages a n j \<and> page_inside s j)"
    unfolding ReservePages_def reserve.marked_each [OF n] iff by auto
  show "marked (FreePages s a n) j \<longleftrightarrow> marked s j \<and> \<not> in_pages a n j"
    unfolding FreePages_def free.marked_each [OF n] iff by auto
  show "marked (UnreservePages s a n) j \<longleftrightarrow> marked s j \<and> \<not> in_pages a n j"
    unfolding UnreservePages_def unreserve.marked_each [OF n] iff by auto
qed

lemma runs_inside [simp]:
  "page_inside (LockPages s a n) = page_inside s" "page_inside (ReservePages s a n) = page_inside s"
  "page_inside (FreePages s a n) = page_inside s" "page_inside (UnreservePages s a n) = page_inside s"
  by (simp_all add: LockPages_def ReservePages_def FreePages_def UnreservePages_def
      lock.inside_each reserve.inside_each free.inside_each unreserve.inside_each)

text \<open>From page 524288 on, the offset has wrapped to a negative int: it points 2 GiB below.\<close>

lemma page_offset_wrapped:
  assumes "2 ^ 19 \<le> k" and "k < 2 ^ 20"
  shows "unat (page_offset (word_of_nat k)) = k * 4096 + (2 ^ 64 - 2 ^ 32)"
proof -
  have t: "word_of_nat k * 4096 = (word_of_nat (k * 4096) :: i32)" by simp
  show ?thesis unfolding page_offset_def t using assms by (intro scast_neg_i32) simp_all
qed

text \<open>
  So a run that starts at address 0 never reaches page 524288 (2 GiB): the marks it sets are
  those of a run of 524288 pages, however long the run was meant to be.
\<close>

lemma runs_wrap:
  assumes "2 ^ 19 \<le> unat n" and "unat n \<le> 2 ^ 20" and "unat (Size (PageBitmap s)) * 8 < 2 ^ 51"
  shows "(\<exists>t < unat n. j = (0 + page_offset (word_of_nat t)) div 4096 \<and> page_inside s j)
      \<longleftrightarrow> unat j < 2 ^ 19 \<and> page_inside s j"
proof -
  have bits: "unat (Size (PageBitmap s) * 8) < 2 ^ 51"
    using assms(3) by (subst unat_mult_no_wrap) simp_all
  have wrapped: "\<not> page_inside s ((0 + page_offset (word_of_nat t)) div 4096)"
    if "2 ^ 19 \<le> t" "t < unat n" for t
  proof -
    have "unat (page_offset (word_of_nat t)) = t * 4096 + (2 ^ 64 - 2 ^ 32)"
      using that assms(2) by (intro page_offset_wrapped) simp_all
    then have "2 ^ 51 \<le> unat ((0 + page_offset (word_of_nat t)) div 4096)"
      by (simp add: unat_div_distrib)
    with bits show ?thesis by (simp add: page_inside_def word_le_nat_alt)
  qed
  have small: "(\<exists>t < 2 ^ 19. j = (0 + page_offset (word_of_nat t)) div 4096) = (unat j < 2 ^ 19)"
    using in_pages_iff [of "2 ^ 19" 0 j] by (simp add: in_pages_def)
  show ?thesis
  proof
    assume "\<exists>t < unat n. j = (0 + page_offset (word_of_nat t)) div 4096 \<and> page_inside s j"
    then obtain t where t: "t < unat n" "j = (0 + page_offset (word_of_nat t)) div 4096"
        "page_inside s j" by blast
    with wrapped have "t < 2 ^ 19" by (meson linorder_not_le)
    with t small show "unat j < 2 ^ 19 \<and> page_inside s j" by blast
  next
    assume j: "unat j < 2 ^ 19 \<and> page_inside s j"
    with small obtain t where t: "t < 2 ^ 19" "j = (0 + page_offset (word_of_nat t)) div 4096" by blast
    have "t < unat n" using t(1) assms(1) by (rule less_le_trans)
    with j t(2) show "\<exists>t < unat n. j = (0 + page_offset (word_of_nat t)) div 4096
        \<and> page_inside s j" by blast
  qed
qed


section \<open>The state the boot leaves\<close>

lemma InitBitmap_Get:
  assumes "unat n \<le> 2 ^ 31" and "i < n * 8" and "unat n * 8 < 2 ^ 64"
  shows "\<not> marked (InitBitmap n a s) i"
proof -
  let ?body = "\<lambda>b m. m(scast (word_of_nat b :: i32) := 0) :: u64 \<Rightarrow> u8"
  have zero: "k \<le> 2 ^ 31 \<Longrightarrow> unat x < k \<Longrightarrow> fold ?body [0..<k] m x = 0" for k m x
  proof (induction k)
    case 0
    then show ?case by simp
  next
    case (Suc k)
    have "unat (scast (word_of_nat k :: i32) :: u64) = k"
      using Suc.prems by (subst scast_nonneg_i32) (simp_all add: unat_of_nat)
    then have "x = scast (word_of_nat k :: i32) \<or> unat x < k"
      using Suc.prems by (auto simp: word_eq_iff_unat)
    with Suc show ?case by auto
  qed
  have "unat i < unat n * 8" using assms by (simp add: word_less_nat_alt unat_mult_no_wrap)
  then have "unat (i div 8) < unat n" by (simp add: unat_div_distrib)
  then have "Bytes (PageBitmap (InitBitmap n a s)) (i div 8) = 0"
    using assms(1) by (simp add: InitBitmap_def int_for_fold zero)
  then show ?thesis by (simp add: marked_def Get_def)
qed

definition in_conventional :: "efi_map \<Rightarrow> u64 \<Rightarrow> u64 \<Rightarrow> u64 \<Rightarrow> bool" where
  "in_conventional mMap n D j \<longleftrightarrow>
     (\<exists>e < unat n. let d = mMap (word_of_nat e * D) in
        efi_type d = 7 \<and> in_pages (physAddr d) (numPages d) j)"

definition map_ok :: "efi_map \<Rightarrow> u64 \<Rightarrow> u64 \<Rightarrow> bool" where
  "map_ok mMap n D \<longleftrightarrow> unat n \<le> 2 ^ 31 \<and>
     (\<forall>e < unat n. let d = mMap (word_of_nat e * D) in
        unat (physAddr d) < 2 ^ 52 \<and> unat (numPages d) \<le> 2 ^ 19)"

lemma scast_of_nat_i32: "k < 2 ^ 31 \<Longrightarrow> scast (word_of_nat k :: i32) = (word_of_nat k :: u64)"
  by (simp add: word_eq_iff_unat scast_nonneg_i32 unat_of_nat)

lemma unreserve_conventional_marked:
  assumes "map_ok mMap n D"
  shows "marked (unreserve_conventional mMap n D s) j
      \<longleftrightarrow> marked s j \<and> \<not> in_conventional mMap n D j"
proof -
  let ?step = "\<lambda>e s. let d = mMap (scast (word_of_nat e :: i32) * D) in
      if efi_type d = 7 then UnreservePages s (physAddr d) (numPages d) else s"
  have "k \<le> unat n \<Longrightarrow> marked (fold ?step [0..<k] s) j \<longleftrightarrow> marked s j \<and>
      \<not> (\<exists>e < k. let d = mMap (word_of_nat e * D) in
          efi_type d = 7 \<and> in_pages (physAddr d) (numPages d) j)" for k
  proof (induction k)
    case 0
    then show ?case by simp
  next
    case (Suc k)
    let ?d = "mMap (word_of_nat k * D)"
    have "k < 2 ^ 31" using Suc.prems assms by (simp add: map_ok_def)
    then have sc: "scast (word_of_nat k :: i32) = (word_of_nat k :: u64)"
      by (rule scast_of_nat_i32)
    have "unat (numPages ?d) \<le> 2 ^ 19 \<and> unat (physAddr ?d) < 2 ^ 52"
      using Suc.prems assms by (simp add: map_ok_def Let_def)
    then have "unat (numPages ?d) \<le> 2 ^ 19 \<and> unat (physAddr ?d) + 4096 * unat (numPages ?d) \<le> 2 ^ 64"
      by simp
    then show ?case
      using Suc by (auto simp: sc runs_marked(4) less_Suc_eq Let_def)
  qed
  from this [of "unat n"] show ?thesis
    using assms by (simp add: unreserve_conventional_def int_for_fold map_ok_def in_conventional_def)
qed

text \<open>Size, place and extent of the bitmap never change after the boot.\<close>

definition geometry :: "pfa \<Rightarrow> u64 \<times> u64 \<times> u64 \<times> bool" where
  "geometry s = (Size (PageBitmap s), Buffer (PageBitmap s), TotalMemory s, Initialised s)"

lemma geometry_page [simp]:
  "geometry (LockPage s a) = geometry s" "geometry (ReservePage s a) = geometry s"
  "geometry (FreePage s a) = geometry s" "geometry (UnreservePage s a) = geometry s"
  by (simp_all add: geometry_def page_op_eqs)

lemma geometry_runs [simp]:
  "geometry (LockPages s a n) = geometry s" "geometry (ReservePages s a n) = geometry s"
  "geometry (FreePages s a n) = geometry s" "geometry (UnreservePages s a n) = geometry s"
  unfolding LockPages_def ReservePages_def FreePages_def UnreservePages_def each_page_def
  by (rule int_for_frame, simp)+

lemma geometry_unreserve_conventional [simp]:
  "geometry (unreserve_conventional mMap n D s) = geometry s"
  unfolding unreserve_conventional_def by (rule int_for_frame) (simp add: Let_def)

lemma geometryD:
  assumes "geometry s = geometry t"
  shows "Size (PageBitmap s) = Size (PageBitmap t)" "Buffer (PageBitmap s) = Buffer (PageBitmap t)"
    "TotalMemory s = TotalMemory t" "page_inside s = page_inside t"
  using assms by (auto simp: geometry_def page_inside_def)

lemma largest_segment_bound:
  assumes "map_ok mMap n D"
  shows "unat (fst (largest_segment mMap n D)) < 2 ^ 52"
proof -
  let ?f = "\<lambda>e (a, z). let d = mMap (scast (word_of_nat e :: i32) * D) in
      if efi_type d = 7 \<and> numPages d * 4096 > z then (physAddr d, numPages d * 4096) else (a, z)"
  have "k \<le> unat n \<Longrightarrow> unat (fst (fold ?f [0..<k] (0, 0))) < 2 ^ 52" for k
  proof (induction k)
    case 0
    then show ?case by simp
  next
    case (Suc k)
    have "scast (word_of_nat k :: i32) = (word_of_nat k :: u64)"
      using Suc.prems assms by (intro scast_of_nat_i32) (simp add: map_ok_def)
    moreover have "unat (physAddr (mMap (word_of_nat k * D))) < 2 ^ 52"
      using Suc.prems assms by (simp add: map_ok_def Let_def)
    ultimately show ?case
      using Suc by (auto simp: Let_def split: prod.splits)
  qed
  from this [of "unat n"] show ?thesis
    using assms by (simp add: largest_segment_def int_for_fold map_ok_def)
qed

text \<open>The state with a fresh, all-clear bitmap, and the boot as one expression over it.\<close>

definition boot_start :: "efi_map \<Rightarrow> u64 \<Rightarrow> u64 \<Rightarrow> u64 \<Rightarrow> pfa \<Rightarrow> pfa" where
  "boot_start mMap n D M s = InitBitmap (M div 4096 div 8 + 1) (fst (largest_segment mMap n D))
     (s\<lparr>Initialised := True, TotalMemory := M, FreeMemory := M\<rparr>)"

lemma geometry_boot_start:
  "geometry (boot_start mMap n D M s)
    = (M div 4096 div 8 + 1, fst (largest_segment mMap n D), M, True)"
  by (simp add: boot_start_def InitBitmap_def geometry_def)

lemma ReadEFIMemoryMap_boot:
  assumes "\<not> Initialised s" and "D \<noteq> 0" and "n = mMapSize div D"
    and "M = fst (GetMemorySize mMap n D s)"
  shows "ReadEFIMemoryMap mMap mMapSize D s = Some
     (LockPages (ReservePages (unreserve_conventional mMap n D
        (ReservePages (boot_start mMap n D M s) 0 (M div 4096 + 1))) 0 0x100)
        (fst (largest_segment mMap n D)) ((M div 4096 div 8 + 1) div 4096 + 1))"
proof -
  let ?s5 = "ReservePages (unreserve_conventional mMap n D
        (ReservePages (boot_start mMap n D M s) 0 (M div 4096 + 1))) 0 0x100"
  have "geometry ?s5 = (M div 4096 div 8 + 1, fst (largest_segment mMap n D), M, True)"
    by (simp add: geometry_boot_start)
  then have "Size (PageBitmap ?s5) = M div 4096 div 8 + 1"
      "Buffer (PageBitmap ?s5) = fst (largest_segment mMap n D)"
    by (simp_all only: geometry_def prod.inject)
  moreover have "ReadEFIMemoryMap mMap mMapSize D s
      = Some (LockPages ?s5 (Buffer (PageBitmap ?s5)) (Size (PageBitmap ?s5) div 4096 + 1))"
    using assms by (simp add: ReadEFIMemoryMap_def Let_def GetMemorySize_def boot_start_def)
  ultimately show ?thesis by (simp only:)
qed

lemma boot_size:
  assumes "unat M < 2 ^ 40"
  shows "unat (M div 4096 div 8 + 1 :: u64) = unat M div 4096 div 8 + 1"
  using assms by (subst unat_add_no_wrap) (simp_all add: unat_div_distrib)

lemma boot_result:
  fixes mMap :: efi_map and M mMapSize D :: u64
  defines "n \<equiv> mMapSize div D"
  assumes boot: "\<not> Initialised s" "D \<noteq> 0" and ok: "map_ok mMap n D"
    and M: "M = fst (GetMemorySize mMap n D s)" and small: "unat M < 2 ^ 31"
  obtains s' where "ReadEFIMemoryMap mMap mMapSize D s = Some s'"
    and "geometry s' = (M div 4096 div 8 + 1, fst (largest_segment mMap n D), M, True)"
    and "\<And>j. unat j \<le> unat M div 4096 \<Longrightarrow> marked s' j \<longleftrightarrow>
        unat j < 0x100 \<or> \<not> in_conventional mMap n D j
        \<or> in_pages (Buffer (PageBitmap s')) (Size (PageBitmap s') div 4096 + 1) j"
proof -
  define L where "L = fst (largest_segment mMap n D)"
  define b where "b = M div 4096 div 8 + 1"
  define s2 where "s2 = boot_start mMap n D M s"
  define s3 where "s3 = ReservePages s2 0 (M div 4096 + 1)"
  define s5 where "s5 = ReservePages (unreserve_conventional mMap n D s3) 0 0x100"
  define s' where "s' = LockPages s5 L (b div 4096 + 1)"
  have result: "ReadEFIMemoryMap mMap mMapSize D s = Some s'"
    unfolding s'_def s5_def s3_def s2_def b_def L_def
    by (rule ReadEFIMemoryMap_boot [OF boot n_def [THEN meta_eq_to_obj_eq] M])
  have M1: "unat (M div 4096 + 1) = unat M div 4096 + 1"
    using small by (subst unat_add_no_wrap) (simp_all add: unat_div_distrib)
  have b: "unat b = unat M div 4096 div 8 + 1"
    unfolding b_def using small by (intro boot_size) simp
  have geo: "geometry s' = (b, L, M, True)"
    by (simp add: s'_def s5_def s3_def s2_def geometry_boot_start b_def L_def)
  have geos: "geometry s5 = geometry s'" "geometry s2 = geometry s'"
    by (simp_all add: s'_def s5_def s3_def)
  have sz: "Size (PageBitmap s') = b" and L: "Buffer (PageBitmap s') = L"
    using geo by (simp_all add: geometry_def)
  have bits: "unat (b * 8) = (unat M div 4096 div 8 + 1) * 8"
    using small b by (subst unat_mult_no_wrap) simp_all
  have z: "unat (b div 4096 + 1) = unat b div 4096 + 1"
    using small b by (subst unat_add_no_wrap) (simp_all add: unat_div_distrib)
  have "unat L < 2 ^ 52" unfolding L_def using ok by (rule largest_segment_bound)
  have "marked s' j \<longleftrightarrow> unat j < 0x100 \<or> \<not> in_conventional mMap n D j
        \<or> in_pages L (b div 4096 + 1) j" if j: "unat j \<le> unat M div 4096" for j
  proof -
    have inside: "page_inside s' j" "page_inside s5 j" "page_inside s2 j"
      using j bits geometryD(4) [OF geos(1)] geometryD(4) [OF geos(2)]
      by (simp_all add: page_inside_def sz word_le_nat_alt)
    have "\<not> marked s2 j"
      unfolding s2_def boot_start_def b_def [symmetric] using j b bits small
      by (intro InitBitmap_Get) (simp_all add: word_less_nat_alt)
    then have "marked s3 j"
      unfolding s3_def using inside small j
      by (subst runs_marked(2)) (simp_all add: M1 in_pages_def)
    then have "marked s5 j \<longleftrightarrow> unat j < 0x100 \<or> \<not> in_conventional mMap n D j"
      unfolding s5_def using inside
      by (subst runs_marked(2))
        (auto simp: in_pages_def s3_def unreserve_conventional_marked [OF ok]
          geometryD(4) [OF geometry_unreserve_conventional])
    moreover have "marked s' j \<longleftrightarrow> marked s5 j \<or> in_pages L (b div 4096 + 1) j"
      unfolding s'_def using inside b small z \<open>unat L < 2 ^ 52\<close>
      by (subst runs_marked(1)) simp_all
    ultimately show ?thesis by blast
  qed
  with result geo show ?thesis
    by (intro that [of s']) (simp_all add: sz L, simp_all add: b_def L_def)
qed

lemma marks_InitBitmap:
  assumes "unat n \<le> 2 ^ 31"
  shows "marks (PageBitmap (InitBitmap n a s)) \<le> 1"
proof -
  let ?b = "PageBitmap (InitBitmap n a s)"
  have sz: "Size ?b = n" by (simp add: InitBitmap_def)
  have "pb.ones ?b (Suc (unat (n * 8))) \<subseteq> {unat (n * 8)}"
  proof
    fix x
    assume x: "x \<in> pb.ones ?b (Suc (unat (n * 8)))"
    then have "x \<le> unat (n * 8)" "marked (InitBitmap n a s) (word_of_nat x)"
      by (auto simp: pb.ones_def marked_def)
    moreover have u: "unat (word_of_nat x :: u64) = x"
      using order_le_less_trans [OF \<open>x \<le> unat (n * 8)\<close> unat_u64_less]
      by (intro unat_of_nat_u64) simp
    ultimately have "\<not> word_of_nat x < n * 8"
      using InitBitmap_Get [OF assms, of "word_of_nat x" a s] assms by auto
    with u \<open>x \<le> unat (n * 8)\<close> have "x = unat (n * 8)"
      by (simp add: word_less_nat_alt del: word_less_no)
    then show "x \<in> {unat (n * 8)}" by blast
  qed
  then have "card (pb.ones ?b (Suc (unat (n * 8)))) \<le> card {unat (n * 8)}"
    by (intro card_mono) simp_all
  then show ?thesis by (simp add: marks_def sz)
qed

lemma pfa_inv_unreserve_conventional:
  "pfa_inv k s \<Longrightarrow> pfa_inv k (unreserve_conventional mMap n D s)"
  unfolding unreserve_conventional_def
  by (rule int_for_invariant) (simp_all add: pfa_inv_runs Let_def)

lemma boot_inv:
  assumes "\<not> Initialised s" "D \<noteq> 0" "UsedMemory s = 0" "ReservedMemory s = 0"
    and "unat (fst (GetMemorySize mMap (mMapSize div D) D s)) < 2 ^ 40"
    and "ReadEFIMemoryMap mMap mMapSize D s = Some s'"
  shows "\<exists>k \<le> 1. pfa_inv k s'"
proof -
  let ?n = "mMapSize div D"
  let ?M = "fst (GetMemorySize mMap ?n D s)"
  let ?s2 = "boot_start mMap ?n D ?M s"
  have small: "unat (?M div 4096 div 8 + 1) \<le> 2 ^ 31"
    using assms(5) by (subst boot_size) simp_all
  have "pfa_inv (marks (PageBitmap ?s2)) ?s2"
    using assms(3,4) small
    by (simp add: pfa_inv_def pfa_ok_def boot_start_def InitBitmap_def)
  then have "pfa_inv (marks (PageBitmap ?s2)) s'"
    using assms(6) unfolding ReadEFIMemoryMap_boot [OF assms(1,2) refl refl]
    by (auto simp: pfa_inv_runs pfa_inv_unreserve_conventional)
  moreover have "marks (PageBitmap ?s2) \<le> 1"
    unfolding boot_start_def using small by (rule marks_InitBitmap)
  ultimately show ?thesis by blast
qed

section \<open>Runs found by RequestPages\<close>

lemma fold_all_clear: "fold (\<lambda>j f. if P j then False else f) xs b \<longleftrightarrow> b \<and> (\<forall>j \<in> set xs. \<not> P j)"
  by (induction xs arbitrary: b) auto

lemma run_found_iff:
  assumes "unat count \<le> 2 ^ 31"
  shows "run_found b i count \<longleftrightarrow> (\<forall>k < unat count. \<not> Get b (i + word_of_nat k))"
proof -
  have "run_found b i count
      \<longleftrightarrow> (\<forall>k < unat count. \<not> Get b (i + scast (word_of_nat k :: i32)))"
    unfolding run_found_def int_for_fold [OF assms] fold_all_clear bitmap_index_def by auto
  moreover have "scast (word_of_nat k :: i32) = (word_of_nat k :: u64)" if "k < unat count" for k
    using that assms by (intro scast_of_nat_i32) simp
  ultimately show ?thesis by simp
qed

lemma unat_page_address:
  assumes "unat p < 2 ^ 52"
  shows "unat (p * 4096 :: u64) = unat p * 4096"
  using assms by (subst unat_mult_no_wrap) simp_all

lemma run_found_in_pages:
  assumes "unat count \<le> 2 ^ 19" and "unat p < 2 ^ 52" and "run_found b p count"
    and "in_pages (p * 4096) count j"
  shows "\<not> Get b j"
proof -
  define k where "k = unat j - unat p"
  have k: "k < unat count" "unat j = unat p + k"
    using assms(4) by (auto simp: in_pages_def unat_page_address [OF assms(2)] k_def)
  have "word_of_nat (unat j) = (word_of_nat (unat p + k) :: u64)" by (simp only: k(2))
  then have "j = p + word_of_nat k" by simp
  moreover have "unat count \<le> 2 ^ 31" using assms(1) by simp
  ultimately show ?thesis using assms(3) k(1) by (simp add: run_found_iff)
qed

lemma RequestPages_from_spec:
  assumes "pfa_ok s" and "unat count \<le> 2 ^ 19" and "RequestPages_from count b s = (a, s')"
  shows "(\<exists>p. a = p * 4096 \<and> p < Size (PageBitmap s) * 8 \<and> pageBitmapIndex s' = p
      \<and> (\<forall>j. in_pages a count j \<longrightarrow> \<not> marked s j)
      \<and> (\<forall>j. marked s' j \<longleftrightarrow> marked s j \<or> (in_pages a count j \<and> page_inside s j)))
    \<or> (a = 0 \<and> s' = s\<lparr>pageBitmapIndex := b\<rparr>)"
  using assms
proof (induction count b s rule: RequestPages_from.induct)
  case (1 count b s)
  let ?i = "pageBitmapIndex s"
  consider (none) "\<not> ?i < Size (PageBitmap s) * 8"
    | (found) "?i < Size (PageBitmap s) * 8" "run_found (PageBitmap s) ?i count"
    | (next_page) "?i < Size (PageBitmap s) * 8" "\<not> run_found (PageBitmap s) ?i count" by blast
  then show ?case
  proof cases
    case none
    then show ?thesis using "1.prems" by (subst (asm) RequestPages_from.simps) simp
  next
    case found
    then have res: "a = ?i * 4096" "s' = LockPages s (?i * 4096) count"
      using "1.prems" by (auto simp: RequestPages_from.simps [of count b s])
    have i51: "unat ?i < 2 ^ 51" using index_below [OF "1.prems"(1) found(1)] .
    then have i: "unat ?i < 2 ^ 52" by simp
    have "\<not> marked s j" if "in_pages (?i * 4096) count j" for j
      unfolding marked_def using run_found_in_pages [OF "1.prems"(2) i found(2) that] .
    moreover have "marked s' j \<longleftrightarrow> marked s j \<or> (in_pages a count j \<and> page_inside s j)" for j
      unfolding res using i i51 "1.prems"(2)
      by (intro runs_marked(1)) (simp_all add: unat_page_address)
    moreover have "pageBitmapIndex s' = ?i"
      unfolding res LockPages_def each_page_def
      by (rule int_for_frame) (simp add: LockPage_eq Let_def)
    ultimately show ?thesis using res found(1) by blast
  next
    case next_page
    then have "RequestPages_from count b (s\<lparr>pageBitmapIndex := ?i + 1\<rparr>) = (a, s')"
      using "1.prems" by (simp add: RequestPages_from.simps [of count b s])
    then show ?thesis
      using "1.IH" [OF next_page] "1.prems" by (simp add: pfa_ok_def marked_def page_inside_def)
  qed
qed

section \<open>Sequences of calls\<close>

text \<open>The calls the kernel makes on the allocator after the boot, as one step function.\<close>

datatype pfa_call = Lock_call u64 | Reserve_call u64 | Free_call u64 | Unreserve_call u64
  | LockRun u64 u64 | ReserveRun u64 u64 | FreeRun u64 u64 | UnreserveRun u64 u64
  | Request | RequestRun u64

primrec pfa_exec :: "pfa_call \<Rightarrow> pfa \<Rightarrow> pfa" where
  "pfa_exec (Lock_call a) s = LockPage s a"
| "pfa_exec (Reserve_call a) s = ReservePage s a"
| "pfa_exec (Free_call a) s = FreePage s a"
| "pfa_exec (Unreserve_call a) s = UnreservePage s a"
| "pfa_exec (LockRun a n) s = LockPages s a n"
| "pfa_exec (ReserveRun a n) s = ReservePages s a n"
| "pfa_exec (FreeRun a n) s = FreePages s a n"
| "pfa_exec (UnreserveRun a n) s = UnreservePages s a n"
| "pfa_exec Request s = snd (RequestPage s)"
| "pfa_exec (RequestRun n) s = snd (RequestPages n s)"

inductive reachable_pfa :: "pfa \<Rightarrow> pfa \<Rightarrow> bool" for boot where
  reach_boot: "reachable_pfa boot boot"
| reach_call: "reachable_pfa boot s \<Longrightarrow> reachable_pfa boot (pfa_exec c s)"

lemma pfa_inv_exec: "pfa_inv k s \<Longrightarrow> pfa_inv k (pfa_exec c s)"
  by (cases c) (simp_all add: pfa_inv_LockPage pfa_inv_ReservePage pfa_inv_FreePage
      pfa_inv_UnreservePage pfa_inv_runs pfa_inv_RequestPage pfa_inv_RequestPages)

lemma reachable_pfa_inv: "reachable_pfa b s \<Longrightarrow> pfa_inv k b \<Longrightarrow> pfa_inv k s"
  by (induction rule: reachable_pfa.induct) (simp_all add: pfa_inv_exec)

primrec request_all :: "nat \<Rightarrow> pfa \<Rightarrow> u64 list \<times> pfa" where
  "request_all 0 s = ([], s)"
| "request_all (Suc n) s =
     (case RequestPage s of (a, s') \<Rightarrow> case request_all n s' of (as, t) \<Rightarrow> (a # as, t))"

lemma pfa_ok_LockPage [simp]: "pfa_ok (LockPage s a) = pfa_ok s"
  by (simp add: pfa_ok_def LockPage_eq Let_def)

lemma pfa_ok_RequestPage: "pfa_ok s \<Longrightarrow> pfa_ok (snd (RequestPage s))"
proof (induction s rule: RequestPage.induct)
  case (1 s)
  then show ?case by (subst RequestPage.simps) (simp add: pfa_ok_def LockPage_eq Let_def)
qed

lemma RequestPage_first:
  assumes "pfa_ok s" and "pageBitmapIndex s \<le> i" and "i < Size (PageBitmap s) * 8"
    and "\<not> marked s i"
  shows "\<exists>p. pageBitmapIndex s \<le> p \<and> p \<le> i \<and> \<not> marked s p
    \<and> (\<forall>j. pageBitmapIndex s \<le> j \<longrightarrow> j < p \<longrightarrow> marked s j)
    \<and> RequestPage s = (p * 4096, LockPage (s\<lparr>pageBitmapIndex := p\<rparr>) (p * 4096))"
proof -
  define p where "p = (LEAST j. pageBitmapIndex s \<le> j \<and> \<not> marked s j)"
  have p: "pageBitmapIndex s \<le> p" "\<not> marked s p"
    using LeastI [of "\<lambda>j. pageBitmapIndex s \<le> j \<and> \<not> marked s j" i] assms by (simp_all add: p_def)
  have "p \<le> i" unfolding p_def using assms by (intro Least_le) simp
  then have bound: "p < Size (PageBitmap s) * 8" using assms(3) by (rule order_le_less_trans)
  have below: "marked s j" if "pageBitmapIndex s \<le> j" "j < p" for j
    using not_less_Least that unfolding p_def by blast
  have "RequestPage s = (p * 4096, LockPage (s\<lparr>pageBitmapIndex := p\<rparr>) (p * 4096))"
    using assms(1) bound p below by (intro RequestPage_spec)
  with p \<open>p \<le> i\<close> below show ?thesis by blast
qed

lemma RequestPage_cases:
  assumes "pfa_ok s"
  shows "(fst (RequestPage s) = 0 \<and> marked (snd (RequestPage s)) = marked s) \<or>
    (\<exists>p. fst (RequestPage s) = p * 4096 \<and> fst (RequestPage s) div 4096 = p \<and> \<not> marked s p
      \<and> marked (snd (RequestPage s)) = (\<lambda>j. marked s j \<or> j = p))"
proof (cases "\<exists>i. pageBitmapIndex s \<le> i \<and> i < Size (PageBitmap s) * 8 \<and> \<not> marked s i")
  case False
  then have "PageBitmap (snd (RequestPage s)) = PageBitmap s" "fst (RequestPage s) = 0"
    using RequestPage_none [of s] by blast+
  then show ?thesis by (simp add: marked_def fun_eq_iff)
next
  case True
  then obtain i where i: "pageBitmapIndex s \<le> i" "i < Size (PageBitmap s) * 8" "\<not> marked s i"
    by blast
  obtain p where p: "p \<le> i" "\<not> marked s p"
    and res: "RequestPage s = (p * 4096, LockPage (s\<lparr>pageBitmapIndex := p\<rparr>) (p * 4096))"
    using RequestPage_first [OF assms i] by blast
  have bound: "p < Size (PageBitmap s) * 8" using p(1) i(2) by (rule order_le_less_trans)
  have "p * 4096 div 4096 = p" using index_below [OF assms(1) bound] by (intro div_mult_4096) simp
  moreover have "page_inside s p" using bound by (simp add: page_inside_def)
  ultimately show ?thesis
    using p unfolding res
    by (intro disjI2 exI [of _ p])
      (auto simp: LockPage_eq Let_def marked_def page_inside_def marked_Set fun_eq_iff)
qed

lemma request_all_fresh:
  "pfa_ok s \<Longrightarrow> (\<forall>a \<in> set (fst (request_all n s)). a \<noteq> 0 \<longrightarrow> \<not> marked s (a div 4096))
     \<and> distinct (filter (\<lambda>a. a \<noteq> 0) (fst (request_all n s)))"
proof (induction n arbitrary: s)
  case 0
  then show ?case by simp
next
  case (Suc n)
  obtain a s' where r: "RequestPage s = (a, s')" by (cases "RequestPage s")
  obtain as t where q: "request_all n s' = (as, t)" by (cases "request_all n s'")
  have "pfa_ok s'" using pfa_ok_RequestPage [OF Suc.prems] r by simp
  then have IH: "\<forall>a \<in> set as. a \<noteq> 0 \<longrightarrow> \<not> marked s' (a div 4096)" "distinct (filter (\<lambda>a. a \<noteq> 0) as)"
    using Suc.IH [of s'] q by simp_all
  from RequestPage_cases [OF Suc.prems] r
  consider "a = 0" "marked s' = marked s"
    | "\<not> marked s (a div 4096)" "marked s' = (\<lambda>j. marked s j \<or> j = a div 4096)" by auto
  then show ?case using IH r q by cases auto
qed

lemma marks_cong:
  assumes "Size b = Size c" and "\<And>j. Get b j = Get c j"
  shows "marks b = marks c"
  using assms by (simp add: marks_def pb.ones_def)

lemma ReservedMemory_runs:
  "ReservedMemory (LockPages s a n) = ReservedMemory s"
  "ReservedMemory (FreePages s a n) = ReservedMemory s"
  unfolding LockPages_def FreePages_def each_page_def
  by (rule int_for_frame, simp add: LockPage_eq FreePage_eq Let_def)+

section \<open>Properties\<close>

text \<open>C1. \<open>RequestPage\<close> hands out the first page at or above the search hint that is not in use:
  as long as one exists, the page returned was free, every page between the hint and it was in use,
  exactly its mark is added, and its 4096 bytes move from free to used memory.\<close>

theorem RequestPage_allocates:
  assumes "pfa_ok s" and "pageBitmapIndex s \<le> i" and "i < Size (PageBitmap s) * 8"
    and "\<not> marked s i"
  shows "\<exists>p. fst (RequestPage s) = p * 4096 \<and> pageBitmapIndex s \<le> p \<and> p \<le> i
    \<and> \<not> marked s p \<and> (\<forall>j. pageBitmapIndex s \<le> j \<and> j < p \<longrightarrow> marked s j)
    \<and> (\<forall>j. marked (snd (RequestPage s)) j \<longleftrightarrow> marked s j \<or> j = p)
    \<and> UsedMemory (snd (RequestPage s)) = UsedMemory s + 4096
    \<and> FreeMemory (snd (RequestPage s)) = FreeMemory s - 4096"
proof -
  obtain p where p: "pageBitmapIndex s \<le> p" "p \<le> i" "\<not> marked s p"
    and below: "\<And>j. pageBitmapIndex s \<le> j \<Longrightarrow> j < p \<Longrightarrow> marked s j"
    and res: "RequestPage s = (p * 4096, LockPage (s\<lparr>pageBitmapIndex := p\<rparr>) (p * 4096))"
    using RequestPage_first [OF assms] by blast
  have bound: "p < Size (PageBitmap s) * 8" using p(2) assms(3) by (rule order_le_less_trans)
  have "p * 4096 div 4096 = p" using index_below [OF assms(1) bound] by (intro div_mult_4096) simp
  moreover have "page_inside s p" using bound by (simp add: page_inside_def)
  ultimately show ?thesis
    using p below unfolding res
    by (intro exI [of _ p]) (auto simp: LockPage_eq Let_def marked_def page_inside_def marked_Set)
qed

theorem RequestPage_allocates_witness:
  "\<exists>s i. \<not> marked s i \<and> (\<exists>p. fst (RequestPage s) = p * 4096 \<and> p \<le> i \<and> \<not> marked s p)"
proof -
  define s where "s = initial_pfa \<lparr>Size = 1, Buffer = 0, Bytes = (\<lambda>_. 0x80)\<rparr>"
  have h: "pfa_ok s" "pageBitmapIndex s \<le> 1" "1 < Size (PageBitmap s) * 8" "\<not> marked s 1"
    by (simp_all add: s_def initial_pfa_def pfa_ok_def marked_def Get_def bit_indexer_def)
  show ?thesis using RequestPage_allocates [OF h] h(4) by blast
qed

text \<open>When no page at or above the search hint is free, \<open>RequestPage\<close> returns the null
  pointer and leaves the bitmap as it was.\<close>

theorem RequestPage_exhausted:
  assumes "\<forall>j. pageBitmapIndex s \<le> j \<and> j < Size (PageBitmap s) * 8 \<longrightarrow> marked s j"
  shows "fst (RequestPage s) = 0 \<and> PageBitmap (snd (RequestPage s)) = PageBitmap s"
  using assms by (intro RequestPage_none) simp

theorem RequestPage_exhausted_witness:
  "fst (RequestPage (initial_pfa \<lparr>Size = 1, Buffer = 0, Bytes = (\<lambda>_. - 1)\<rparr>)) = 0"
proof -
  define s where "s = initial_pfa \<lparr>Size = 1, Buffer = 0, Bytes = (\<lambda>_. - 1)\<rparr>"
  have "marked s j" if "j < 8" for j
  proof -
    have "bit (bit_indexer j) (7 - unat (j mod 8))" by (simp add: bit_indexer_bit)
    then have "bit_indexer j \<noteq> 0" by auto
    moreover have "\<not> 8 < j" using that by simp
    then have "Get (PageBitmap s) j \<longleftrightarrow> bit_indexer j > 0"
      by (simp add: s_def initial_pfa_def Get_def)
    ultimately show ?thesis by (simp add: marked_def word_gt_0)
  qed
  then have h: "\<forall>j. pageBitmapIndex s \<le> j \<and> j < Size (PageBitmap s) * 8 \<longrightarrow> marked s j"
    by (simp add: s_def initial_pfa_def)
  show ?thesis using RequestPage_exhausted [OF h] by (simp add: s_def)
qed

text \<open>C35. However many pages are requested one after the other, no page is handed out twice and
  none was in use before the first request; only the null pointer can repeat.\<close>

theorem request_all_distinct:
  assumes "pfa_ok s" and "request_all n s = (as, s')"
  shows "distinct (filter (\<lambda>a. a \<noteq> 0) as) \<and> (\<forall>a \<in> set as. a = 0 \<or> \<not> marked s (a div 4096))"
  using request_all_fresh [OF assms(1), of n] assms(2) by auto

theorem request_all_distinct_witness:
  "distinct (filter (\<lambda>a. a \<noteq> 0)
     (fst (request_all 2 (initial_pfa \<lparr>Size = 1, Buffer = 0, Bytes = (\<lambda>_. 0x80)\<rparr>))))"
proof -
  let ?s = "initial_pfa \<lparr>Size = 1, Buffer = 0, Bytes = (\<lambda>_. 0x80)\<rparr>"
  have "pfa_ok ?s" by (simp add: initial_pfa_def pfa_ok_def)
  from request_all_distinct [OF this, of 2, OF prod.collapse [symmetric]] show ?thesis by simp
qed



text \<open>C17. After the boot has read the memory map of a machine with less than 2 GiB, a page of the
  machine is in use exactly when it lies in the first MiB, outside every conventional segment, or
  under the bitmap itself: every other conventional page is available and nothing else is.\<close>

theorem boot_free_pages:
  assumes "\<not> Initialised s" "D \<noteq> 0" and "map_ok mMap (mMapSize div D) D"
    and "M = fst (GetMemorySize mMap (mMapSize div D) D s)" and "unat M < 2 ^ 31"
  shows "\<exists>s'. ReadEFIMemoryMap mMap mMapSize D s = Some s' \<and> TotalMemory s' = M
    \<and> (\<forall>j. unat j \<le> unat M div 4096 \<longrightarrow> (marked s' j \<longleftrightarrow>
         unat j < 0x100 \<or> \<not> in_conventional mMap (mMapSize div D) D j
         \<or> in_pages (Buffer (PageBitmap s')) (Size (PageBitmap s') div 4096 + 1) j))"
proof -
  obtain s' where "ReadEFIMemoryMap mMap mMapSize D s = Some s'"
    and "geometry s' = (M div 4096 div 8 + 1, fst (largest_segment mMap (mMapSize div D) D), M, True)"
    and "\<And>j. unat j \<le> unat M div 4096 \<Longrightarrow> marked s' j \<longleftrightarrow>
        unat j < 0x100 \<or> \<not> in_conventional mMap (mMapSize div D) D j
        \<or> in_pages (Buffer (PageBitmap s')) (Size (PageBitmap s') div 4096 + 1) j"
    by (rule boot_result [OF assms]) blast
  then show ?thesis by (auto simp: geometry_def)
qed

definition one_segment :: efi_map where
  "one_segment _ = \<lparr>efi_type = 7, physAddr = 0, virtAddr = 0, numPages = 0x200, attribs = 0\<rparr>"

lemma one_segment_size:
  "fst (GetMemorySize one_segment (48 div 48) 48 s) = 0x200000"
  by (simp add: GetMemorySize_def int_for_fold one_segment_def Let_def)

theorem boot_free_pages_witness:
  "let s = initial_pfa \<lparr>Size = 0, Buffer = 0, Bytes = (\<lambda>_. 0xFF)\<rparr> in
   \<exists>s'. ReadEFIMemoryMap one_segment 48 48 s = Some s' \<and> TotalMemory s' = 0x200000 \<and> marked s' 3"
proof -
  let ?s = "initial_pfa \<lparr>Size = 0, Buffer = 0, Bytes = (\<lambda>_. 0xFF)\<rparr>"
  have ok: "map_ok one_segment (48 div 48) 48" by (simp add: map_ok_def one_segment_def Let_def)
  have "\<not> Initialised ?s" "(48 :: u64) \<noteq> 0" by (simp_all add: initial_pfa_def)
  from boot_free_pages [OF this ok one_segment_size [symmetric]]
  obtain s' where "ReadEFIMemoryMap one_segment 48 48 ?s = Some s'" "TotalMemory s' = 0x200000"
    and "\<And>j :: u64. unat j < 0x100 \<Longrightarrow> marked s' j" by auto
  then show ?thesis by simp
qed

text \<open>C14. Memory accounting: in every state reachable from the boot by any calls, free, used and
  reserved memory add up to the machine's memory, and used plus reserved memory is 4096 bytes per
  page in use (up to the one bit after the bitmap the boot does not clear).\<close>

theorem memory_accounted:
  assumes "\<not> Initialised s" "D \<noteq> 0" "UsedMemory s = 0" "ReservedMemory s = 0"
    and "unat (fst (GetMemorySize mMap (mMapSize div D) D s)) < 2 ^ 40"
    and "ReadEFIMemoryMap mMap mMapSize D s = Some boot" and "reachable_pfa boot t"
  shows "GetFreeRAM t + GetUsedRAM t + GetReservedRAM t = TotalMemory t
    \<and> (\<exists>k \<le> 1. GetUsedRAM t + GetReservedRAM t + 4096 * word_of_nat k
        = 4096 * word_of_nat (marks (PageBitmap t)))"
proof -
  obtain k where k: "k \<le> 1" "pfa_inv k boot" using boot_inv [OF assms(1-6)] by blast
  have "pfa_inv k t" using assms(7) k(2) by (rule reachable_pfa_inv)
  with k(1) show ?thesis
    by (auto simp: pfa_inv_def GetFreeRAM_def GetUsedRAM_def GetReservedRAM_def)
qed

theorem memory_accounted_witness:
  "let s = initial_pfa \<lparr>Size = 0, Buffer = 0, Bytes = (\<lambda>_. 0xFF)\<rparr> in
   \<exists>boot. ReadEFIMemoryMap one_segment 48 48 s = Some boot
     \<and> (let t = snd (RequestPage boot) in
          GetFreeRAM t + GetUsedRAM t + GetReservedRAM t = TotalMemory t)"
proof -
  let ?s = "initial_pfa \<lparr>Size = 0, Buffer = 0, Bytes = (\<lambda>_. 0xFF)\<rparr>"
  have h: "\<not> Initialised ?s" "(48 :: u64) \<noteq> 0" "UsedMemory ?s = 0" "ReservedMemory ?s = 0"
    "unat (fst (GetMemorySize one_segment (48 div 48) 48 ?s)) < 2 ^ 40"
    unfolding one_segment_size by (simp_all add: initial_pfa_def)
  obtain boot where b: "ReadEFIMemoryMap one_segment 48 48 ?s = Some boot"
    using ReadEFIMemoryMap_boot [OF h(1,2) refl refl] by blast
  have "reachable_pfa boot (pfa_exec Request boot)"
    by (intro reachable_pfa.intros)
  from memory_accounted [OF h b this] b show ?thesis by (simp add: Let_def)
qed

text \<open>Freeing a run that was just locked restores the allocator: the same pages are in use
  and the counters are back, for a run of free pages of at most 2 GiB.\<close>

theorem FreePages_LockPages:
  assumes "pfa_inv k s" and "unat n \<le> 2 ^ 19" and "unat a + 4096 * unat n \<le> 2 ^ 64"
    and "\<forall>j. in_pages a n j \<longrightarrow> \<not> marked s j"
  shows "let t = FreePages (LockPages s a n) a n in
    marked t = marked s \<and> UsedMemory t = UsedMemory s \<and> FreeMemory t = FreeMemory s"
proof -
  define t where "t = FreePages (LockPages s a n) a n"
  have m: "marked t = marked s"
    unfolding t_def using assms(4) by (auto simp: fun_eq_iff runs_marked [OF assms(2,3)])
  have g: "geometry t = geometry s" and r: "ReservedMemory t = ReservedMemory s"
    by (simp_all add: t_def ReservedMemory_runs)
  have "marks (PageBitmap t) = marks (PageBitmap s)"
    using g m by (intro marks_cong) (simp_all add: geometry_def marked_def fun_eq_iff)
  moreover have "pfa_inv k t" unfolding t_def using assms(1) by (intro pfa_inv_runs)
  ultimately have "UsedMemory t = UsedMemory s"
    using assms(1) r unfolding pfa_inv_def by (metis add_right_cancel)
  moreover have "FreeMemory t = FreeMemory s"
    using calculation g r \<open>pfa_inv k t\<close> assms(1) unfolding pfa_inv_def geometry_def
    by (metis add_right_cancel prod.inject)
  ultimately show ?thesis using m by (simp add: t_def [symmetric] Let_def)
qed

theorem FreePages_LockPages_witness:
  "let s = initial_pfa \<lparr>Size = 1, Buffer = 0, Bytes = (\<lambda>_. 0)\<rparr> in
   marked (FreePages (LockPages s 0x1000 3) 0x1000 3) = marked s"
proof -
  let ?s = "initial_pfa \<lparr>Size = 1, Buffer = 0, Bytes = (\<lambda>_. 0)\<rparr>"
  have free: "\<not> marked ?s j" for j by (simp add: initial_pfa_def marked_def Get_def)
  then have "marks (PageBitmap ?s) = 0" by (simp add: marks_def pb.ones_def marked_def)
  then have "pfa_inv 0 ?s" by (simp add: pfa_inv_def pfa_ok_def initial_pfa_def)
  from FreePages_LockPages [OF this, of 3 "0x1000"] free show ?thesis by (simp add: Let_def)
qed

text \<open>\<open>ReservePages\<close> from address 0 stops at 2 GiB: the page offset is a 32-bit \<open>int\<close>
  product that turns negative at page 524288, so a longer run marks only the first 524288 pages
  and the memory above stays available.\<close>

theorem ReservePages_wraps:
  assumes "2 ^ 19 \<le> unat n" and "unat n \<le> 2 ^ 20" and "unat (Size (PageBitmap s)) * 8 < 2 ^ 51"
  shows "marked (ReservePages s 0 n) j \<longleftrightarrow> marked s j \<or> (unat j < 2 ^ 19 \<and> page_inside s j)"
proof -
  have "unat n \<le> 2 ^ 31" using assms(2) by simp
  from reserve.marked_each [OF this, of 0 s j] runs_wrap [OF assms, of j]
  show ?thesis unfolding ReservePages_def by blast
qed

theorem ReservePages_wraps_witness:
  "\<not> marked (ReservePages (initial_pfa \<lparr>Size = 0x20000, Buffer = 0, Bytes = (\<lambda>_. 0)\<rparr>) 0 0x100000)
     0x80000"
  using ReservePages_wraps [of "0x100000" "initial_pfa \<lparr>Size = 0x20000, Buffer = 0, Bytes = (\<lambda>_. 0)\<rparr>" "0x80000"]
  by (simp add: initial_pfa_def marked_def Get_def)
end
