(* ===== verification/PageTables.thy ===== *)
theory PageTables
  imports PageFrameAllocator
begin

text \<open>
  The page tables: \<^verbatim>\<open>src/Paging/Paging.cpp\<close>, \<^verbatim>\<open>PageMapIndexer.cpp\<close> and
  \<^verbatim>\<open>PageTableManager.cpp\<close>. Tables live in the store \<open>entries\<close>, one 8-byte entry per
  address, so the entry \<^verbatim>\<open>i\<close> of the table at \<open>T\<close> is at \<open>T + 8 * i\<close>; new tables come from
  the page frame allocator. The contract of \<open>MapMemory\<close> is the processor's own page walk.
\<close>

section \<open>Entries\<close>

datatype PT_Flag = Present | ReadWrite | UserSuper | WriteThrough | CacheDisabled | Accessed
  | LargerPages | Custom0 | Custom1 | Custom2 | NX

primrec flag_number :: "PT_Flag \<Rightarrow> nat" where
  "flag_number Present = 0"
| "flag_number ReadWrite = 1"
| "flag_number UserSuper = 2"
| "flag_number WriteThrough = 3"
| "flag_number CacheDisabled = 4"
| "flag_number Accessed = 5"
| "flag_number LargerPages = 7"
| "flag_number Custom0 = 9"
| "flag_number Custom1 = 10"
| "flag_number Custom2 = 11"
| "flag_number NX = 63"

record PageDirectoryEntry =
  Value :: u64

definition SetFlag :: "PT_Flag \<Rightarrow> bool \<Rightarrow> PageDirectoryEntry \<Rightarrow> PageDirectoryEntry" where
  "SetFlag flag enabled e =
     (let bitSelector = push_bit (flag_number flag) (1 :: u64);
          cleared = Value e AND NOT bitSelector
      in e\<lparr>Value := (if enabled then cleared OR bitSelector else cleared)\<rparr>)"

text \<open>
  \<^verbatim>\<open>Value & bitSelector > 0\<close> parses as \<^verbatim>\<open>Value & (bitSelector > 0)\<close>: the comparison binds
  tighter and yields 0 or 1.
\<close>

definition GetFlag :: "PT_Flag \<Rightarrow> PageDirectoryEntry \<Rightarrow> bool" where
  "GetFlag flag e =
     (let bitSelector = push_bit (flag_number flag) (1 :: u64)
      in Value e AND (if bitSelector > 0 then 1 else 0) \<noteq> 0)"

definition GetAddress :: "PageDirectoryEntry \<Rightarrow> u64" where
  "GetAddress e = drop_bit 12 (Value e AND 0x000ffffffffff000)"

definition SetAddress :: "u64 \<Rightarrow> PageDirectoryEntry \<Rightarrow> PageDirectoryEntry" where
  "SetAddress address e =
     (let address = address AND 0x000000ffffffffff;
          v = Value e AND 0xfff0000000000fff
      in e\<lparr>Value := v OR push_bit 12 address\<rparr>)"

section \<open>The indexer\<close>

record PageMapIndexer =
  PDP_i :: u64
  PD_i :: u64
  PT_i :: u64
  P_i :: u64

definition page_map_indexer :: "u64 \<Rightarrow> PageMapIndexer" where
  "page_map_indexer virtualAddress =
     (let v = drop_bit 12 virtualAddress; P = v AND 0x1ff;
          v = drop_bit 9 v; PT = v AND 0x1ff;
          v = drop_bit 9 v; PD = v AND 0x1ff;
          v = drop_bit 9 v; PDP = v AND 0x1ff
      in \<lparr>PDP_i = PDP, PD_i = PD, PT_i = PT, P_i = P\<rparr>)"

section \<open>The page table manager\<close>

type_synonym table_store = "u64 \<Rightarrow> PageDirectoryEntry"

record vm =
  PML4 :: u64
  entries :: table_store
  frames :: pfa

text \<open>\<^verbatim>\<open>memset(table, 0, 0x1000)\<close> as the entries see it.\<close>

definition zero_table :: "u64 \<Rightarrow> table_store \<Rightarrow> table_store" where
  "zero_table a = u64_for 512 (\<lambda>i m. m(a + 8 * i := \<lparr>Value = 0\<rparr>)) 0"

text \<open>The step the three upper levels share: follow the entry, or create the table below it.\<close>

definition descend :: "u64 \<Rightarrow> u64 \<Rightarrow> vm \<Rightarrow> u64 \<times> vm" where
  "descend table i vm =
     (let PDE = entries vm (table + 8 * i) in
      if \<not> GetFlag Present PDE then
        let (page, f) = RequestPage (frames vm);
            m = zero_table page (entries vm);
            PDE = SetFlag ReadWrite True (SetFlag Present True (SetAddress (drop_bit 12 page) PDE))
        in (page, vm\<lparr>frames := f, entries := m(table + 8 * i := PDE)\<rparr>)
      else (push_bit 12 (GetAddress PDE), vm))"

definition set_leaf :: "u64 \<Rightarrow> u64 \<Rightarrow> u64 \<Rightarrow> vm \<Rightarrow> vm" where
  "set_leaf table i physicalMemory vm =
     (let PDE = entries vm (table + 8 * i);
          PDE = SetFlag ReadWrite True (SetFlag Present True
                  (SetAddress (drop_bit 12 physicalMemory) PDE))
      in vm\<lparr>entries := (entries vm)(table + 8 * i := PDE)\<rparr>)"

definition MapMemory :: "u64 \<Rightarrow> u64 \<Rightarrow> vm \<Rightarrow> vm" where
  "MapMemory virtualMemory physicalMemory vm =
     (let indexer = page_map_indexer virtualMemory;
          (PDP, vm) = descend (PML4 vm) (PDP_i indexer) vm;
          (PD, vm) = descend PDP (PD_i indexer) vm;
          (PT, vm) = descend PD (PT_i indexer) vm
      in set_leaf PT (P_i indexer) physicalMemory vm)"

section \<open>The processor's page walk\<close>

text \<open>
  What the tables mean to the hardware: bit 0 of an entry is its present bit, bits 12 to 51 the
  address it points to. \<open>walk\<close> follows a list of indices; a virtual address is translated along
  its four indices.
\<close>

definition present :: "PageDirectoryEntry \<Rightarrow> bool" where
  "present e = bit (Value e) 0"

definition target :: "PageDirectoryEntry \<Rightarrow> u64" where
  "target e = Value e AND push_bit 12 (mask 40)"

fun walk :: "table_store \<Rightarrow> u64 \<Rightarrow> u64 list \<Rightarrow> u64 option" where
  "walk m b [] = Some b"
| "walk m b (i # is) =
     (let e = m (b + 8 * i) in if present e then walk m (target e) is else None)"

definition index_path :: "u64 \<Rightarrow> u64 list" where
  "index_path v = [take_bit 9 (drop_bit 39 v), take_bit 9 (drop_bit 30 v),
     take_bit 9 (drop_bit 21 v), take_bit 9 (drop_bit 12 v)]"

definition translate :: "vm \<Rightarrow> u64 \<Rightarrow> u64 option" where
  "translate vm v = map_option (\<lambda>frame. frame + take_bit 12 v)
     (walk (entries vm) (PML4 vm) (index_path v))"

section \<open>Entries, bit by bit\<close>

lemma address_masks:
  "(0x000ffffffffff000 :: u64) = push_bit 12 (mask 40)"
  "(0x000000ffffffffff :: u64) = mask 40"
  "(0xfff0000000000fff :: u64) = NOT (push_bit 12 (mask 40))"
  "(0x1ff :: u64) = mask 9"
  by (simp_all add: mask_eq_exp_minus_1)

lemma GetFlag_Present: "GetFlag f e = present e"
proof -
  have "push_bit n (1 :: u64) > 0" if "n < 64" for n
    using that by (simp add: word_gt_0 push_bit_eq_mult)
  moreover have "flag_number f < 64" by (cases f) simp_all
  moreover have "(v AND 1 \<noteq> 0) = bit v 0" for v :: u64
    by (simp add: bit_0 and_one_eq odd_iff_mod_2_eq_one)
  ultimately show ?thesis by (simp add: GetFlag_def present_def Let_def)
qed

lemma SetFlag_bit:
  "n < 64 \<Longrightarrow> bit (Value (SetFlag f v e)) n = (if n = flag_number f then v else bit (Value e) n)"
  by (auto simp: SetFlag_def Let_def bit_simps)

lemma SetAddress_bit:
  "n < 64 \<Longrightarrow> bit (Value (SetAddress a e)) n =
     (if 12 \<le> n \<and> n < 52 then bit a (n - 12) else bit (Value e) n)"
  unfolding SetAddress_def Let_def address_masks by (auto simp: bit_simps)

lemma target_GetAddress: "push_bit 12 (GetAddress e) = target e"
  unfolding GetAddress_def address_masks target_def
  by (rule bit_word_eqI) (auto simp: bit_simps)

lemma new_entry:
  "present (SetFlag ReadWrite True (SetFlag Present True (SetAddress a e)))"
  "target (SetFlag ReadWrite True (SetFlag Present True (SetAddress a e))) = push_bit 12 (take_bit 40 a)"
  unfolding present_def target_def
  by (simp add: SetFlag_bit)
    (rule bit_word_eqI, auto simp: bit_simps SetFlag_bit SetAddress_bit)

lemma page_map_indexer_path:
  "[PDP_i x, PD_i x, PT_i x, P_i x] = index_path v" if "x = page_map_indexer v"
  unfolding that page_map_indexer_def index_path_def Let_def address_masks
  by (simp add: drop_bit_drop_bit take_bit_eq_mask)

section \<open>Slots\<close>

definition aligned :: "u64 \<Rightarrow> bool" where
  "aligned T \<longleftrightarrow> unat T mod 4096 = 0"

lemma slot_unat:
  assumes "aligned T" and "unat i < 512"
  shows "unat (T + 8 * i) = unat T + 8 * unat i"
proof -
  obtain t where t: "unat T = 4096 * t" using assms(1) by (auto simp: aligned_def)
  moreover have "unat T < 4096 * 2 ^ 52" by simp
  ultimately have "unat T + 4096 \<le> 2 ^ 64" by simp
  moreover have "unat (8 * i) = 8 * unat i"
    using assms(2) by (subst unat_mult_no_wrap) simp_all
  ultimately show ?thesis using assms(2) by (subst unat_add_no_wrap) simp_all
qed

lemma slot_eq:
  assumes "aligned T" "aligned U" and "unat i < 512" "unat j < 512"
  shows "T + 8 * i = U + 8 * j \<longleftrightarrow> T = U \<and> i = j"
proof
  assume "T + 8 * i = U + 8 * j"
  then have e: "unat T + 8 * unat i = unat U + 8 * unat j"
    using slot_unat assms by metis
  moreover obtain t where t: "unat T = 4096 * t" using assms(1) by (auto simp: aligned_def)
  moreover obtain u where u: "unat U = 4096 * u" using assms(2) by (auto simp: aligned_def)
  moreover have "(4096 * t + 8 * unat i) div 4096 = t" "(4096 * u + 8 * unat j) div 4096 = u"
    using assms(3,4) by simp_all
  ultimately have "t = u" by metis
  with e have "unat T = unat U \<and> unat i = unat j"
    by (simp add: t u)
  then show "T = U \<and> i = j" by (simp add: word_eq_iff_unat)
qed simp

lemma aligned_target: "aligned (target e)"
proof -
  have "take_bit 12 (target e) = 0"
    unfolding target_def by (rule bit_word_eqI) (auto simp: bit_simps)
  then have "unat (take_bit 12 (target e)) = 0" by simp
  then show ?thesis by (simp add: aligned_def take_bit_eq_mod unat_mod_distrib)
qed

lemma target_page: "push_bit 12 (take_bit 40 (drop_bit 12 p)) = p"
  if "aligned p" "unat p < 2 ^ 52" for p :: u64
proof -
  have "take_bit 40 (drop_bit 12 p) = drop_bit 12 p"
    using that(2) by (simp add: word_eq_iff_unat unsigned_take_bit_eq
        take_bit_nat_eq_self_iff drop_bit_eq_div unat_div_distrib)
  moreover have "take_bit 12 p = 0"
    using that(1) by (simp add: word_eq_iff_unat take_bit_eq_mod aligned_def unat_mod_distrib)
  ultimately show ?thesis using bits_ident [of 12 p] by simp
qed

lemma zero_table_apply:
  "zero_table a m x = (if \<exists>i. unat i < 512 \<and> x = a + 8 * i then \<lparr>Value = 0\<rparr> else m x)"
proof -
  have "fold (\<lambda>j m. m(a + 8 * word_of_nat j := \<lparr>Value = 0\<rparr>)) [0..<k] m x
      = (if \<exists>j < k. x = a + 8 * word_of_nat j then \<lparr>Value = 0\<rparr> else m x)" for k
    by (induction k) (auto simp: less_Suc_eq)
  moreover have "(\<exists>j < 512. x = a + 8 * word_of_nat j) = (\<exists>i :: u64. unat i < 512 \<and> x = a + 8 * i)"
  proof
    assume "\<exists>j < 512. x = a + 8 * word_of_nat j"
    then obtain j where "j < 512" "x = a + 8 * word_of_nat j" by blast
    moreover from this have "unat (word_of_nat j :: u64) = j" by (intro unat_of_nat_u64) simp
    ultimately show "\<exists>i :: u64. unat i < 512 \<and> x = a + 8 * i" by metis
  next
    assume "\<exists>i :: u64. unat i < 512 \<and> x = a + 8 * i"
    then obtain i :: u64 where "unat i < 512" "x = a + 8 * i" by blast
    moreover have "i = word_of_nat (unat i)" by simp
    ultimately show "\<exists>j < 512. x = a + 8 * word_of_nat j" by metis
  qed
  ultimately show ?thesis by (simp add: zero_table_def u64_for_fold)
qed

section \<open>The tables form a tree\<close>

definition indices :: "u64 list \<Rightarrow> bool" where
  "indices \<sigma> \<longleftrightarrow> (\<forall>i \<in> set \<sigma>. unat i < 512)"

definition root_walk :: "vm \<Rightarrow> u64 list \<Rightarrow> u64 option" where
  "root_walk vm = walk (entries vm) (PML4 vm)"

text \<open>
  \<open>tables_ok\<close>: no table is reached along two paths, the page of every table is in use, and
  the frames the allocator knows fit the 40 address bits of an entry.
\<close>

definition tables_ok :: "vm \<Rightarrow> bool" where
  "tables_ok vm \<longleftrightarrow> unat (Size (PageBitmap (frames vm))) * 8 < 2 ^ 40 \<and> aligned (PML4 vm) \<and>
     (\<forall>\<pi> T. indices \<pi> \<longrightarrow> length \<pi> \<le> 3 \<longrightarrow> root_walk vm \<pi> = Some T \<longrightarrow>
        marked (frames vm) (T div 4096) \<and>
        (\<forall>\<rho>. indices \<rho> \<longrightarrow> length \<rho> \<le> 3 \<longrightarrow> root_walk vm \<rho> = Some T \<longrightarrow> \<rho> = \<pi>))"

lemma walk_append:
  "walk m b (xs @ ys) = (case walk m b xs of None \<Rightarrow> None | Some c \<Rightarrow> walk m c ys)"
  by (induction m b xs rule: walk.induct) (simp_all add: Let_def)

lemma walk_snoc:
  "walk m b (xs @ [i]) = (case walk m b xs of None \<Rightarrow> None
     | Some c \<Rightarrow> if present (m (c + 8 * i)) then Some (target (m (c + 8 * i))) else None)"
  by (simp add: walk_append Let_def split: option.splits)

lemma walk_aligned: "aligned b \<Longrightarrow> walk m b \<sigma> = Some T \<Longrightarrow> aligned T"
  by (induction m b \<sigma> rule: walk.induct) (auto simp: Let_def aligned_target split: if_splits)

lemma root_aligned: "tables_ok vm \<Longrightarrow> root_walk vm \<sigma> = Some T \<Longrightarrow> aligned T"
  unfolding root_walk_def tables_ok_def by (blast intro: walk_aligned)

lemma indices_snoc [simp]: "indices (\<pi> @ [i]) \<longleftrightarrow> indices \<pi> \<and> unat i < 512"
  by (auto simp: indices_def)

lemma tables_okD:
  assumes "tables_ok vm" and "indices \<pi>" "length \<pi> \<le> 3" "root_walk vm \<pi> = Some T"
  shows "aligned T" "marked (frames vm) (T div 4096)"
    and "\<And>\<rho>. indices \<rho> \<Longrightarrow> length \<rho> \<le> 3 \<Longrightarrow> root_walk vm \<rho> = Some T \<Longrightarrow> \<rho> = \<pi>"
  using assms root_aligned [OF assms(1,4)] unfolding tables_ok_def by blast+

text \<open>
  The effect of one descent or leaf write on every path at once: the entry \<open>i\<close> of the table at
  the end of \<open>\<pi>\<close> now points to \<open>P\<close>, and apart from entries of the page \<open>P\<close>, which no path
  reached, nothing else changed. Paths that continue below \<open>P\<close> are left out.
\<close>

lemma walk_update:
  assumes ok: "tables_ok vm" and \<pi>: "indices \<pi>" "length \<pi> \<le> 3" "root_walk vm \<pi> = Some T"
    and i: "unat i < 512"
    and here: "present (m (T + 8 * i))" "target (m (T + 8 * i)) = P"
    and same: "\<And>U j. \<lbrakk>aligned U; marked (frames vm) (U div 4096); unat j < 512; (U, j) \<noteq> (T, i)\<rbrakk>
      \<Longrightarrow> m (U + 8 * j) = entries vm (U + 8 * j)"
    and \<sigma>: "indices \<sigma>" "length \<sigma> \<le> 4" "\<forall>\<rho>. \<rho> \<noteq> [] \<longrightarrow> \<sigma> \<noteq> (\<pi> @ [i]) @ \<rho>"
  shows "walk m (PML4 vm) \<sigma> = (if \<sigma> = \<pi> @ [i] then Some P else root_walk vm \<sigma>)"
  using \<sigma>
proof (induction \<sigma> rule: rev_induct)
  case Nil
  then show ?case by (simp add: root_walk_def)
next
  case (snoc j \<sigma>)
  have no: "\<sigma> \<noteq> (\<pi> @ [i]) @ \<rho>" for \<rho>
  proof
    assume "\<sigma> = (\<pi> @ [i]) @ \<rho>"
    then have "\<sigma> @ [j] = (\<pi> @ [i]) @ (\<rho> @ [j])" by simp
    with snoc.prems(3) show False by blast
  qed
  have "walk m (PML4 vm) \<sigma> = (if \<sigma> = \<pi> @ [i] then Some P else root_walk vm \<sigma>)"
    using snoc.prems no by (intro snoc.IH) simp_all
  then have IH: "walk m (PML4 vm) \<sigma> = root_walk vm \<sigma>" using no [of "[]"] by simp
  show ?case
  proof (cases "root_walk vm \<sigma>")
    case None
    then have "\<sigma> \<noteq> \<pi>" using \<pi> by auto
    with None IH show ?thesis by (simp add: walk_snoc root_walk_def)
  next
    case (Some U)
    have ind: "indices \<sigma>" "length \<sigma> \<le> 3" using snoc.prems(1,2) by simp_all
    note U = tables_okD(2) [OF ok ind Some]
    have same_path: "\<sigma> = \<pi> \<longleftrightarrow> U = T"
      using tables_okD(3) [OF ok ind Some \<pi>(1,2)] \<pi>(3) Some by auto
    have "aligned U" using ok Some by (rule root_aligned)
    have j: "unat j < 512" using snoc.prems(1) by simp
    show ?thesis
    proof (cases "\<sigma> @ [j] = \<pi> @ [i]")
      case True
      then show ?thesis using IH Some U here same_path by (simp add: walk_snoc)
    next
      case False
      then have "(U, j) \<noteq> (T, i)" using same_path by auto
      then have "m (U + 8 * j) = entries vm (U + 8 * j)"
        by (intro same \<open>aligned U\<close> U j)
      moreover have "(\<sigma> @ [j] = \<pi> @ [i]) = False" using False by (simp only: simp_thms)
      ultimately show ?thesis using IH Some
        by (simp only: walk_snoc root_walk_def if_False) simp
    qed
  qed
qed


lemma aligned_mult: "unat p < 2 ^ 52 \<Longrightarrow> aligned (p * 4096)"
  by (simp add: aligned_def unat_page_address)

lemma geometry_RequestPage: "geometry (snd (RequestPage s)) = geometry s"
proof (induction s rule: RequestPage.induct)
  case (1 s)
  moreover have "geometry (s\<lparr>pageBitmapIndex := i\<rparr>) = geometry s" for i
    by (simp add: geometry_def)
  ultimately show ?case by (subst RequestPage.simps) simp
qed

lemma new_page_bound:
  assumes "tables_ok vm" and f: "RequestPage (frames vm) = (P, f)" and P: "P = P div 4096 * 4096"
    and "marked f (P div 4096)"
  shows "unat P < 2 ^ 52 \<and> aligned P"
proof -
  have sz: "Size (PageBitmap f) = Size (PageBitmap (frames vm))"
    using geometry_RequestPage [of "frames vm"] f by (simp add: geometry_def)
  have s: "unat (Size (PageBitmap (frames vm))) * 8 < 2 ^ 40"
    using assms(1) by (simp add: tables_ok_def)
  then have "unat (Size (PageBitmap (frames vm)) * 8) < 2 ^ 40"
    by (subst unat_mult_no_wrap) simp_all
  then have b: "unat (P div 4096) < 2 ^ 40"
    using marked_inside [OF assms(4)] unfolding page_inside_def sz word_le_nat_alt
    by (rule order_le_less_trans [rotated])
  then have "unat (P div 4096) < 2 ^ 52" by simp
  then have "unat (P div 4096 * 4096) = unat (P div 4096) * 4096" "aligned (P div 4096 * 4096)"
    by (simp_all only: unat_page_address aligned_mult)
  then have "unat P = unat (P div 4096) * 4096" "aligned P" by (simp_all only: P [symmetric])
  with b show ?thesis by simp
qed

text \<open>One level: afterwards the path reaches the table below, and no other path changed.\<close>

lemma descend_step:
  assumes ok: "tables_ok vm" and \<pi>: "indices \<pi>" "length \<pi> < 3" "root_walk vm \<pi> = Some T"
    and i: "unat i < 512" and new: "fst (RequestPage (frames vm)) \<noteq> 0"
    and d: "descend T i vm = (P, vm')"
  shows "tables_ok vm' \<and> root_walk vm' (\<pi> @ [i]) = Some P
    \<and> (\<forall>\<sigma>. indices \<sigma> \<longrightarrow> length \<sigma> = 4 \<longrightarrow> root_walk vm' \<sigma> = root_walk vm \<sigma>)
    \<and> (frames vm' = frames vm \<or> frames vm' = snd (RequestPage (frames vm)))"
proof (cases "present (entries vm (T + 8 * i))")
  case True
  then show ?thesis
    using assms by (auto simp: descend_def GetFlag_Present target_GetAddress root_walk_def walk_snoc)
next
  case absent: False
  obtain f where f: "RequestPage (frames vm) = (P, f)"
    using d absent by (cases "RequestPage (frames vm)")
      (auto simp: descend_def GetFlag_Present Let_def)
  let ?e = "SetFlag ReadWrite True (SetFlag Present True
      (SetAddress (drop_bit 12 P) (entries vm (T + 8 * i))))"
  let ?m = "(zero_table P (entries vm))(T + 8 * i := ?e)"
  have vm': "vm' = vm\<lparr>frames := f, entries := ?m\<rparr>"
    using d absent f by (auto simp: descend_def GetFlag_Present Let_def)
  have pfa: "pfa_ok (frames vm)" using ok by (simp add: tables_ok_def pfa_ok_def)
  from RequestPage_cases [OF pfa] f new
  have fresh: "\<not> marked (frames vm) (P div 4096)"
    and f_marked: "marked f = (\<lambda>j. marked (frames vm) j \<or> j = P div 4096)"
    and P: "P = (P div 4096) * 4096" by auto
  have g: "geometry f = geometry (frames vm)"
    using geometry_RequestPage [of "frames vm"] f by simp
  have P52: "unat P < 2 ^ 52" and aP: "aligned P"
    using new_page_bound [OF ok f P] f_marked by simp_all
  note T = tables_okD [OF ok \<pi>(1) less_imp_le [OF \<pi>(2)] \<pi>(3)]
  have TP: "T \<noteq> P" using T(2) fresh by auto
  have slotU: "?m (U + 8 * j) = entries vm (U + 8 * j)"
    if "aligned U" "marked (frames vm) (U div 4096)" "unat j < 512" "(U, j) \<noteq> (T, i)" for U j
  proof -
    have "U \<noteq> P" using that(2) fresh by auto
    then have "\<nexists>k. unat k < 512 \<and> U + 8 * j = P + 8 * k"
      using that aP by (auto simp: slot_eq)
    moreover have "U + 8 * j \<noteq> T + 8 * i" using that T(1) i by (auto simp: slot_eq)
    ultimately show ?thesis by (auto simp: zero_table_apply)
  qed
  have below: "walk ?m P \<rho> = None" if r: "indices \<rho>" "\<rho> \<noteq> []" for \<rho>
  proof -
    obtain j \<rho>' where \<rho>: "\<rho> = j # \<rho>'" "unat j < 512" using r by (cases \<rho>) (auto simp: indices_def)
    then have "P + 8 * j \<noteq> T + 8 * i" using TP aP T(1) i by (auto simp: slot_eq)
    then show ?thesis using \<rho> by (auto simp: zero_table_apply present_def Let_def)
  qed
  have eff: "root_walk vm' \<sigma> = (if \<sigma> = \<pi> @ [i] then Some P else root_walk vm \<sigma>)"
    if "indices \<sigma>" "length \<sigma> \<le> 4" for \<sigma>
  proof (cases "\<exists>\<rho>. \<rho> \<noteq> [] \<and> \<sigma> = (\<pi> @ [i]) @ \<rho>")
    case True
    then obtain \<rho> where \<rho>: "\<rho> \<noteq> []" "\<sigma> = (\<pi> @ [i]) @ \<rho>" by blast
    have "walk ?m (PML4 vm) (\<pi> @ [i]) = Some P"
      using walk_update [OF ok \<pi>(1) less_imp_le [OF \<pi>(2)] \<pi>(3) i, of ?m P "\<pi> @ [i]"]
        slotU \<pi> i aP P52 by (simp add: new_entry target_page)
    moreover have "root_walk vm (\<pi> @ [i]) = None"
      using \<pi>(3) absent by (simp add: root_walk_def walk_snoc)
    moreover have "indices \<rho>" using that(1) \<rho>(2) by (auto simp: indices_def)
    ultimately show ?thesis
      using \<rho> below [of \<rho>] unfolding \<rho>(2) vm' root_walk_def by (subst (1 2) walk_append) simp
  next
    case False
    then have "walk ?m (PML4 vm) \<sigma> = (if \<sigma> = \<pi> @ [i] then Some P else root_walk vm \<sigma>)"
      using that i aP P52
      by (intro walk_update [OF ok \<pi>(1) less_imp_le [OF \<pi>(2)] \<pi>(3) i] slotU)
        (auto simp: new_entry target_page)
    then show ?thesis by (simp add: vm' root_walk_def)
  qed
  have eff4: "root_walk vm' \<sigma> = (if \<sigma> = \<pi> @ [i] then Some P else root_walk vm \<sigma>)"
    if "indices \<sigma>" "length \<sigma> \<le> 3" for \<sigma>
    using that by (intro eff) simp_all
  have old: "root_walk vm \<rho> \<noteq> Some P" if "indices \<rho>" "length \<rho> \<le> 3" for \<rho>
    using tables_okD(2) [OF ok that] fresh by blast
  have "tables_ok vm'"
    unfolding tables_ok_def
  proof (intro conjI allI impI)
    show "unat (Size (PageBitmap (frames vm'))) * 8 < 2 ^ 40" "aligned (PML4 vm')"
      using ok g by (simp_all add: tables_ok_def vm' geometry_def)
  next
    fix \<tau> U
    assume \<tau>: "indices \<tau>" "length \<tau> \<le> 3" "root_walk vm' \<tau> = Some U"
    show "marked (frames vm') (U div 4096)"
      using \<tau> eff4 [of \<tau>] tables_okD(2) [OF ok \<tau>(1,2)] by (auto simp: vm' f_marked split: if_splits)
    fix \<rho>
    assume \<rho>: "indices \<rho>" "length \<rho> \<le> 3" "root_walk vm' \<rho> = Some U"
    show "\<rho> = \<tau>"
    proof (cases "U = P")
      case True
      then have "\<tau> = \<pi> @ [i]" "\<rho> = \<pi> @ [i]"
        using eff4 [of \<tau>] eff4 [of \<rho>] \<tau> \<rho> old [of \<tau>] old [of \<rho>] by metis+
      then show ?thesis by simp
    next
      case False
      then have "root_walk vm \<tau> = Some U" "root_walk vm \<rho> = Some U"
        using eff4 [of \<tau>] eff4 [of \<rho>] \<tau> \<rho> by (metis option.inject)+
      then show ?thesis using tables_okD(3) [OF ok \<tau>(1,2)] \<rho>(1,2) by blast
    qed
  qed
  moreover have "root_walk vm' (\<pi> @ [i]) = Some P" using eff [of "\<pi> @ [i]"] \<pi> i by simp
  moreover have "root_walk vm' \<sigma> = root_walk vm \<sigma>" if "indices \<sigma>" "length \<sigma> = 4" for \<sigma>
    using eff [of \<sigma>] that \<pi>(2) by auto
  ultimately show ?thesis by (simp add: vm' f)
qed

text \<open>The leaf: the page's own path changes, every other full path keeps its frame.\<close>

lemma set_leaf_step:
  assumes ok: "tables_ok vm" and \<pi>: "indices \<pi>" "length \<pi> = 3" "root_walk vm \<pi> = Some T"
    and i: "unat i < 512" and \<sigma>: "indices \<sigma>" "length \<sigma> \<le> 4"
  shows "root_walk (set_leaf T i p vm) \<sigma>
    = (if \<sigma> = \<pi> @ [i] then Some (push_bit 12 (take_bit 40 (drop_bit 12 p))) else root_walk vm \<sigma>)"
proof -
  let ?vm = "set_leaf T i p vm"
  have le: "length \<pi> \<le> 3" using \<pi> by simp
  have T: "aligned T" using tables_okD(1) [OF ok \<pi>(1) le \<pi>(3)] .
  have "walk (entries ?vm) (PML4 vm) \<sigma>
      = (if \<sigma> = \<pi> @ [i] then Some (push_bit 12 (take_bit 40 (drop_bit 12 p))) else root_walk vm \<sigma>)"
  proof (rule walk_update [OF ok \<pi>(1) le \<pi>(3) i])
    show "entries ?vm (U + 8 * j) = entries vm (U + 8 * j)"
      if "aligned U" "unat j < 512" "(U, j) \<noteq> (T, i)" for U j
      using that T i by (auto simp: set_leaf_def Let_def slot_eq)
    show "\<forall>\<rho>. \<rho> \<noteq> [] \<longrightarrow> \<sigma> \<noteq> (\<pi> @ [i]) @ \<rho>" using \<sigma> \<pi>(2) by auto
  qed (simp_all add: set_leaf_def Let_def new_entry \<sigma>)
  then show ?thesis by (simp add: root_walk_def set_leaf_def Let_def)
qed

lemma tables_ok_set_leaf:
  assumes ok: "tables_ok vm" and \<pi>: "indices \<pi>" "length \<pi> = 3" "root_walk vm \<pi> = Some T"
    and i: "unat i < 512"
  shows "tables_ok (set_leaf T i p vm)"
proof -
  have "root_walk (set_leaf T i p vm) \<sigma> = root_walk vm \<sigma>" if "indices \<sigma>" "length \<sigma> \<le> 3" for \<sigma>
    using set_leaf_step [OF assms that(1)] that(2) \<pi>(2) by auto
  then show ?thesis using ok unfolding tables_ok_def by (simp add: set_leaf_def Let_def)
qed

lemma request_all_Suc:
  assumes "0 \<notin> set (fst (request_all (Suc n) s))"
  shows "fst (RequestPage s) \<noteq> 0" "0 \<notin> set (fst (request_all n s))"
    "0 \<notin> set (fst (request_all n (snd (RequestPage s))))"
proof -
  have "set (fst (request_all n s)) \<subseteq> set (fst (request_all (Suc n) s))" for n s
  proof (induction n arbitrary: s)
    case 0
    then show ?case by simp
  next
    case (Suc n)
    obtain a s' where r: "RequestPage s = (a, s')" by (cases "RequestPage s")
    from Suc.IH [of s'] r show ?case by (simp split: prod.splits) auto
  qed
  with assms show "0 \<notin> set (fst (request_all n s))" by blast
  show "fst (RequestPage s) \<noteq> 0" "0 \<notin> set (fst (request_all n (snd (RequestPage s))))"
    using assms by (auto split: prod.splits)
qed

definition index_inside :: "u64 list \<Rightarrow> bool" where
  "index_inside \<sigma> \<longleftrightarrow> indices \<sigma> \<and> length \<sigma> = 4"

lemma index_path_inside: "index_inside (index_path v)"
proof -
  have "unat (take_bit 9 x :: u64) < 512" for x
    by (simp add: unsigned_take_bit_eq take_bit_eq_mod unat_mod_distrib)
  then show ?thesis by (simp add: index_inside_def indices_def index_path_def)
qed

lemma MapMemory_walk:
  assumes ok: "tables_ok vm" and free: "0 \<notin> set (fst (request_all 3 (frames vm)))"
  shows "tables_ok (MapMemory v p vm) \<and> (\<forall>\<sigma>. index_inside \<sigma> \<longrightarrow>
    root_walk (MapMemory v p vm) \<sigma> = (if \<sigma> = index_path v
      then Some (push_bit 12 (take_bit 40 (drop_bit 12 p))) else root_walk vm \<sigma>))"
proof -
  define x where "x = page_map_indexer v"
  have path: "index_path v = [PDP_i x, PD_i x, PT_i x, P_i x]"
    using page_map_indexer_path [of x v] by (simp add: x_def)
  have idx: "unat (PDP_i x) < 512" "unat (PD_i x) < 512" "unat (PT_i x) < 512" "unat (P_i x) < 512"
    using index_path_inside [of v] by (simp_all add: path index_inside_def indices_def)
  obtain T1 vm1 where d1: "descend (PML4 vm) (PDP_i x) vm = (T1, vm1)" by fastforce
  obtain T2 vm2 where d2: "descend T1 (PD_i x) vm1 = (T2, vm2)" by fastforce
  obtain T3 vm3 where d3: "descend T2 (PT_i x) vm2 = (T3, vm3)" by fastforce
  have map: "MapMemory v p vm = set_leaf T3 (P_i x) p vm3"
    by (simp add: MapMemory_def x_def [symmetric] Let_def d1 d2 d3)
  have "0 \<notin> set (fst (request_all (Suc (Suc (Suc 0))) (frames vm)))"
    using free by (simp add: numeral_3_eq_3)
  note fr3 = request_all_Suc [OF this]
  have s1: "tables_ok vm1" "root_walk vm1 [PDP_i x] = Some T1"
    "\<forall>\<sigma>. index_inside \<sigma> \<longrightarrow> root_walk vm1 \<sigma> = root_walk vm \<sigma>"
    "frames vm1 = frames vm \<or> frames vm1 = snd (RequestPage (frames vm))"
    using descend_step [OF ok _ _ _ idx(1) fr3(1) d1, of "[]"]
    by (simp_all add: root_walk_def indices_def index_inside_def)
  then have "0 \<notin> set (fst (request_all (Suc (Suc 0)) (frames vm1)))" using fr3 by metis
  note fr2 = request_all_Suc [OF this]
  have s2: "tables_ok vm2" "root_walk vm2 [PDP_i x, PD_i x] = Some T2"
    "\<forall>\<sigma>. index_inside \<sigma> \<longrightarrow> root_walk vm2 \<sigma> = root_walk vm1 \<sigma>"
    "frames vm2 = frames vm1 \<or> frames vm2 = snd (RequestPage (frames vm1))"
    using descend_step [OF s1(1) _ _ s1(2) idx(2) fr2(1) d2] idx
    by (simp_all add: indices_def index_inside_def)
  then have "0 \<notin> set (fst (request_all (Suc 0) (frames vm2)))" using fr2 by metis
  note fr1 = request_all_Suc [OF this]
  have s3: "tables_ok vm3" "root_walk vm3 [PDP_i x, PD_i x, PT_i x] = Some T3"
    "\<forall>\<sigma>. index_inside \<sigma> \<longrightarrow> root_walk vm3 \<sigma> = root_walk vm2 \<sigma>"
    using descend_step [OF s2(1) _ _ s2(2) idx(3) fr1(1) d3] idx
    by (simp_all add: indices_def index_inside_def)
  have ind: "indices [PDP_i x, PD_i x, PT_i x]" using idx by (simp add: indices_def)
  have "tables_ok (MapMemory v p vm)"
    unfolding map using tables_ok_set_leaf [OF s3(1) ind _ s3(2) idx(4)] by simp
  moreover have "root_walk (MapMemory v p vm) \<sigma> = (if \<sigma> = index_path v
      then Some (push_bit 12 (take_bit 40 (drop_bit 12 p))) else root_walk vm \<sigma>)"
    if "index_inside \<sigma>" for \<sigma>
    unfolding map using set_leaf_step [OF s3(1) ind _ s3(2) idx(4), of \<sigma> p] that s1(3) s2(3) s3(3)
    by (simp add: path index_inside_def)
  ultimately show ?thesis by blast
qed
section \<open>Properties\<close>

text \<open>C2. \<open>MapMemory\<close> implements the page walk: when the tables form a tree and three frames can
  still be had, afterwards the processor translates every address of the mapped page to the given
  frame, every other address as before, and the tables still form a tree in pages of their own.\<close>

theorem MapMemory_translate:
  assumes "tables_ok vm" and "0 \<notin> set (fst (request_all 3 (frames vm)))"
    and "aligned p" and "unat p < 2 ^ 52"
  shows "tables_ok (MapMemory v p vm) \<and> translate (MapMemory v p vm) w =
    (if index_path w = index_path v then Some (p + take_bit 12 w) else translate vm w)"
proof -
  have "tables_ok (MapMemory v p vm) \<and> root_walk (MapMemory v p vm) (index_path w)
      = (if index_path w = index_path v then Some p else root_walk vm (index_path w))"
    using MapMemory_walk [OF assms(1,2), of v p] index_path_inside [of w] target_page [OF assms(3,4)]
    by simp
  then show ?thesis by (simp add: translate_def root_walk_def)
qed

definition small_vm :: vm where
  "small_vm = \<lparr>PML4 = 0x1000, entries = (\<lambda>_. \<lparr>Value = 0\<rparr>),
     frames = initial_pfa \<lparr>Size = 1, Buffer = 0, Bytes = (\<lambda>_. 0xC0)\<rparr>\<rparr>"

lemma small_vm_ok: "tables_ok small_vm"
proof -
  have w: "root_walk small_vm \<pi> = Some T \<longleftrightarrow> \<pi> = [] \<and> T = 0x1000" for \<pi> T
    by (cases \<pi>) (auto simp: root_walk_def small_vm_def present_def Let_def)
  have "marked (frames small_vm) 1"
    by (simp add: small_vm_def initial_pfa_def marked_def Get_def bit_indexer_def)
  then show ?thesis
    unfolding tables_ok_def w by (auto simp: small_vm_def initial_pfa_def aligned_def)
qed

theorem MapMemory_translate_witness:
  "translate (MapMemory 0xFFFF800000003000 0x7000 small_vm) 0xFFFF800000003123 = Some 0x7123"
proof -
  have "0 \<notin> set (fst (request_all 3 (frames small_vm)))" by code_simp
  moreover have "index_path 0xFFFF800000003123 = index_path 0xFFFF800000003000" by code_simp
  moreover have "aligned 0x7000" "unat (0x7000 :: u64) < 2 ^ 52" by (simp_all add: aligned_def)
  moreover have "0x7000 + take_bit 12 0xFFFF800000003123 = (0x7123 :: u64)" by code_simp
  ultimately show ?thesis
    using MapMemory_translate [OF small_vm_ok, of "0x7000" "0xFFFF800000003000" "0xFFFF800000003123"]
    by simp
qed

text \<open>An entry keeps its parts apart: setting the address stores its low 40 bits, which are
  read back, and leaves every flag alone; setting a flag changes that bit only, never the address.\<close>

theorem entry_fields:
  "GetAddress (SetAddress a e) = take_bit 40 a
    \<and> bit (Value (SetAddress a e)) (flag_number g) = bit (Value e) (flag_number g)
    \<and> GetAddress (SetFlag g v e) = GetAddress e
    \<and> bit (Value (SetFlag g v e)) (flag_number h)
        = (if h = g then v else bit (Value e) (flag_number h))"
proof -
  have n: "flag_number f < 64 \<and> (flag_number f < 12 \<or> 52 \<le> flag_number f)" for f by (cases f) simp_all
  have inj: "flag_number h = flag_number g \<longleftrightarrow> h = g" by (cases h; cases g) simp_all
  have a: "bit (GetAddress x) k = (k < 40 \<and> bit (Value x) (k + 12))" for x k
    unfolding GetAddress_def address_masks by (auto simp: bit_simps add.commute)
  have "GetAddress (SetAddress a e) = take_bit 40 a"
    by (rule bit_word_eqI) (auto simp: a SetAddress_bit bit_simps)
  moreover have "GetAddress (SetFlag g v e) = GetAddress e"
    using n [of g] by (intro bit_word_eqI) (auto simp: a SetFlag_bit)
  ultimately show ?thesis using n [of g] n [of h] inj by (auto simp: SetFlag_bit SetAddress_bit)
qed

text \<open>\<open>GetFlag\<close> ignores its argument: because of operator precedence it reports the present
  bit of the entry whichever flag is asked for.\<close>

theorem GetFlag_reads_present: "GetFlag f e = bit (Value e) (flag_number Present)"
  by (simp add: GetFlag_Present present_def)

end
