(* ===== verification/Heap.thy ===== *)
theory Heap
  imports PageTables
begin

text \<open>
  The kernel heap of \<^verbatim>\<open>src/memory/heap.cpp\<close>. \<open>hdr\<close> is the memory as far as block headers
  are concerned: the header at an address. The heap grows by frames of the page frame allocator
  mapped at its end, so the state contains the page tables (\<open>hvm\<close>).
\<close>

record HeapBlockHeader =
  Length :: u64
  Next :: u64
  Prev :: u64
  Free :: bool

record kheap =
  hdr :: "u64 \<Rightarrow> HeapBlockHeader"
  heapStart :: u64
  heapEnd :: u64
  LastHdr :: u64
  hvm :: vm

section \<open>Operations\<close>

text \<open>\<^verbatim>\<open>sizeof(HeapBlockHeader)\<close>: three 8-byte words and a bool, padded to 32.\<close>

abbreviation header_size :: u64 where "header_size \<equiv> 32"

definition at :: "u64 \<Rightarrow> (HeapBlockHeader \<Rightarrow> HeapBlockHeader) \<Rightarrow> kheap \<Rightarrow> kheap" where
  "at a f h = h\<lparr>hdr := (hdr h)(a := f (hdr h a))\<rparr>"

definition CombineForward :: "u64 \<Rightarrow> kheap \<Rightarrow> kheap" where
  "CombineForward this h =
     (let next = Next (hdr h this) in
      if next = 0 then h
      else if \<not> Free (hdr h next) then h
      else
        let h = (if next = LastHdr h then h\<lparr>LastHdr := this\<rparr> else h);
            h = (if Next (hdr h next) \<noteq> 0 then at (Next (hdr h next)) (\<lambda>b. b\<lparr>Prev := this\<rparr>) h else h);
            h = at this (\<lambda>b. b\<lparr>Length := Length b + Length (hdr h next) + header_size\<rparr>) h
        in at this (\<lambda>b. b\<lparr>Next := Next (hdr h next)\<rparr>) h)"

definition CombineBackward :: "u64 \<Rightarrow> kheap \<Rightarrow> kheap" where
  "CombineBackward this h =
     (let prev = Prev (hdr h this) in
      if prev \<noteq> 0 \<and> Free (hdr h prev) then CombineForward prev h else h)"

text \<open>\<^verbatim>\<open>splitSegLength\<close> is an \<^verbatim>\<open>int64_t\<close> and compared as such.\<close>

definition Split :: "u64 \<Rightarrow> u64 \<Rightarrow> kheap \<Rightarrow> u64 \<times> kheap" where
  "Split this splitLength h =
     (if splitLength < 0x10 then (0, h)
      else
        let splitSegLength = Length (hdr h this) - splitLength - header_size in
        if sint splitSegLength < 0x10 then (0, h)
        else
          let newSplitHdr = this + splitLength + header_size;
              h = at (Next (hdr h this)) (\<lambda>b. b\<lparr>Prev := newSplitHdr\<rparr>) h;
              h = at newSplitHdr (\<lambda>b. b\<lparr>Next := Next (hdr h this)\<rparr>) h;
              h = at this (\<lambda>b. b\<lparr>Next := newSplitHdr\<rparr>) h;
              h = at newSplitHdr (\<lambda>b. b\<lparr>Prev := this, Length := splitSegLength,
                                    Free := Free (hdr h this)\<rparr>) h;
              h = at this (\<lambda>b. b\<lparr>Length := splitLength\<rparr>) h;
              h = (if LastHdr h = this then h\<lparr>LastHdr := newSplitHdr\<rparr> else h)
          in (newSplitHdr, h))"

definition map_new_page :: "u64 \<Rightarrow> vm \<Rightarrow> vm" where
  "map_new_page pos vm =
     (let (page, f) = RequestPage (frames vm) in MapMemory pos page (vm\<lparr>frames := f\<rparr>))"

definition InitialiseHeap :: "u64 \<Rightarrow> u64 \<Rightarrow> kheap \<Rightarrow> kheap" where
  "InitialiseHeap heapAddress pageCount h =
     (let v = snd (u64_for pageCount (\<lambda>i (pos, v). (pos + 0x1000, map_new_page pos v)) 0
                     (heapAddress, hvm h));
          heapLength = pageCount * 0x1000;
          h = h\<lparr>hvm := v, heapStart := heapAddress, heapEnd := heapAddress + heapLength\<rparr>
      in (at heapAddress
           (\<lambda>b. b\<lparr>Length := heapLength - header_size, Next := 0, Prev := 0, Free := True\<rparr>) h)
         \<lparr>LastHdr := heapAddress\<rparr>)"

text \<open>One turn of the loop of \<open>ExpandHeap\<close>.\<close>

definition expand_page :: "kheap \<Rightarrow> kheap" where
  "expand_page h =
     (case RequestPage (frames (hvm h)) of (page, f) \<Rightarrow>
        if page \<noteq> 0
        then h\<lparr>hvm := MapMemory (heapEnd h) page ((hvm h)\<lparr>frames := f\<rparr>),
               heapEnd := heapEnd h + 0x1000\<rparr>
        else h\<lparr>hvm := (hvm h)\<lparr>frames := f\<rparr>\<rparr>)"

definition page_round :: "u64 \<Rightarrow> u64" where
  "page_round len =
     (if len mod 0x1000 \<noteq> 0 then len - len mod 0x1000 + 0x1000 else len)"

definition ExpandHeap :: "u64 \<Rightarrow> kheap \<Rightarrow> kheap" where
  "ExpandHeap len h =
     (let len = page_round len;
          pageCount = len div 0x1000;
          newSegment = heapEnd h;
          h = u64_for pageCount (\<lambda>i. expand_page) 0 h;
          h = at newSegment (\<lambda>b. b\<lparr>Free := True, Prev := LastHdr h\<rparr>) h;
          h = at (LastHdr h) (\<lambda>b. b\<lparr>Next := newSegment\<rparr>) h;
          h = h\<lparr>LastHdr := newSegment\<rparr>;
          h = at newSegment (\<lambda>b. b\<lparr>Next := 0, Length := len - header_size\<rparr>) h
      in CombineBackward newSegment h)"

text \<open>
  The search of \<open>malloc\<close>: the first block that is free and long enough, \<open>Some None\<close> at the
  end of the list. The list is followed as it is stored, so a cyclic one is never left; that is
  the value \<open>None\<close>.
\<close>

partial_function (option) find_block ::
  "(u64 \<Rightarrow> HeapBlockHeader) \<Rightarrow> u64 \<Rightarrow> u64 \<Rightarrow> u64 option option" where
  "find_block m sz CurrentSegment =
     (if Free (m CurrentSegment) \<and> Length (m CurrentSegment) \<ge> sz then Some (Some CurrentSegment)
      else if Next (m CurrentSegment) = 0 then Some None
      else find_block m sz (Next (m CurrentSegment)))"

definition take_block :: "u64 \<Rightarrow> u64 \<Rightarrow> kheap \<Rightarrow> u64 \<times> kheap" where
  "take_block CurrentSegment sz h =
     (let h = (if Length (hdr h CurrentSegment) > sz then snd (Split CurrentSegment sz h) else h)
      in (CurrentSegment + header_size, at CurrentSegment (\<lambda>b. b\<lparr>Free := False\<rparr>) h))"

definition malloc_round :: "u64 \<Rightarrow> u64" where
  "malloc_round sz = (if sz mod 0x10 > 0 then sz - sz mod 0x10 + 0x10 else sz)"

partial_function (option) malloc :: "u64 \<Rightarrow> kheap \<Rightarrow> (u64 \<times> kheap) option" where
  "malloc sz h =
     (let sz = malloc_round sz in
      if sz = 0 then Some (0, h)
      else Option.bind (find_block (hdr h) sz (heapStart h))
        (\<lambda>found. case found of
            Some CurrentSegment \<Rightarrow> Some (take_block CurrentSegment sz h)
          | None \<Rightarrow> malloc sz (ExpandHeap sz h)))"

definition free :: "u64 \<Rightarrow> kheap \<Rightarrow> kheap" where
  "free address h =
     (let segment = address - header_size;
          h = at segment (\<lambda>b. b\<lparr>Free := True\<rparr>) h;
          h = CombineForward segment h
      in CombineBackward segment h)"

text \<open>\<^verbatim>\<open>realloc\<close> takes no size and returns its argument.\<close>

definition realloc :: "u64 \<Rightarrow> u64" where
  "realloc address = address"


text \<open>The object before \<open>InitialiseHeap\<close>: zero-initialised globals over some memory.\<close>

definition initial_heap :: "(u64 \<Rightarrow> HeapBlockHeader) \<Rightarrow> vm \<Rightarrow> kheap" where
  "initial_heap m v = \<lparr>hdr = m, heapStart = 0, heapEnd = 0, LastHdr = 0, hvm = v\<rparr>"

section \<open>Blocks\<close>

text \<open>
  The abstraction: the heap as a list of block lengths with a free flag, laid out one after the
  other from \<open>a\<close>. \<open>blocks m p a bs q\<close>: the headers stored at these places are the doubly
  linked list of \<open>bs\<close>, with \<open>p\<close> before the first and \<open>q\<close> after the last block.
\<close>

type_synonym block = "u64 \<times> bool"

primrec blocks :: "(u64 \<Rightarrow> HeapBlockHeader) \<Rightarrow> u64 \<Rightarrow> u64 \<Rightarrow> block list \<Rightarrow> u64 \<Rightarrow> bool" where
  "blocks m p a [] q = True"
| "blocks m p a (b # bs) q \<longleftrightarrow>
     m a = \<lparr>Length = fst b, Next = (if bs = [] then q else a + header_size + fst b), Prev = p,
            Free = snd b\<rparr>
     \<and> blocks m a (a + header_size + fst b) bs q"

primrec addr_after :: "u64 \<Rightarrow> block list \<Rightarrow> u64" where
  "addr_after a [] = a"
| "addr_after a (b # bs) = addr_after (a + header_size + fst b) bs"

primrec last_addr :: "u64 \<Rightarrow> u64 \<Rightarrow> block list \<Rightarrow> u64" where
  "last_addr p a [] = p"
| "last_addr p a (b # bs) = last_addr a (a + header_size + fst b) bs"

primrec bytes :: "block list \<Rightarrow> nat" where
  "bytes [] = 0"
| "bytes (b # bs) = 32 + unat (fst b) + bytes bs"

lemma addr_after_append [simp]: "addr_after a (xs @ ys) = addr_after (addr_after a xs) ys"
  by (induction xs arbitrary: a) simp_all

lemma last_addr_append [simp]:
  "last_addr p a (xs @ ys) = last_addr (last_addr p a xs) (addr_after a xs) ys"
  by (induction xs arbitrary: p a) simp_all

lemma bytes_append [simp]: "bytes (xs @ ys) = bytes xs + bytes ys"
  by (induction xs) simp_all

lemma blocks_append:
  "blocks m p a (xs @ ys) q \<longleftrightarrow> blocks m p a xs (if ys = [] then q else addr_after a xs)
     \<and> blocks m (last_addr p a xs) (addr_after a xs) ys q"
  by (induction xs arbitrary: p a) auto

lemma unat_block_end:
  fixes a n :: u64
  assumes "unat a + (32 + unat n) < 2 ^ 64"
  shows "unat (a + header_size + n) = unat a + 32 + unat n"
proof -
  have "unat (a + 32) = unat a + 32" using assms by (subst unat_add_no_wrap) simp_all
  then show ?thesis using assms by (subst unat_add_no_wrap) simp_all
qed

lemma unat_addr_after: "unat a + bytes xs < 2 ^ 64 \<Longrightarrow> unat (addr_after a xs) = unat a + bytes xs"
proof (induction xs arbitrary: a)
  case Nil
  then show ?case by simp
next
  case (Cons b xs)
  have "unat (a + header_size + fst b) = unat a + 32 + unat (fst b)"
    using Cons.prems by (intro unat_block_end) simp
  with Cons show ?case by simp
qed

text \<open>Only the headers inside the list matter.\<close>

lemma blocks_frame:
  assumes "unat a + bytes bs < 2 ^ 64"
    and "\<And>x. unat a \<le> unat x \<Longrightarrow> unat x < unat a + bytes bs \<Longrightarrow> m' x = m x"
  shows "blocks m' p a bs q = blocks m p a bs q"
  using assms
proof (induction bs arbitrary: p a)
  case Nil
  then show ?case by simp
next
  case (Cons b bs)
  have e: "unat (a + header_size + fst b) = unat a + 32 + unat (fst b)"
    using Cons.prems(1) by (intro unat_block_end) simp
  have "m' a = m a" using Cons.prems(2) [of a] by simp
  moreover have "blocks m' a (a + header_size + fst b) bs q = blocks m a (a + header_size + fst b) bs q"
    using Cons.prems e by (intro Cons.IH) simp_all
  ultimately show ?case by simp
qed

text \<open>
  A well-formed heap: its blocks fill the range from \<^verbatim>\<open>heapStart\<close> to \<^verbatim>\<open>heapEnd\<close>, which lies
  in the lower half of the address space, above address 0, and \<^verbatim>\<open>LastHdr\<close> is the last block.
\<close>

definition heap_of :: "kheap \<Rightarrow> block list \<Rightarrow> bool" where
  "heap_of h bs \<longleftrightarrow> bs \<noteq> [] \<and> heapStart h \<noteq> 0 \<and> blocks (hdr h) 0 (heapStart h) bs 0
     \<and> LastHdr h = last_addr 0 (heapStart h) bs
     \<and> unat (heapStart h) + bytes bs = unat (heapEnd h) \<and> unat (heapEnd h) < 2 ^ 63"

text \<open>No two neighbouring blocks are both free: every free block is as large as it can be.\<close>

fun coalesced :: "block list \<Rightarrow> bool" where
  "coalesced (b # c # bs) \<longleftrightarrow> \<not> (snd b \<and> snd c) \<and> coalesced (c # bs)"
| "coalesced bs = True"

lemma coalesced_append:
  "coalesced (xs @ ys) \<longleftrightarrow> coalesced xs \<and> coalesced ys
     \<and> \<not> (xs \<noteq> [] \<and> ys \<noteq> [] \<and> snd (last xs) \<and> snd (hd ys))"
  by (induction xs rule: coalesced.induct; cases ys) auto

section \<open>Operations on blocks\<close>

text \<open>
  A focus on one block \<open>b\<close> of the heap, with \<open>xs\<close> before and \<open>ys\<close> behind it. \<open>heap_of\<close>
  is turned into facts about the address \<open>c\<close> of that block and about the two neighbours.
\<close>

lemma last_addr_snoc_nonempty: "xs \<noteq> [] \<Longrightarrow> last_addr p a xs = last_addr q a xs"
  by (cases xs) simp_all

lemma last_addr_below:
  "xs \<noteq> [] \<Longrightarrow> unat a + bytes xs < 2 ^ 64 \<Longrightarrow>
    unat a \<le> unat (last_addr p a xs) \<and> unat (last_addr p a xs) + 32 \<le> unat a + bytes xs"
proof (induction xs arbitrary: p a)
  case Nil
  then show ?case by simp
next
  case (Cons b xs)
  have e: "unat (a + header_size + fst b) = unat a + 32 + unat (fst b)"
    using Cons.prems by (intro unat_block_end) simp
  show ?case
  proof (cases "xs = []")
    case True
    then show ?thesis by simp
  next
    case False
    then show ?thesis using Cons.IH [OF False, of "a + header_size + fst b" a] Cons.prems e by simp
  qed
qed

lemma blocks_set_Prev:
  assumes "blocks m p a bs q" and "unat a + bytes bs < 2 ^ 64"
  shows "blocks (m(a := m a\<lparr>Prev := p'\<rparr>)) p' a bs q"
proof (cases bs)
  case Nil
  then show ?thesis by simp
next
  case (Cons b cs)
  have e: "unat (a + header_size + fst b) = unat a + 32 + unat (fst b)"
    using assms(2) Cons by (intro unat_block_end) simp
  have "blocks (m(a := m a\<lparr>Prev := p'\<rparr>)) a (a + header_size + fst b) cs q
      = blocks m a (a + header_size + fst b) cs q"
    using e assms(2) Cons by (intro blocks_frame) auto
  then show ?thesis using assms(1) Cons by simp
qed

locale focus =
  fixes h :: kheap and xs :: "block list" and n :: u64 and f :: bool and ys :: "block list"
  assumes heap: "heap_of h (xs @ (n, f) # ys)"
begin

definition c :: u64 where "c = addr_after (heapStart h) xs"

definition e :: u64 where "e = c + header_size + n"

lemma start: "unat (heapStart h) + bytes xs + 32 + unat n + bytes ys = unat (heapEnd h)"
  "unat (heapEnd h) < 2 ^ 63" "heapStart h \<noteq> 0"
  using heap by (simp_all add: heap_of_def)

lemma c_unat: "unat c = unat (heapStart h) + bytes xs"
  unfolding c_def using start by (intro unat_addr_after) simp

lemma e_unat: "unat e = unat c + 32 + unat n"
  unfolding e_def using start c_unat by (intro unat_block_end) simp

lemma end_unat: "unat e + bytes ys = unat (heapEnd h)"
  using start e_unat c_unat by simp

lemma before: "blocks (hdr h) 0 (heapStart h) xs c"
  and here: "hdr h c = \<lparr>Length = n, Next = (if ys = [] then 0 else e),
       Prev = last_addr 0 (heapStart h) xs, Free = f\<rparr>"
  and behind: "blocks (hdr h) c e ys 0"
  and last: "LastHdr h = last_addr c e ys"
  using heap unfolding heap_of_def blocks_append
  by (simp_all add: c_def [symmetric] e_def [symmetric])

lemma c_pos: "c \<noteq> 0"
proof
  assume "c = 0"
  with c_unat have "unat (heapStart h) = 0" by simp
  with start(3) show False by (simp add: unat_eq_0)
qed

lemma e_pos: "e \<noteq> 0"
  using e_unat by (auto simp: unat_eq_0)

lemma before_frame:
  assumes "\<And>x :: u64. unat x < unat c \<Longrightarrow> x \<noteq> 0 \<Longrightarrow> m x = hdr h x"
  shows "blocks m 0 (heapStart h) xs c"
proof -
  have "blocks m 0 (heapStart h) xs c = blocks (hdr h) 0 (heapStart h) xs c"
  proof (rule blocks_frame)
    show "unat (heapStart h) + bytes xs < 2 ^ 64" using start by simp
  next
    fix x :: u64
    assume x: "unat (heapStart h) \<le> unat x" "unat x < unat (heapStart h) + bytes xs"
    then have "x \<noteq> 0" using start(3) by (auto simp: unat_eq_0 [symmetric])
    then show "m x = hdr h x" using x c_unat by (intro assms) simp_all
  qed
  then show ?thesis using before by simp
qed

text \<open>To rebuild a heap it is enough to give the new blocks from the focus on.\<close>

lemma rebuild:
  assumes "\<And>x :: u64. unat x < unat c \<Longrightarrow> x \<noteq> 0 \<Longrightarrow> hdr h' x = hdr h x"
    and "zs \<noteq> []" and "blocks (hdr h') (last_addr 0 (heapStart h) xs) c zs 0"
    and "LastHdr h' = last_addr c c zs"
    and "heapStart h' = heapStart h" "unat c + bytes zs = unat (heapEnd h')" "unat (heapEnd h') < 2 ^ 63"
  shows "heap_of h' (xs @ zs)"
proof -
  have "blocks (hdr h') 0 (heapStart h) xs c" using assms(1) by (rule before_frame)
  moreover have "last_addr (last_addr 0 (heapStart h) xs) c zs = last_addr c c zs"
    using assms(2) by (rule last_addr_snoc_nonempty)
  ultimately show ?thesis
    using assms start c_unat unfolding heap_of_def blocks_append
    by (simp add: c_def [symmetric])
qed

lemma behind_frame:
  assumes "\<And>x. unat e \<le> unat x \<Longrightarrow> unat x < unat (heapEnd h) \<Longrightarrow> m x = hdr h x"
  shows "blocks m c e ys 0"
proof -
  have "blocks m c e ys 0 = blocks (hdr h) c e ys 0"
    using assms end_unat start by (intro blocks_frame) simp_all
  then show ?thesis using behind by simp
qed

lemma set_Free:
  "heap_of (at c (\<lambda>b. b\<lparr>Free := v\<rparr>) h) (xs @ (n, v) # ys)"
proof (rule rebuild)
  have "blocks ((hdr h)(c := hdr h c\<lparr>Free := v\<rparr>)) c e ys 0"
    using e_unat by (intro behind_frame) auto
  then show "blocks (hdr (at c (\<lambda>b. b\<lparr>Free := v\<rparr>) h)) (last_addr 0 (heapStart h) xs) c ((n, v) # ys) 0"
    by (simp add: at_def here e_def)
qed (use start c_unat last in \<open>auto simp: at_def e_def\<close>)

lemma forward_unchanged:
  assumes "ys = [] \<or> \<not> snd (hd ys)"
  shows "CombineForward c h = h"
proof (cases ys)
  case Nil
  then show ?thesis by (simp add: CombineForward_def here)
next
  case (Cons y zs)
  then have "hdr h e = \<lparr>Length = fst y, Next = (if zs = [] then 0 else e + header_size + fst y),
      Prev = c, Free = False\<rparr>" using behind assms by simp
  then show ?thesis using Cons by (simp add: CombineForward_def here Let_def)
qed

lemma forward_merge:
  assumes ys: "ys = (n', True) # zs"
  shows "heap_of (CombineForward c h) (xs @ (n + n' + header_size, f) # zs)"
proof -
  define d where "d = e + header_size + n'"
  have d_unat: "unat d = unat e + 32 + unat n'"
    unfolding d_def using end_unat start ys by (intro unat_block_end) simp
  have next_hdr: "hdr h e = \<lparr>Length = n', Next = (if zs = [] then 0 else d), Prev = c, Free = True\<rparr>"
    and rest: "blocks (hdr h) e d zs 0"
    using behind ys by (simp_all add: d_def)
  have ce: "c \<noteq> e" "c \<noteq> d" "e \<noteq> d" "d \<noteq> 0" using e_unat d_unat by (auto simp: unat_eq_0)
  let ?m = "(if zs = [] then hdr h else (hdr h)(d := hdr h d\<lparr>Prev := c\<rparr>))
      (c := \<lparr>Length = n + n' + header_size, Next = (if zs = [] then 0 else d),
             Prev = last_addr 0 (heapStart h) xs, Free = f\<rparr>)"
  have last': "LastHdr h = last_addr e d zs" using last ys by (simp add: d_def)
  have lst: "zs = [] \<Longrightarrow> LastHdr h = e" "zs \<noteq> [] \<Longrightarrow> e \<noteq> LastHdr h"
    using last' last_addr_below [of zs d e] d_unat end_unat start ys by auto
  have res: "CombineForward c h = h\<lparr>hdr := ?m, LastHdr := (if zs = [] then c else LastHdr h)\<rparr>"
    using here next_hdr ys e_pos ce lst
    by (cases "zs = []") (simp_all add: CombineForward_def Let_def at_def fun_upd_twist)
  have bs: "blocks ?m c d zs 0"
  proof (cases "zs = []")
    case False
    have room: "unat d + bytes zs < 2 ^ 64" using d_unat end_unat start ys by simp
    have "blocks ?m c d zs 0 = blocks ((hdr h)(d := hdr h d\<lparr>Prev := c\<rparr>)) c d zs 0"
      using False room e_unat d_unat by (intro blocks_frame) auto
    then show ?thesis using blocks_set_Prev [OF rest room] by simp
  qed simp
  have e': "c + header_size + (n + n' + header_size) = d" by (simp add: d_def e_def)
  show ?thesis
  proof (rule rebuild)
    show "hdr (CombineForward c h) x = hdr h x" if "unat x < unat c" for x
      using that e_unat d_unat by (auto simp: res)
    show "blocks (hdr (CombineForward c h)) (last_addr 0 (heapStart h) xs) c
        ((n + n' + header_size, f) # zs) 0"
      using bs by (simp add: res e')
    show "LastHdr (CombineForward c h) = last_addr c c ((n + n' + header_size, f) # zs)"
      using last' last_addr_snoc_nonempty [of zs c d e] by (simp add: res e')
    have "unat (n + n' + header_size) = unat n + unat n' + 32"
      using d_unat e_unat end_unat start ys
      by (subst unat_add_no_wrap; subst unat_add_no_wrap) simp_all
    then show "unat c + bytes ((n + n' + header_size, f) # zs) = unat (heapEnd (CombineForward c h))"
      using end_unat e_unat ys by (simp add: res)
  qed (use start in \<open>simp_all add: res\<close>)
qed

end

lemma focusI: "heap_of h (xs @ (n, f) # ys) \<Longrightarrow> focus h xs n f ys"
  by (rule focus.intro)
section \<open>Splitting\<close>

lemma split_guard:
  fixes n s :: u64
  assumes "s \<le> n" and "unat n < 2 ^ 63"
  shows "sint (n - s - header_size) < 16 \<longleftrightarrow> unat n < unat s + 48"
proof -
  define d where "d = unat (n - s)"
  have d: "d = unat n - unat s" "unat s \<le> unat n"
    using assms(1) by (simp_all add: d_def unat_sub word_le_nat_alt)
  have "n - s = word_of_nat d" by (simp add: d_def)
  then have "n - s - header_size = word_of_int (int d - 32)" by simp
  moreover have "sint (word_of_int (int d - 32) :: u64) = int d - 32"
  proof -
    have "sint (word_of_int (int d - 32) :: u64) = signed_take_bit 63 (int d - 32)"
      by (subst sint_sbintrunc') simp
    also have "\<dots> = int d - 32"
    proof (rule signed_take_bit_int_eq_self)
      have "d < 2 ^ 63" using d assms(2) by linarith
      then have "int d < int (2 ^ 63)" by (simp only: of_nat_less_iff)
      then show "int d - 32 < 2 ^ 63" by simp
    qed simp
    finally show ?thesis .
  qed
  ultimately have "sint (n - s - header_size) = int d - 32" by (simp only:)
  then show ?thesis using d by linarith
qed

context focus begin

lemma split_refused:
  assumes "s \<le> n" and "unat n < unat s + 48"
  shows "Split c s h = (0, h)"
proof -
  have "unat n < 2 ^ 63" using start c_unat by simp
  then have "sint (n - s - header_size) < 16" using assms split_guard by blast
  then show ?thesis by (simp add: Split_def here Let_def)
qed

lemma split_done:
  assumes "0x10 \<le> s" "unat s + 48 \<le> unat n"
  shows "heap_of (snd (Split c s h)) (xs @ (s, f) # (n - s - header_size, f) # ys)
    \<and> heapStart (snd (Split c s h)) = heapStart h \<and> hvm (snd (Split c s h)) = hvm h"
proof -
  define d where "d = c + header_size + s"
  define n' where "n' = n - s - header_size"
  have sn: "s \<le> n" using assms(2) by (simp add: word_le_nat_alt)
  have room: "unat n < 2 ^ 63" using start c_unat by simp
  have d_unat: "unat d = unat c + 32 + unat s"
    unfolding d_def using start c_unat assms(2) by (intro unat_block_end) simp
  have n'_unat: "unat n' = unat n - unat s - 32"
    unfolding n'_def using assms(2) by (subst unat_sub_no_wrap; subst unat_sub_no_wrap) simp_all
  have guard: "\<not> sint (n - s - header_size) < 16"
    using split_guard [OF sn room] assms(2) by simp
  have ne: "c \<noteq> d" "d \<noteq> e" "c \<noteq> e" "d \<noteq> 0" "c \<noteq> 0" "e \<noteq> 0"
  proof -
    have "unat c \<noteq> unat d" "unat d \<noteq> unat e" "unat c \<noteq> unat e" "unat d \<noteq> 0"
      using d_unat e_unat assms(2) by simp_all
    then show "c \<noteq> d" "d \<noteq> e" "c \<noteq> e" "d \<noteq> 0" by auto
  qed (fact c_pos e_pos)+
  have big: "\<not> s < 0x10" using assms(1) by simp
  define g where "g = (if ys = [] then 0 else e)"
  have g: "c \<noteq> g" "d \<noteq> g" using ne by (simp_all add: g_def)
  let ?m = "(hdr h)(g := hdr h g\<lparr>Prev := d\<rparr>,
      d := \<lparr>Length = n', Next = g, Prev = c, Free = f\<rparr>,
      c := \<lparr>Length = s, Next = d, Prev = last_addr 0 (heapStart h) xs, Free = f\<rparr>)"
  have res: "snd (Split c s h) = h\<lparr>hdr := ?m, LastHdr := (if LastHdr h = c then d else LastHdr h)\<rparr>"
  proof -
    have hc: "hdr h c = \<lparr>Length = n, Next = g, Prev = last_addr 0 (heapStart h) xs, Free = f\<rparr>"
      by (simp add: here g_def)
    have dd: "c + s + header_size = d" by (simp add: d_def)
    note neq = ne ne [symmetric] g g [symmetric]
    show ?thesis
    proof (rule kheap.equality)
      show "hdr (snd (Split c s h)) = hdr (h\<lparr>hdr := ?m, LastHdr := (if LastHdr h = c then d else LastHdr h)\<rparr>)"
        using guard neq big by (simp add: Split_def Let_def at_def hc dd n'_def fun_eq_iff)
    qed (use guard neq big in \<open>simp_all add: Split_def Let_def at_def hc dd n'_def\<close>)
  qed
  have ebs: "blocks ?m d e ys 0"
  proof (cases "ys = []")
    case False
    then have "g = e" by (simp add: g_def)
    have fit: "unat e + bytes ys < 2 ^ 64" using end_unat start by simp
    have "blocks ?m d e ys 0 = blocks ((hdr h)(e := hdr h e\<lparr>Prev := d\<rparr>)) d e ys 0"
      using fit e_unat d_unat assms(2) unfolding \<open>g = e\<close> by (intro blocks_frame) auto
    then show ?thesis using blocks_set_Prev [OF behind fit] by simp
  qed simp
  have e': "d + header_size + n' = e" by (simp add: d_def n'_def e_def)
  have "LastHdr h = c \<longleftrightarrow> ys = []"
    using last last_addr_below [of ys e c] e_unat end_unat start ne by (cases "ys = []") auto
  then have last': "LastHdr (snd (Split c s h)) = last_addr d e ys"
    using last last_addr_snoc_nonempty [of ys c e d] by (auto simp: res)
  have "heap_of (snd (Split c s h)) (xs @ (s, f) # (n', f) # ys)"
  proof (rule rebuild)
    show "hdr (snd (Split c s h)) x = hdr h x" if "unat x < unat c" "x \<noteq> 0" for x
      using that e_unat d_unat by (auto simp: res g_def)
    show "blocks (hdr (snd (Split c s h))) (last_addr 0 (heapStart h) xs) c ((s, f) # (n', f) # ys) 0"
      using ebs ne g by (simp add: res d_def [symmetric] e' g_def)
    show "LastHdr (snd (Split c s h)) = last_addr c c ((s, f) # (n', f) # ys)"
      using last' by (simp add: d_def [symmetric] e')
    show "unat c + bytes ((s, f) # (n', f) # ys) = unat (heapEnd (snd (Split c s h)))"
      using n'_unat assms(2) end_unat e_unat by (simp add: res)
  qed (use start in \<open>simp_all add: res\<close>)
  then show ?thesis by (simp add: n'_def res)
qed

end

section \<open>Searching\<close>

definition fits :: "u64 \<Rightarrow> block \<Rightarrow> bool" where
  "fits s b \<longleftrightarrow> snd b \<and> s \<le> fst b"

lemma find_block_hit:
  assumes "blocks m p a (xs @ b # ys) q" and "\<forall>x \<in> set xs. \<not> fits s x" and "fits s b"
    and "unat a + bytes (xs @ b # ys) < 2 ^ 64"
  shows "find_block m s a = Some (Some (addr_after a xs))"
  using assms
proof (induction xs arbitrary: p a)
  case Nil
  then show ?case by (subst find_block.simps) (simp add: fits_def)
next
  case (Cons x xs)
  have e: "unat (a + header_size + fst x) = unat a + 32 + unat (fst x)"
    using Cons.prems(4) by (intro unat_block_end) simp
  then have "a + header_size + fst x \<noteq> 0" by (auto simp: unat_eq_0)
  moreover have "find_block m s (a + header_size + fst x)
      = Some (Some (addr_after (a + header_size + fst x) xs))"
    using Cons.prems e by (intro Cons.IH [of a]) simp_all
  ultimately show ?case using Cons.prems by (subst find_block.simps) (auto simp: fits_def)
qed

lemma find_block_miss:
  assumes "blocks m p a bs 0" and "bs \<noteq> []" and "\<forall>x \<in> set bs. \<not> fits s x"
    and "unat a + bytes bs < 2 ^ 64"
  shows "find_block m s a = Some None"
  using assms
proof (induction bs arbitrary: p a)
  case Nil
  then show ?case by simp
next
  case (Cons x bs)
  have e: "unat (a + header_size + fst x) = unat a + 32 + unat (fst x)"
    using Cons.prems(4) by (intro unat_block_end) simp
  show ?case
  proof (cases "bs = []")
    case True
    then show ?thesis using Cons.prems by (subst find_block.simps) (auto simp: fits_def)
  next
    case False
    have "a + header_size + fst x \<noteq> 0" using e by (auto simp: unat_eq_0)
    moreover have "find_block m s (a + header_size + fst x) = Some None"
      using Cons.prems e False by (intro Cons.IH [of a]) simp_all
    ultimately show ?thesis using Cons.prems False
      by (subst find_block.simps) (auto simp: fits_def)
  qed
qed

section \<open>The operations on the list of blocks\<close>

definition carve :: "u64 \<Rightarrow> u64 \<Rightarrow> block list" where
  "carve s n = (if unat n < unat s + 48 then [(n, False)]
                else [(s, False), (n - s - header_size, True)])"

fun absorb :: "u64 \<Rightarrow> block list \<Rightarrow> block list" where
  "absorb n ((m, True) # ys) = (n + m + header_size, True) # ys"
| "absorb n ys = (n, True) # ys"

definition release :: "block list \<Rightarrow> u64 \<Rightarrow> block list \<Rightarrow> block list" where
  "release xs n ys =
     (case absorb n ys of
        b # zs \<Rightarrow> if xs \<noteq> [] \<and> snd (last xs)
                  then butlast xs @ (fst (last xs) + fst b + header_size, True) # zs
                  else xs @ b # zs
      | [] \<Rightarrow> [])"

lemma absorb_shape: "\<exists>m zs. absorb n ys = (m, True) # zs"
  by (induction n ys rule: absorb.induct) simp_all

lemma heap_regs [simp]:
  "heapStart (at a g h) = heapStart h" "heapEnd (at a g h) = heapEnd h" "hvm (at a g h) = hvm h"
  "LastHdr (at a g h) = LastHdr h"
  by (simp_all add: at_def)

lemma Combine_regs [simp]:
  "heapStart (CombineForward a h) = heapStart h" "heapEnd (CombineForward a h) = heapEnd h"
  "hvm (CombineForward a h) = hvm h"
  "heapStart (CombineBackward a h) = heapStart h" "heapEnd (CombineBackward a h) = heapEnd h"
  "hvm (CombineBackward a h) = hvm h"
  by (simp_all add: CombineForward_def CombineBackward_def Let_def)

context focus begin

lemma take_block_spec:
  assumes "f" and "s \<le> n" and "0x10 \<le> s"
  shows "fst (take_block c s h) = c + header_size
    \<and> heap_of (snd (take_block c s h)) (xs @ carve s n @ ys)
    \<and> heapStart (snd (take_block c s h)) = heapStart h"
proof (cases "unat n < unat s + 48")
  case True
  have "(if Length (hdr h c) > s then snd (Split c s h) else h) = h"
    using split_refused [OF assms(2) True] by simp
  then show ?thesis using set_Free [of False] True
    by (simp add: take_block_def Let_def carve_def)
next
  case False
  then have sn: "unat s + 48 \<le> unat n" by simp
  then have "s < n" by (simp add: word_less_nat_alt)
  then have cond: "Length (hdr h c) > s" by (simp add: here)
  note split = split_done [OF assms(3) sn]
  have F: "focus (snd (Split c s h)) xs s f ((n - s - header_size, f) # ys)"
    using split by (intro focus.intro) simp
  have "focus.c (snd (Split c s h)) xs = c"
    using split focus.c_def [OF F] by (simp add: c_def)
  then show ?thesis using focus.set_Free [OF F, of False] False split cond assms(1)
    by (simp add: take_block_def Let_def carve_def)
qed

lemma backward:
  assumes "ys = (n', g) # zs"
  shows "CombineBackward e h = (if f then CombineForward c h else h)"
proof -
  have "hdr h e = \<lparr>Length = n', Next = (if zs = [] then 0 else e + header_size + n'), Prev = c, Free = g\<rparr>"
    using behind assms by simp
  then show ?thesis using c_pos by (simp add: CombineBackward_def here)
qed

lemma backward_first:
  assumes "xs = []"
  shows "CombineBackward c h = h"
  using here assms by (simp add: CombineBackward_def)

lemma absorb_spec:
  assumes "f" and "absorb n ys = (m, True) # zs"
  shows "heap_of (CombineForward c h) (xs @ (m, True) # zs)"
proof (cases "\<exists>n' ys'. ys = (n', True) # ys'")
  case True
  then show ?thesis using forward_merge assms by auto
next
  case False
  then have "ys = [] \<or> \<not> snd (hd ys)" by (cases ys) auto
  moreover from False have "absorb n ys = (n, True) # ys"
    by (cases "(n, ys)" rule: absorb.cases) auto
  ultimately show ?thesis using forward_unchanged heap assms by simp
qed

end

lemma focus_c: "focus h xs n f ys \<Longrightarrow> focus.c h xs = addr_after (heapStart h) xs"
  by (rule focus.c_def)

lemma focus_e:
  "focus h xs n f ys \<Longrightarrow> focus.e h xs n = addr_after (heapStart h) xs + header_size + n"
  by (simp add: focus.e_def focus.c_def)

lemma free_spec:
  assumes "heap_of h (xs @ (n, f) # ys)"
  shows "heap_of (free (addr_after (heapStart h) xs + header_size) h) (release xs n ys)
    \<and> heapStart (free (addr_after (heapStart h) xs + header_size) h) = heapStart h"
proof -
  let ?c = "addr_after (heapStart h) xs"
  let ?h1 = "at ?c (\<lambda>b. b\<lparr>Free := True\<rparr>) h"
  let ?h2 = "CombineForward ?c ?h1"
  obtain m zs where ab: "absorb n ys = (m, True) # zs" using absorb_shape by blast
  have F: "focus h xs n f ys" using assms by (rule focusI)
  have h1: "heap_of ?h1 (xs @ (n, True) # ys)"
    using focus.set_Free [OF F, of True] by (simp only: focus_c [OF F])
  have F1: "focus ?h1 xs n True ys" using h1 by (rule focusI)
  have h2: "heap_of ?h2 (xs @ (m, True) # zs)"
    using focus.absorb_spec [OF F1 TrueI ab] by (simp add: focus_c [OF F1])
  have res: "free (?c + header_size) h = CombineBackward ?c ?h2"
    by (simp add: free_def Let_def)
  show ?thesis
  proof (cases "xs = []")
    case True
    have F2: "focus ?h2 xs m True zs" using h2 by (rule focusI)
    have "CombineBackward ?c ?h2 = ?h2"
      using focus.backward_first [OF F2 True] by (simp add: focus_c [OF F2])
    then show ?thesis unfolding res using h2 True by (simp add: release_def ab)
  next
    case False
    then obtain xs' n0 g where xs: "xs = xs' @ [(n0, g)]" by (metis append_butlast_last_id surj_pair)
    have F2: "focus ?h2 xs' n0 g ((m, True) # zs)" using h2 xs by (intro focusI) simp
    have c: "focus.e ?h2 xs' n0 = ?c" using focus_e [OF F2] by (simp add: xs)
    have "CombineBackward ?c ?h2 = (if g then CombineForward (focus.c ?h2 xs') ?h2 else ?h2)"
      using focus.backward [OF F2 refl] by (simp only: c)
    moreover have "g \<Longrightarrow> heap_of (CombineForward (focus.c ?h2 xs') ?h2)
        (xs' @ (n0 + m + header_size, True) # zs)"
      using focus.forward_merge [OF F2 refl] by simp
    ultimately show ?thesis unfolding res using h2 by (auto simp: release_def ab xs)
  qed
qed

section \<open>Growing\<close>

definition grow :: "u64 \<Rightarrow> block list \<Rightarrow> block list" where
  "grow L bs = (if snd (last bs) then butlast bs @ [(fst (last bs) + L, True)]
                else bs @ [(L - header_size, True)])"

lemma expand_loop:
  "heapStart (u64_for k (\<lambda>i. expand_page) 0 h) = heapStart h
   \<and> hdr (u64_for k (\<lambda>i. expand_page) 0 h) = hdr h
   \<and> LastHdr (u64_for k (\<lambda>i. expand_page) 0 h) = LastHdr h"
  by (rule u64_for_invariant) (auto simp: expand_page_def split: prod.splits)

lemma heapEnd_ExpandHeap:
  "heapEnd (ExpandHeap s h) = heapEnd (u64_for (page_round s div 0x1000) (\<lambda>i. expand_page) 0 h)"
  by (simp add: ExpandHeap_def Let_def)

lemma header_fields:
  "b\<lparr>Free := f, Prev := p, Next := q, Length := n\<rparr>
    = \<lparr>Length = n, Next = q, Prev = p, Free = f\<rparr>"
  by (cases b) simp

lemma ExpandHeap_spec:
  assumes "heap_of h bs" and full: "heapEnd (ExpandHeap s h) = heapEnd h + page_round s"
    and room: "unat (heapEnd h) + unat (page_round s) < 2 ^ 63" and "32 \<le> unat (page_round s)"
  shows "heap_of (ExpandHeap s h) (grow (page_round s) bs)
    \<and> heapStart (ExpandHeap s h) = heapStart h"
proof -
  let ?L = "page_round s"
  obtain xs n f where bs: "bs = xs @ [(n, f)]"
    using assms(1) by (metis append_butlast_last_id heap_of_def surj_pair)
  have F: "focus h xs n f []" using assms(1) bs by (intro focusI) simp
  define c where "c = focus.c h xs"
  define e where "e = focus.e h xs n"
  have e_end: "unat e = unat (heapEnd h)" using focus.end_unat [OF F] by (simp add: e_def)
  then have e: "e = heapEnd h" by (simp only: word_eq_iff_unat [of e "heapEnd h"])
  have lastc: "LastHdr h = c" using focus.last [OF F] by (simp add: c_def)
  have ce: "c \<noteq> e" "unat c < unat e" using focus.e_unat [OF F] by (auto simp: c_def e_def)
  define h1 where "h1 = u64_for (?L div 0x1000) (\<lambda>i. expand_page) 0 h"
  have h1: "heapStart h1 = heapStart h" "hdr h1 = hdr h" "LastHdr h1 = LastHdr h"
    "heapEnd h1 = heapEnd h + ?L"
    using expand_loop [of "?L div 0x1000" h] full by (simp_all add: h1_def heapEnd_ExpandHeap)
  define h2 where "h2 = h1\<lparr>LastHdr := e, hdr := (hdr h)
      (c := hdr h c\<lparr>Next := e\<rparr>,
       e := \<lparr>Length = ?L - header_size, Next = 0, Prev = c, Free = True\<rparr>)\<rparr>"
  have res: "ExpandHeap s h = CombineBackward e h2"
    using ce(1) by (simp add: ExpandHeap_def Let_def h1_def [symmetric] h2_def at_def h1 lastc e
        fun_upd_twist header_fields)
  have here: "hdr h c = \<lparr>Length = n, Next = 0, Prev = last_addr 0 (heapStart h) xs, Free = f\<rparr>"
    using focus.here [OF F] by (simp add: c_def)
  have ec: "c + header_size + n = e" by (simp add: c_def e_def focus_c [OF F] focus_e [OF F])
  have "heap_of h2 (xs @ [(n, f), (?L - header_size, True)])"
  proof (rule focus.rebuild [OF F])
    show "hdr h2 x = hdr h x" if "unat x < unat (focus.c h xs)" for x
      using that ce by (auto simp: h2_def c_def)
    show "blocks (hdr h2) (last_addr 0 (heapStart h) xs) (focus.c h xs)
        [(n, f), (?L - header_size, True)] 0"
      using ce(1) here ec by (simp add: h2_def c_def [symmetric])
    show "LastHdr h2 = last_addr (focus.c h xs) (focus.c h xs) [(n, f), (?L - header_size, True)]"
      using ec by (simp add: h2_def c_def [symmetric])
    have "unat (heapEnd h + ?L) = unat (heapEnd h) + unat ?L"
      using room by (subst unat_add_no_wrap) simp_all
    moreover have "unat (?L - header_size) = unat ?L - 32"
      using assms(4) by (subst unat_sub_no_wrap) simp_all
    ultimately show "unat (focus.c h xs) + bytes [(n, f), (?L - header_size, True)] = unat (heapEnd h2)"
      and "unat (heapEnd h2) < 2 ^ 63"
      using focus.e_unat [OF F] assms(4) e_end room by (simp_all add: h2_def h1 e_def)
  qed (simp_all add: h2_def h1)
  then have F2: "focus h2 xs n f [(?L - header_size, True)]" by (intro focusI)
  have "heapStart h2 = heapStart h" by (simp add: h2_def h1)
  then have e2: "focus.e h2 xs n = e" using focus_e [OF F2] focus_e [OF F] by (simp add: e_def)
  have "CombineBackward e h2 = (if f then CombineForward (focus.c h2 xs) h2 else h2)"
    using focus.backward [OF F2 refl] by (simp only: e2)
  moreover have "f \<Longrightarrow> heap_of (CombineForward (focus.c h2 xs) h2) (xs @ [(n + ?L, True)])"
    using focus.forward_merge [OF F2 refl] by simp
  ultimately show ?thesis
    using focus.heap [OF F2] unfolding res by (auto simp: grow_def bs h2_def h1)
qed

section \<open>Allocated blocks\<close>

text \<open>The blocks in use, as pairs of header address and length.\<close>

primrec used :: "u64 \<Rightarrow> block list \<Rightarrow> (u64 \<times> u64) set" where
  "used a [] = {}"
| "used a (b # bs) = (if snd b then {} else {(a, fst b)}) \<union> used (a + header_size + fst b) bs"

definition kernel_heap :: "kheap \<Rightarrow> (u64 \<times> u64) set \<Rightarrow> bool" where
  "kernel_heap h U \<longleftrightarrow> (\<exists>bs. heap_of h bs \<and> coalesced bs \<and> U = used (heapStart h) bs)"

lemma used_append [simp]: "used a (xs @ ys) = used a xs \<union> used (addr_after a xs) ys"
  by (induction xs arbitrary: a) auto

lemma used_split:
  "(p, n) \<in> used a bs \<Longrightarrow> \<exists>xs ys. bs = xs @ (n, False) # ys \<and> p = addr_after a xs"
proof (induction bs arbitrary: a)
  case Nil
  then show ?case by simp
next
  case (Cons b bs)
  then consider "\<not> snd b" "p = a" "n = fst b" | "(p, n) \<in> used (a + header_size + fst b) bs"
    by (auto split: if_splits)
  then show ?case
  proof cases
    case 1
    then have "b # bs = [] @ (n, False) # bs" "p = addr_after a []" by (cases b; simp)+
    then show ?thesis by blast
  next
    case 2
    then obtain xs ys where "bs = xs @ (n, False) # ys" "p = addr_after (a + header_size + fst b) xs"
      using Cons.IH by blast
    then have "b # bs = (b # xs) @ (n, False) # ys" "p = addr_after a (b # xs)" by simp_all
    then show ?thesis by blast
  qed
qed

lemma used_bounds:
  assumes "(p, n) \<in> used a bs" and "unat a + bytes bs < 2 ^ 64"
  shows "unat a \<le> unat p \<and> unat p + 32 + unat n \<le> unat a + bytes bs"
proof -
  obtain xs ys where bs: "bs = xs @ (n, False) # ys" and p: "p = addr_after a xs"
    using used_split [OF assms(1)] by blast
  have "unat p = unat a + bytes xs"
    unfolding p using assms(2) bs by (intro unat_addr_after) simp
  then show ?thesis using bs by simp
qed

lemma used_disjoint:
  assumes "(p, n) \<in> used a bs" "(q, m) \<in> used a bs" "(p, n) \<noteq> (q, m)"
    and "unat a + bytes bs < 2 ^ 64"
  shows "unat p + 32 + unat n \<le> unat q \<or> unat q + 32 + unat m \<le> unat p"
proof -
  obtain xs ys where bs: "bs = xs @ (n, False) # ys" and p: "p = addr_after a xs"
    using used_split [OF assms(1)] by blast
  have pu: "unat p = unat a + bytes xs"
    unfolding p using assms(4) bs by (intro unat_addr_after) simp
  have e: "unat (p + header_size + n) = unat p + 32 + unat n"
    using pu assms(4) bs by (intro unat_block_end) simp
  from assms(2,3) consider "(q, m) \<in> used a xs" | "(q, m) \<in> used (p + header_size + n) ys"
    by (auto simp: bs p)
  then show ?thesis
  proof cases
    case 1
    then show ?thesis using used_bounds [OF 1] assms(4) bs pu by simp
  next
    case 2
    then show ?thesis using used_bounds [OF 2] assms(4) bs pu e by simp
  qed
qed

lemma used_carve:
  "used c (carve s n) = {(c, if unat n < unat s + 48 then n else s)}"
  "addr_after c (carve s n) = c + header_size + n"
  by (simp_all add: carve_def)

lemma coalesced_carve:
  "coalesced (xs @ (n, True) # ys) \<Longrightarrow> coalesced (xs @ carve s n @ ys)"
  by (cases ys) (auto simp: carve_def coalesced_append)

lemma coalesced_release:
  assumes "coalesced (xs @ (n, False) # ys)"
  shows "coalesced (release xs n ys)"
proof -
  obtain m zs where ab: "absorb n ys = (m, True) # zs" using absorb_shape by blast
  have zs: "coalesced ((k, True) # zs)" for k
    using assms ab by (cases "(n, ys)" rule: absorb.cases) (auto simp: coalesced_append, (cases zs; auto)+)
  show ?thesis
  proof (cases xs rule: rev_cases)
    case Nil
    then show ?thesis using zs by (simp add: release_def ab)
  next
    case (snoc xs' b)
    have "release xs n ys = (if snd b then xs' @ (fst b + m + header_size, True) # zs
        else xs' @ b # (m, True) # zs)"
      by (simp add: release_def ab snoc)
    then show ?thesis using assms zs unfolding snoc
      by (cases xs' rule: rev_cases) (auto simp: coalesced_append split: if_splits)
  qed
qed

lemma used_release:
  "used a (release xs n ys) = used a xs \<union> used (addr_after a xs + header_size + n) ys"
proof -
  have ab: "used c (absorb n ys) = used (c + header_size + n) ys" for c
    by (cases "(n, ys)" rule: absorb.cases) (simp_all add: algebra_simps)
  obtain m zs where s: "absorb n ys = (m, True) # zs" using absorb_shape by blast
  have u: "used (c + header_size + m) zs = used (c + header_size + n) ys" for c
    using ab [of c] s by simp
  show ?thesis
  proof (cases xs rule: rev_cases)
    case Nil
    then show ?thesis using u by (simp add: release_def s)
  next
    case (snoc xs' b)
    then show ?thesis
      using u [of "addr_after a xs' + header_size + fst b"]
      by (simp add: release_def s algebra_simps)
  qed
qed

lemma used_grow: "used a (grow L bs) = used a bs" if "bs \<noteq> []"
  using that by (cases bs rule: rev_cases) (auto simp: grow_def)

lemma coalesced_grow: "coalesced bs \<Longrightarrow> coalesced (grow L bs)" if "bs \<noteq> []"
  using that by (cases bs rule: rev_cases)
    (auto simp: grow_def coalesced_append, (metis coalesced.simps(3) coalesced_append)?)

section \<open>malloc\<close>

lemma malloc_round_mod: "malloc_round s mod 0x10 = 0" if "unat s < 2 ^ 62"
proof (cases "s mod 0x10 > 0")
  case True
  have u: "unat (s - s mod 0x10) = unat s - unat s mod 16"
    by (subst unat_sub_no_wrap) (simp_all add: unat_mod_distrib)
  have "unat (malloc_round s) = unat s - unat s mod 16 + 16"
    using True that u by (simp add: malloc_round_def) (subst unat_add_no_wrap, simp_all)
  then have "unat (malloc_round s) mod 16 = 0" by (simp add: minus_mod_eq_div_mult)
  then have "unat (malloc_round s mod 0x10) = 0" by (simp add: unat_mod_distrib)
  then show ?thesis by (simp add: unat_eq_0)
next
  case False
  then show ?thesis by (simp add: malloc_round_def word_gt_0)
qed

lemma malloc_round_bounds:
  assumes "0 < unat s" "unat s < 2 ^ 62"
  shows "unat s \<le> unat (malloc_round s)" "16 \<le> unat (malloc_round s)"
    "unat (malloc_round s) \<le> unat s + 16"
    "malloc_round (malloc_round s) = malloc_round s"
proof -
  have m: "unat s mod 16 < 16" by simp
  have u: "unat (s - s mod 0x10) = unat s - unat s mod 16"
    by (subst unat_sub_no_wrap) (simp_all add: unat_mod_distrib)
  have "unat (malloc_round s) = (if s mod 0x10 > 0 then unat s - unat s mod 16 + 16 else unat s)"
    using assms(2) u by (simp add: malloc_round_def) (intro impI, subst unat_add_no_wrap, simp_all)
  moreover have "\<not> s mod 0x10 > 0 \<Longrightarrow> unat s mod 16 = 0"
    by (simp add: word_gt_0 word_eq_iff_unat unat_mod_distrib)
  ultimately show "unat s \<le> unat (malloc_round s)" "16 \<le> unat (malloc_round s)"
    "unat (malloc_round s) \<le> unat s + 16"
    using m assms(1) by (auto split: if_splits) 
  show "malloc_round (malloc_round s) = malloc_round s"
    using malloc_round_mod [OF assms(2)] by (simp add: malloc_round_def [of "malloc_round s"])
qed

lemma page_round_bounds:
  assumes "0 < unat s" "unat s < 2 ^ 62"
  shows "unat s \<le> unat (page_round s)" "4096 \<le> unat (page_round s)"
proof -
  have m: "unat s mod 4096 < 4096" by simp
  have u: "unat (s - s mod 0x1000) = unat s - unat s mod 4096"
    by (subst unat_sub_no_wrap) (simp_all add: unat_mod_distrib)
  have "unat (page_round s) = (if s mod 0x1000 \<noteq> 0 then unat s - unat s mod 4096 + 4096 else unat s)"
    using assms(2) u by (simp add: page_round_def) (intro impI, subst unat_add_no_wrap, simp_all)
  moreover have "s mod 0x1000 = 0 \<Longrightarrow> unat s mod 4096 = 0"
    by (simp add: word_eq_iff_unat unat_mod_distrib)
  ultimately show "unat s \<le> unat (page_round s)" "4096 \<le> unat (page_round s)"
    using m assms(1) by (auto split: if_splits)
qed

lemma heap_room: "heap_of h bs \<Longrightarrow> unat (heapStart h) + bytes bs < 2 ^ 64"
  by (simp add: heap_of_def)

lemma find_block_heap:
  assumes "heap_of h bs"
  shows "find_block (hdr h) s (heapStart h) = Some None \<longleftrightarrow> (\<forall>b \<in> set bs. \<not> fits s b)"
    and "find_block (hdr h) s (heapStart h) \<noteq> None"
proof -
  note room = heap_room [OF assms]
  have blk: "blocks (hdr h) 0 (heapStart h) bs 0" "bs \<noteq> []" using assms by (simp_all add: heap_of_def)
  have "(find_block (hdr h) s (heapStart h) = Some None \<longleftrightarrow> (\<forall>b \<in> set bs. \<not> fits s b))
      \<and> find_block (hdr h) s (heapStart h) \<noteq> None"
  proof (cases "\<exists>b \<in> set bs. fits s b")
    case True
    then obtain xs b ys where bs: "bs = xs @ b # ys" "fits s b" "\<forall>x \<in> set xs. \<not> fits s x"
      using split_list_first_prop [OF True] by blast
    have "find_block (hdr h) s (heapStart h) = Some (Some (addr_after (heapStart h) xs))"
      using blk room bs by (intro find_block_hit) simp_all
    then show ?thesis using bs by auto
  next
    case False
    then have "find_block (hdr h) s (heapStart h) = Some None"
      using blk room by (intro find_block_miss) auto
    then show ?thesis using False by auto
  qed
  then show "find_block (hdr h) s (heapStart h) = Some None \<longleftrightarrow> (\<forall>b \<in> set bs. \<not> fits s b)"
    and "find_block (hdr h) s (heapStart h) \<noteq> None" by blast+
qed

text \<open>A call that succeeds as it should: \<open>U\<close> are the blocks in use before.\<close>

definition allocates :: "u64 \<Rightarrow> kheap \<Rightarrow> (u64 \<times> u64) set \<Rightarrow> bool" where
  "allocates s h U \<longleftrightarrow> (\<exists>p n h'. malloc s h = Some (p, h') \<and> unat s \<le> unat n
     \<and> (p - header_size, n) \<notin> U \<and> kernel_heap h' (insert (p - header_size, n) U))"

lemma allocates_via:
  assumes "allocates r h' U" and "malloc s h = malloc r h'" and "unat s \<le> unat r"
  shows "allocates s h U"
proof -
  obtain p n h'' where "malloc r h' = Some (p, h'')" "unat r \<le> unat n" "(p - header_size, n) \<notin> U"
    "kernel_heap h'' (insert (p - header_size, n) U)"
    using assms(1) unfolding allocates_def by blast
  then show ?thesis
    unfolding allocates_def assms(2) using assms(3) by (intro exI [of _ p] exI [of _ n] exI [of _ h'']) simp
qed

lemma malloc_found:
  assumes hb: "heap_of h bs" and fit: "\<exists>b \<in> set bs. fits (malloc_round s) b"
    and co: "coalesced bs" and s: "0 < unat s" "unat s < 2 ^ 62"
  shows "allocates s h (used (heapStart h) bs)"
proof -
  let ?r = "malloc_round s"
  note b = malloc_round_bounds [OF s]
  obtain xs k ys where bs: "bs = xs @ (k, True) # ys" "?r \<le> k" "\<forall>x \<in> set xs. \<not> fits ?r x"
    using split_list_first_prop [OF fit] by (auto simp: fits_def)
  have F: "focus h xs k True ys" using hb bs by (intro focusI) simp
  let ?c = "addr_after (heapStart h) xs"
  let ?n = "if unat k < unat ?r + 48 then k else ?r"
  have blk: "blocks (hdr h) 0 (heapStart h) (xs @ (k, True) # ys) 0"
    using hb by (simp add: heap_of_def bs(1))
  have "find_block (hdr h) ?r (heapStart h) = Some (Some ?c)"
    using heap_room [OF hb] bs by (intro find_block_hit [OF blk]) (simp_all add: fits_def)
  moreover have nz: "?r \<noteq> 0" using b(2) by auto
  ultimately have m: "malloc s h = Some (take_block ?c ?r h)"
    by (subst malloc.simps) (simp add: Let_def)
  have "0x10 \<le> ?r" using b(2) by (simp add: word_le_nat_alt)
  note tb = focus.take_block_spec [OF F TrueI bs(2) this, unfolded focus_c [OF F]]
  have co': "coalesced (xs @ carve ?r k @ ys)" using co bs(1) by (intro coalesced_carve) simp
  have us: "used (heapStart h) (xs @ carve ?r k @ ys)
      = insert (?c, ?n) (used (heapStart h) bs)"
    by (simp add: bs(1) used_carve)
  have fresh: "(?c, ?n) \<notin> used (heapStart h) bs"
  proof
    assume "(?c, ?n) \<in> used (heapStart h) bs"
    then consider "(?c, ?n) \<in> used (heapStart h) xs" | "(?c, ?n) \<in> used (?c + header_size + k) ys"
      by (auto simp: bs(1))
    then show False
    proof cases
      case 1
      then show False
        using used_bounds [OF 1] focus.c_unat [OF F] focus.start [OF F] by (simp add: focus_c [OF F])
    next
      case 2
      then show False
        using used_bounds [OF 2] focus.e_unat [OF F] focus.end_unat [OF F] focus.start [OF F]
        by (simp add: focus_c [OF F] focus_e [OF F])
    qed
  qed
  have "unat s \<le> unat ?n" using b(1) bs(2) by (auto simp: word_le_nat_alt)
  moreover have "kernel_heap (snd (take_block ?c ?r h)) (insert (?c, ?n) (used (heapStart h) bs))"
    unfolding kernel_heap_def using tb co' us by metis
  ultimately show ?thesis
    unfolding allocates_def m using tb fresh
    by (intro exI [of _ "?c + header_size"] exI [of _ ?n] exI [of _ "snd (take_block ?c ?r h)"])
      (simp add: prod_eq_iff)
qed

text \<open>Two expansions that get all their frames: enough for any request.\<close>

definition frames_suffice :: "u64 \<Rightarrow> kheap \<Rightarrow> bool" where
  "frames_suffice s h \<longleftrightarrow>
     (let L = page_round s; h1 = ExpandHeap s h in
        heapEnd h1 = heapEnd h + L \<and> heapEnd (ExpandHeap s h1) = heapEnd h1 + L
        \<and> unat (heapEnd h) + 2 * unat L < 2 ^ 63)"

lemma malloc_expands:
  assumes "heap_of h bs" "\<forall>b \<in> set bs. \<not> fits (malloc_round s) b" "malloc_round s \<noteq> 0"
  shows "malloc s h = malloc (malloc_round s) (ExpandHeap (malloc_round s) h)"
proof -
  have "find_block (hdr h) (malloc_round s) (heapStart h) = Some None"
    using find_block_heap(1) [OF assms(1)] assms(2) by blast
  then show ?thesis using assms(3) by (subst malloc.simps) (simp add: Let_def)
qed

lemma last_block_room: "heap_of h bs \<Longrightarrow> unat (fst (last bs)) \<le> unat (heapEnd h)"
  by (cases bs rule: rev_cases) (auto simp: heap_of_def)

lemma grow_fits:
  assumes "heap_of h bs" "unat (heapEnd h) + unat L < 2 ^ 63" "unat s \<le> unat L" "32 \<le> unat L"
    and "snd (last bs) \<or> unat s + 32 \<le> unat L"
  shows "fits s (last (grow L bs))"
proof (cases "snd (last bs)")
  case True
  have "unat (fst (last bs) + L) = unat (fst (last bs)) + unat L"
    using last_block_room [OF assms(1)] assms(2) by (subst unat_add_no_wrap) simp_all
  then show ?thesis using True assms(3) by (simp add: grow_def fits_def word_le_nat_alt)
next
  case False
  have "unat (L - header_size) = unat L - 32" using assms(4) by (subst unat_sub_no_wrap) simp_all
  then show ?thesis using False assms by (simp add: grow_def fits_def word_le_nat_alt)
qed

lemma malloc_round_small: "unat s < 2 ^ 62 - 16 \<Longrightarrow> 0 < unat s \<Longrightarrow> unat (malloc_round s) < 2 ^ 62"
  using malloc_round_bounds(3) [of s] by simp

lemma malloc_spec:
  assumes hb: "heap_of h bs" and co: "coalesced bs" and s: "0 < unat s" "unat s < 2 ^ 62 - 16"
    and space: "(\<exists>b \<in> set bs. fits (malloc_round s) b) \<or> frames_suffice (malloc_round s) h"
  shows "allocates s h (used (heapStart h) bs)"
proof (cases "\<exists>b \<in> set bs. fits (malloc_round s) b")
  case True
  then show ?thesis using malloc_found [OF hb True co s(1)] s(2) by simp
next
  case no1: False
  let ?r = "malloc_round s"
  let ?L = "page_round ?r"
  have s62: "unat s < 2 ^ 62" using s(2) by simp
  note b = malloc_round_bounds [OF s(1) s62]
  have r: "0 < unat ?r" "unat ?r < 2 ^ 62" "?r \<noteq> 0" using b(2) malloc_round_small [OF s(2,1)] by auto
  note L = page_round_bounds [OF r(1,2)]
  define h1 where "h1 = ExpandHeap ?r h"
  have fr: "heapEnd h1 = heapEnd h + ?L" "heapEnd (ExpandHeap ?r h1) = heapEnd h1 + ?L"
    "unat (heapEnd h) + 2 * unat ?L < 2 ^ 63"
    using space no1 by (auto simp: frames_suffice_def Let_def h1_def)
  have e1: "unat (heapEnd h1) = unat (heapEnd h) + unat ?L"
    unfolding fr(1) using fr(3) by (subst unat_add_no_wrap) simp_all
  have bs: "bs \<noteq> []" using hb by (simp add: heap_of_def)
  have h1: "heap_of h1 (grow ?L bs)" "heapStart h1 = heapStart h"
    using ExpandHeap_spec [OF hb fr(1) [unfolded h1_def]] fr(3) L(2) by (simp_all add: h1_def)
  note g1 = used_grow [OF bs, of "heapStart h" ?L] coalesced_grow [OF bs co, of ?L]
  have m1: "malloc s h = malloc ?r h1"
    using malloc_expands [OF hb _ r(3)] no1 by (auto simp: h1_def)
  show ?thesis
  proof (cases "\<exists>b \<in> set (grow ?L bs). fits ?r b")
    case True
    then show ?thesis
      using malloc_found [OF h1(1) _ g1(2) r(1,2), unfolded b(4) h1(2) g1(1)]
      by (intro allocates_via [OF _ m1 b(1)])
  next
    case no2: False
    have ne: "grow ?L bs \<noteq> []" by (simp add: grow_def)
    define h2 where "h2 = ExpandHeap ?r h1"
    have h2: "heap_of h2 (grow ?L (grow ?L bs))" "heapStart h2 = heapStart h"
      using ExpandHeap_spec [OF h1(1) fr(2)] fr(3) L(2) e1 h1(2) by (simp_all add: h2_def)
    have room2: "unat (heapEnd h1) + unat ?L < 2 ^ 63" using fr(3) e1 by linarith
    have "snd (last (grow ?L bs))" by (simp add: grow_def)
    then have "fits ?r (last (grow ?L (grow ?L bs)))"
      using h1(1) room2 L by (intro grow_fits) simp_all
    moreover have "grow ?L (grow ?L bs) \<noteq> []" by (simp add: grow_def)
    ultimately have "\<exists>b \<in> set (grow ?L (grow ?L bs)). fits ?r b" by (meson last_in_set)
    moreover have "malloc ?r h1 = malloc ?r h2"
      using malloc_expands [OF h1(1), of ?r] no2 b(4) r(3) by (auto simp: h2_def)
    ultimately show ?thesis
      using malloc_found [OF h2(1) _ coalesced_grow [OF ne g1(2)] r(1,2),
          unfolded b(4) h2(2) used_grow [OF ne] g1(1)] m1
      by (intro allocates_via [OF _ _ b(1), of h2]) simp_all
  qed
qed


section \<open>Initialisation and reachable heaps\<close>

lemma InitialiseHeap_spec:
  assumes "a \<noteq> 0" and "0 < unat k" and "unat a + unat k * 4096 < 2 ^ 63"
  shows "heap_of (InitialiseHeap a k h) [(k * 0x1000 - header_size, True)]
    \<and> heapStart (InitialiseHeap a k h) = a"
proof -
  have u: "unat (k * 0x1000) = unat k * 4096"
    using assms(3) by (subst unat_mult_no_wrap) simp_all
  moreover have "unat (a + k * 0x1000) = unat a + unat k * 4096"
    using u assms(3) by (subst unat_add_no_wrap) simp_all
  moreover have "unat (k * 0x1000 - header_size) = unat k * 4096 - 32"
    using u assms(2) by (subst unat_sub_no_wrap) simp_all
  ultimately show ?thesis
    using assms by (simp add: heap_of_def InitialiseHeap_def Let_def at_def)
qed

lemma boot_heap_of:
  "heap_of (InitialiseHeap 0x0000100000000000 0xFF h) ([] @ [(0xFF * 0x1000 - header_size, True)])"
proof -
  have "(0x0000100000000000 :: u64) \<noteq> 0" "0 < unat (0xFF :: u64)"
    "unat (0x0000100000000000 :: u64) + unat (0xFF :: u64) * 4096 < 2 ^ 63"
    by simp_all
  then have "heap_of (InitialiseHeap 0x0000100000000000 0xFF h) [(0xFF * 0x1000 - header_size, True)]"
    by (rule InitialiseHeap_spec [THEN conjunct1])
  then show ?thesis by (simp only: append_Nil)
qed

interpretation boot_heap: focus "InitialiseHeap 0x0000100000000000 0xFF (initial_heap m v)"
    "[]" "0xFF * 0x1000 - header_size" True "[]" for m v
  by (rule focus.intro [OF boot_heap_of])

lemma kernel_heap_Initialise:
  assumes "a \<noteq> 0" and "0 < unat k" and "unat a + unat k * 4096 < 2 ^ 63"
  shows "kernel_heap (InitialiseHeap a k h) {}"
  unfolding kernel_heap_def using InitialiseHeap_spec [OF assms, of h]
  by (intro exI [of _ "[(k * 0x1000 - header_size, True)]"]) simp

lemma kernel_heap_free:
  assumes "kernel_heap h U" and "(p - header_size, n) \<in> U"
  shows "kernel_heap (free p h) (U - {(p - header_size, n)})"
proof -
  let ?c = "p - header_size"
  obtain bs where bs: "heap_of h bs" "coalesced bs" "U = used (heapStart h) bs"
    using assms(1) by (auto simp: kernel_heap_def)
  then obtain xs ys where s: "bs = xs @ (n, False) # ys" "?c = addr_after (heapStart h) xs"
    using used_split assms(2) by blast
  have F: "focus h xs n False ys" using bs(1) s(1) by (intro focusI) simp
  define c where "c = addr_after (heapStart h) xs"
  have pc: "p = c + header_size" "?c = c" using s(2) by (simp_all add: c_def algebra_simps)
  have fc: "focus.c h xs = c" "focus.e h xs n = c + header_size + n"
    by (simp_all add: focus_c [OF F] focus_e [OF F] c_def)
  have fr: "heap_of (free p h) (release xs n ys)" "heapStart (free p h) = heapStart h"
    using free_spec [of h xs n False ys] bs(1) s(1) by (simp_all add: c_def pc(1))
  have "(c, n) \<notin> used (heapStart h) xs"
    using used_bounds [of c n "heapStart h" xs] focus.c_unat [OF F] focus.start [OF F]
    unfolding fc by auto
  moreover have "(c, n) \<notin> used (c + header_size + n) ys"
    using used_bounds [of c n "c + header_size + n" ys] focus.e_unat [OF F] focus.end_unat [OF F]
      focus.start [OF F]
    unfolding fc by auto
  moreover have "U = used (heapStart h) xs \<union> insert (c, n) (used (c + header_size + n) ys)"
    unfolding bs(3) s(1) by (simp add: c_def)
  moreover have "used (heapStart h) (release xs n ys)
      = used (heapStart h) xs \<union> used (c + header_size + n) ys"
    by (simp only: used_release c_def)
  ultimately have "U - {(?c, n)} = used (heapStart h) (release xs n ys)"
    unfolding pc(2) by blast
  moreover have "coalesced (release xs n ys)" using bs(2) s(1) by (intro coalesced_release) simp
  ultimately show ?thesis unfolding kernel_heap_def using fr by metis
qed

section \<open>Runs of the heap\<close>

text \<open>
  \<open>heap_run h P\<close>: \<open>h\<close> is reached from an initialisation by calls of \<open>malloc\<close> and
  \<open>free\<close>, and \<open>P\<close> are the pointers handed out and not yet freed.
\<close>

definition can_allocate :: "u64 \<Rightarrow> kheap \<Rightarrow> bool" where
  "can_allocate s h \<longleftrightarrow> 0 < unat s \<and> unat s < 2 ^ 62 - 16 \<and>
     (find_block (hdr h) (malloc_round s) (heapStart h) \<noteq> Some None
      \<or> frames_suffice (malloc_round s) h)"

inductive heap_run :: "kheap \<Rightarrow> u64 set \<Rightarrow> bool" where
  run_init: "a \<noteq> 0 \<Longrightarrow> 0 < unat k \<Longrightarrow> unat a + unat k * 4096 < 2 ^ 63 \<Longrightarrow>
    heap_run (InitialiseHeap a k h) {}"
| run_malloc: "heap_run h P \<Longrightarrow> can_allocate s h \<Longrightarrow> malloc s h = Some (p, h') \<Longrightarrow>
    heap_run h' (insert p P)"
| run_free: "heap_run h P \<Longrightarrow> p \<in> P \<Longrightarrow> heap_run (free p h) (P - {p})"

lemma kernel_heap_malloc:
  assumes "kernel_heap h U" and "can_allocate s h"
  shows "allocates s h U"
proof -
  obtain bs where bs: "heap_of h bs" "coalesced bs" "U = used (heapStart h) bs"
    using assms(1) by (auto simp: kernel_heap_def)
  have "(\<exists>b \<in> set bs. fits (malloc_round s) b) \<or> frames_suffice (malloc_round s) h"
    using assms(2) find_block_heap(1) [OF bs(1), of "malloc_round s"]
    unfolding can_allocate_def by blast
  then show ?thesis
    unfolding bs(3) using assms(2) by (intro malloc_spec bs(1,2)) (simp_all add: can_allocate_def)
qed

lemma kernel_heap_header:
  assumes "kernel_heap h U" and "(c, n) \<in> U"
  shows "Length (hdr h c) = n \<and> \<not> Free (hdr h c)
    \<and> unat (heapStart h) \<le> unat c \<and> unat c + 32 + unat n \<le> unat (heapEnd h)"
proof -
  obtain bs where bs: "heap_of h bs" "U = used (heapStart h) bs"
    using assms(1) by (auto simp: kernel_heap_def)
  then obtain xs ys where s: "bs = xs @ (n, False) # ys" "c = addr_after (heapStart h) xs"
    using used_split assms(2) by blast
  have F: "focus h xs n False ys" using bs(1) s(1) by (intro focusI) simp
  show ?thesis
    using focus.here [OF F] used_bounds [of c n "heapStart h" bs] assms(2) bs
    by (simp add: focus_c [OF F] s(2) [symmetric] heap_of_def)
qed

lemma kernel_heap_disjoint:
  assumes "kernel_heap h U" and "(p, n) \<in> U" "(q, m) \<in> U" "(p, n) \<noteq> (q, m)"
  shows "unat p + 32 + unat n \<le> unat q \<or> unat q + 32 + unat m \<le> unat p"
proof -
  obtain bs where bs: "heap_of h bs" "U = used (heapStart h) bs"
    using assms(1) by (auto simp: kernel_heap_def)
  show ?thesis
    using assms(2-4) heap_room [OF bs(1)] unfolding bs(2) by (rule used_disjoint)
qed

definition pointers :: "(u64 \<times> u64) set \<Rightarrow> u64 set" where
  "pointers U = (\<lambda>(c, n). c + header_size) ` U"

lemma diff_right_cancel: "a - c = b - c \<longleftrightarrow> a = b" for a b c :: u64
  by simp

lemma in_pointers: "p \<in> pointers U \<longleftrightarrow> (\<exists>n. (p - header_size, n) \<in> U)"
proof
  assume "p \<in> pointers U"
  then obtain c n where "(c, n) \<in> U" "p = c + header_size" by (auto simp: pointers_def)
  then have "(p - header_size, n) \<in> U" by simp
  then show "\<exists>n. (p - header_size, n) \<in> U" ..
next
  assume "\<exists>n. (p - header_size, n) \<in> U"
  then obtain n where "(p - header_size, n) \<in> U" ..
  then have "(\<lambda>(c, n). c + header_size) (p - header_size, n) \<in> pointers U"
    unfolding pointers_def by (rule imageI)
  then show "p \<in> pointers U" by simp
qed

lemma heap_run_kernel: "heap_run h P \<Longrightarrow> \<exists>U. kernel_heap h U \<and> P = pointers U"
proof (induction rule: heap_run.induct)
  case (run_init a k h)
  then show ?case using kernel_heap_Initialise [of a k h] by (auto simp: pointers_def)
next
  case (run_malloc h P s p h')
  then obtain U where U: "kernel_heap h U" "P = pointers U" by blast
  then obtain n where "kernel_heap h' (insert (p - header_size, n) U)"
    using kernel_heap_malloc [OF U(1) run_malloc.hyps(2)] run_malloc.hyps(3)
    by (auto simp: allocates_def)
  moreover have "insert p P = pointers (insert (p - header_size, n) U)"
    by (simp add: pointers_def U(2))
  ultimately show ?case by blast
next
  case (run_free h P p)
  then obtain U where U: "kernel_heap h U" "P = pointers U" by blast
  with run_free.hyps(2) obtain n where n: "(p - header_size, n) \<in> U"
    by (auto simp only: in_pointers)
  have "m = n" if "(p - header_size, m) \<in> U" for m
    using kernel_heap_header [OF U(1) that] kernel_heap_header [OF U(1) n] by simp
  then have "P - {p} = pointers (U - {(p - header_size, n)})"
    unfolding U(2) by (intro set_eqI) (auto simp only: Diff_iff singleton_iff in_pointers prod.inject diff_right_cancel)
  with kernel_heap_free [OF U(1) n] show ?case by blast
qed

lemma free_malloc:
  assumes hb: "heap_of h bs" and co: "coalesced bs" and s: "0 < unat s" "unat s < 2 ^ 62"
    and m: "malloc s h = Some (p, h')" and fit: "\<exists>b \<in> set bs. fits (malloc_round s) b"
  shows "heap_of (free p h') bs"
proof -
  let ?r = "malloc_round s"
  note b = malloc_round_bounds [OF s]
  obtain xs k ys where bs: "bs = xs @ (k, True) # ys" "?r \<le> k" "\<forall>x \<in> set xs. \<not> fits ?r x"
    using split_list_first_prop [OF fit] by (auto simp: fits_def)
  have F: "focus h xs k True ys" using hb bs by (intro focusI) simp
  let ?c = "addr_after (heapStart h) xs"
  have blk: "blocks (hdr h) 0 (heapStart h) (xs @ (k, True) # ys) 0"
    using hb by (simp add: heap_of_def bs(1))
  have "find_block (hdr h) ?r (heapStart h) = Some (Some ?c)"
    using heap_room [OF hb] bs by (intro find_block_hit [OF blk]) (simp_all add: fits_def)
  moreover have "?r \<noteq> 0" using b(2) by auto
  ultimately have tb: "take_block ?c ?r h = (p, h')"
    using m by (subst (asm) malloc.simps) (simp add: Let_def)
  have "0x10 \<le> ?r" using b(2) by (simp add: word_le_nat_alt)
  from focus.take_block_spec [OF F TrueI bs(2) this, unfolded focus_c [OF F] tb]
  have sp: "p = ?c + header_size" "heap_of h' (xs @ carve ?r k @ ys)" "heapStart h' = heapStart h"
    by simp_all
  have lastx: "xs = [] \<or> \<not> snd (last xs)" and hdy: "ys = [] \<or> \<not> snd (hd ys)"
    using co by (auto simp: bs(1) coalesced_append neq_Nil_conv)
  have ab: "absorb n ys = (n, True) # ys" for n
    using hdy by (cases "(n, ys)" rule: absorb.cases) auto
  have "\<exists>n zs. carve ?r k @ ys = (n, False) # zs \<and> release xs n zs = bs"
    using lastx ab by (auto simp: carve_def release_def bs(1))
  then obtain n zs where "carve ?r k @ ys = (n, False) # zs" "release xs n zs = bs" by blast
  then show ?thesis using free_spec [of h' xs n False zs] sp by simp
qed

section \<open>Without frames\<close>

definition exhausted :: "pfa \<Rightarrow> bool" where
  "exhausted f \<longleftrightarrow> (\<forall>j. j < Size (PageBitmap f) * 8 \<longrightarrow> marked f j)"

lemma expand_page_exhausted:
  assumes "exhausted (frames (hvm h))"
  shows "exhausted (frames (hvm (expand_page h))) \<and> heapEnd (expand_page h) = heapEnd h"
proof -
  have "fst (RequestPage (frames (hvm h))) = 0"
    "PageBitmap (snd (RequestPage (frames (hvm h)))) = PageBitmap (frames (hvm h))"
    using assms RequestPage_none [of "frames (hvm h)"] unfolding exhausted_def by blast+
  then show ?thesis
    using assms by (cases "RequestPage (frames (hvm h))")
      (simp add: expand_page_def exhausted_def marked_def)
qed

lemma expand_loop_exhausted:
  assumes "exhausted (frames (hvm h))"
  shows "heapEnd (u64_for k (\<lambda>i. expand_page) 0 h) = heapEnd h"
proof -
  have "exhausted (frames (hvm (u64_for k (\<lambda>i. expand_page) 0 h)))
      \<and> heapEnd (u64_for k (\<lambda>i. expand_page) 0 h) = heapEnd h"
    by (rule u64_for_invariant [where P = "\<lambda>x. exhausted (frames (hvm x)) \<and> heapEnd x = heapEnd h"])
      (use assms expand_page_exhausted in auto)
  then show ?thesis ..
qed

section \<open>Properties\<close>

text \<open>C3. \<open>malloc\<close> is total and correct: from a well-formed heap whose blocks in use are \<open>U\<close>, as
  long as some free block is large enough or the expansions get their frames, it returns a pointer
  to a block of at least the requested size that was not in use, and the heap stays well formed
  with exactly that block added.\<close>

theorem malloc_allocates:
  assumes "kernel_heap h U" and "can_allocate s h"
  shows "\<exists>p n h'. malloc s h = Some (p, h') \<and> unat s \<le> unat n \<and> (p - header_size, n) \<notin> U
    \<and> kernel_heap h' (insert (p - header_size, n) U)"
  using kernel_heap_malloc [OF assms] by (simp add: allocates_def)

definition small_heap :: kheap where
  "small_heap = InitialiseHeap 0x0000100000000000 0xFF (initial_heap (\<lambda>_. undefined) small_vm)"

lemma small_heap: "kernel_heap small_heap {}"
proof -
  have h: "(0x0000100000000000 :: u64) \<noteq> 0" "0 < unat (0xFF :: u64)"
    "unat (0x0000100000000000 :: u64) + unat (0xFF :: u64) * 4096 < 2 ^ 63" by simp_all
  show ?thesis unfolding small_heap_def using kernel_heap_Initialise [OF h] .
qed

lemma small_heap_blocks: "heap_of small_heap [(0xFF * 0x1000 - header_size, True)]"
  using boot_heap_of by (simp only: append_Nil small_heap_def)

lemma small_heap_can: "can_allocate 100 small_heap"
proof -
  have r: "malloc_round 100 = 112" by (simp add: malloc_round_def)
  have "fits 112 (0xFF * 0x1000 - header_size, True)" by (simp add: fits_def)
  then have "find_block (hdr small_heap) 112 (heapStart small_heap) \<noteq> Some None"
    using find_block_heap(1) [OF small_heap_blocks, of 112] by simp
  then show ?thesis by (simp add: can_allocate_def r)
qed

theorem malloc_allocates_witness:
  "\<exists>p n h'. malloc 100 small_heap = Some (p, h') \<and> 100 \<le> unat n
     \<and> kernel_heap h' {(p - header_size, n)}"
  using malloc_allocates [OF small_heap small_heap_can] by auto

text \<open>C18. \<open>free\<close> gives back exactly the block it is called on: the heap stays well formed, free
  neighbours are joined, and every other block in use keeps its place and length.\<close>

theorem free_releases:
  assumes "kernel_heap h U" and "(p - header_size, n) \<in> U"
  shows "kernel_heap (free p h) (U - {(p - header_size, n)})"
  by (rule kernel_heap_free [OF assms])

theorem free_releases_witness:
  "\<exists>p h'. malloc 100 small_heap = Some (p, h') \<and> kernel_heap (free p h') {}"
proof -
  obtain p n h' where m: "malloc 100 small_heap = Some (p, h')"
    and k: "kernel_heap h' (insert (p - header_size, n) {})" and f: "(p - header_size, n) \<notin> {}"
    using kernel_heap_malloc [OF small_heap small_heap_can] by (auto simp: allocates_def)
  from free_releases [OF k insertI1] m f show ?thesis by auto
qed

text \<open>C7. No overlap: after any run of \<open>malloc\<close> and \<open>free\<close> the blocks behind the pointers that
  were handed out and not freed are in use, lie inside the heap, and are pairwise disjoint,
  headers included.\<close>

theorem heap_run_disjoint:
  assumes "heap_run h P"
  shows "(\<forall>p \<in> P. \<not> Free (hdr h (p - header_size))
      \<and> unat (heapStart h) \<le> unat (p - header_size)
      \<and> unat (p - header_size) + 32 + unat (Length (hdr h (p - header_size))) \<le> unat (heapEnd h))
    \<and> (\<forall>p \<in> P. \<forall>q \<in> P. p \<noteq> q \<longrightarrow>
        unat (p - header_size) + 32 + unat (Length (hdr h (p - header_size))) \<le> unat (q - header_size)
      \<or> unat (q - header_size) + 32 + unat (Length (hdr h (q - header_size))) \<le> unat (p - header_size))"
proof -
  obtain U where U: "kernel_heap h U" "P = pointers U" using heap_run_kernel [OF assms] by blast
  have el: "(p - header_size, Length (hdr h (p - header_size))) \<in> U" if "p \<in> P" for p
    using that kernel_heap_header [OF U(1)] unfolding U(2) in_pointers by blast
  show ?thesis
  proof (intro conjI ballI impI)
    fix p assume "p \<in> P"
    note kernel_heap_header [OF U(1) el [OF this]]
    then show "\<not> Free (hdr h (p - header_size))"
      and "unat (heapStart h) \<le> unat (p - header_size)"
      and "unat (p - header_size) + 32 + unat (Length (hdr h (p - header_size))) \<le> unat (heapEnd h)"
      by blast+
  next
    fix p q assume "p \<in> P" "q \<in> P" "p \<noteq> q"
    then show "unat (p - header_size) + 32 + unat (Length (hdr h (p - header_size))) \<le> unat (q - header_size)
      \<or> unat (q - header_size) + 32 + unat (Length (hdr h (q - header_size))) \<le> unat (p - header_size)"
      by (intro kernel_heap_disjoint [OF U(1) el el]) auto
  qed
qed

theorem heap_run_disjoint_witness:
  "\<exists>p h'. malloc 100 small_heap = Some (p, h') \<and> \<not> Free (hdr h' (p - header_size))"
proof -
  obtain p h' where m: "malloc 100 small_heap = Some (p, h')"
    using kernel_heap_malloc [OF small_heap small_heap_can] by (auto simp: allocates_def)
  have "(0x0000100000000000 :: u64) \<noteq> 0" "0 < unat (0xFF :: u64)"
    "unat (0x0000100000000000 :: u64) + unat (0xFF :: u64) * 4096 < 2 ^ 63" by simp_all
  then have "heap_run small_heap {}" unfolding small_heap_def by (rule run_init)
  from run_malloc [OF this small_heap_can m] have "heap_run h' {p}" .
  from heap_run_disjoint [OF this] m show ?thesis by blast
qed

text \<open>C37. Freeing what was just allocated restores the heap: when a free block was large enough,
  the blocks are again exactly the ones before the call, merged as they were.\<close>

theorem free_undoes_malloc:
  assumes "heap_of h bs" and "coalesced bs" and "0 < unat s" "unat s < 2 ^ 62"
    and "malloc s h = Some (p, h')" and "\<exists>b \<in> set bs. fits (malloc_round s) b"
  shows "heap_of (free p h') bs"
  using assms by (rule free_malloc)

theorem free_undoes_malloc_witness:
  "\<exists>p h'. malloc 100 small_heap = Some (p, h')
     \<and> heap_of (free p h') [(0xFF * 0x1000 - header_size, True)]"
proof -
  obtain p h' where m: "malloc 100 small_heap = Some (p, h')"
    using kernel_heap_malloc [OF small_heap small_heap_can] by (auto simp: allocates_def)
  have "malloc_round 100 = 112" by (simp add: malloc_round_def)
  then have "\<exists>b \<in> set [(0xFF * 0x1000 - header_size, True)]. fits (malloc_round 100) b"
    by (simp add: fits_def)
  from free_undoes_malloc [OF small_heap_blocks _ _ _ m this] m show ?thesis by simp
qed

text \<open>Running out of frames corrupts the heap: \<open>ExpandHeap\<close> skips a frame it does not get but
  still enters a free block of the full length, so the block lies beyond \<^verbatim>\<open>heapEnd\<close>, in memory
  that was never mapped.\<close>

theorem ExpandHeap_unbacked:
  assumes "exhausted (frames (hvm h))" and "\<not> Free (hdr h (LastHdr h))"
    and "LastHdr h \<noteq> heapEnd h"
  shows "heapEnd (ExpandHeap s h) = heapEnd h \<and> LastHdr (ExpandHeap s h) = heapEnd h
    \<and> Free (hdr (ExpandHeap s h) (heapEnd h))
    \<and> Length (hdr (ExpandHeap s h) (heapEnd h)) = page_round s - header_size"
proof -
  define h1 where "h1 = u64_for (page_round s div 0x1000) (\<lambda>i. expand_page) 0 h"
  have h1: "hdr h1 = hdr h" "LastHdr h1 = LastHdr h" "heapEnd h1 = heapEnd h"
    using expand_loop [of _ h] expand_loop_exhausted [OF assms(1)] by (simp_all add: h1_def)
  show ?thesis
    using assms(2,3) by (simp add: ExpandHeap_def Let_def h1_def [symmetric] at_def h1
        CombineBackward_def)
qed

theorem ExpandHeap_unbacked_witness:
  "let f = initial_pfa \<lparr>Size = 0, Buffer = 0, Bytes = (\<lambda>_. 0)\<rparr>;
       h = \<lparr>hdr = (\<lambda>_. \<lparr>Length = 0x1000, Next = 0, Prev = 0, Free = False\<rparr>), heapStart = 0x1000,
            heapEnd = 0x2020, LastHdr = 0x1000, hvm = \<lparr>PML4 = 0, entries = (\<lambda>_. \<lparr>Value = 0\<rparr>), frames = f\<rparr>\<rparr>
   in heapEnd (ExpandHeap 64 h) = 0x2020 \<and> Free (hdr (ExpandHeap 64 h) 0x2020)"
proof -
  let ?f = "initial_pfa \<lparr>Size = 0, Buffer = 0, Bytes = (\<lambda>_. 0)\<rparr>"
  let ?h = "\<lparr>hdr = (\<lambda>_. \<lparr>Length = 0x1000, Next = 0, Prev = 0, Free = False\<rparr>), heapStart = 0x1000,
            heapEnd = 0x2020, LastHdr = 0x1000, hvm = \<lparr>PML4 = 0, entries = (\<lambda>_. \<lparr>Value = 0\<rparr>), frames = ?f\<rparr>\<rparr>"
  have "exhausted (frames (hvm ?h))" by (simp add: exhausted_def initial_pfa_def)
  moreover have "\<not> Free (hdr ?h (LastHdr ?h))" "LastHdr ?h \<noteq> heapEnd ?h" by simp_all
  ultimately show ?thesis using ExpandHeap_unbacked [of ?h 64] by (simp add: Let_def)
qed

end
