(* ===== verification/Memory.thy ===== *)
theory Memory
  imports Kernel_Prelude
begin

text \<open>
  The raw memory primitives of \<^verbatim>\<open>src/memory/memory.cpp\<close> over a byte-addressed memory.
  \<open>memory\<close> maps every 64-bit address to its byte; pointer arithmetic is word arithmetic, so it
  wraps as it does on the machine. A region of \<open>n\<close> bytes at \<open>a\<close> is the set of addresses
  whose distance from \<open>a\<close> is below \<open>n\<close>.
\<close>

type_synonym memory = "u64 \<Rightarrow> u8"

definition in_region :: "u64 \<Rightarrow> nat \<Rightarrow> u64 \<Rightarrow> bool" where
  "in_region a n x = (unat (x - a) < n)"

section \<open>memset, memcpy, memcmp\<close>

definition memset :: "u64 \<Rightarrow> u8 \<Rightarrow> u64 \<Rightarrow> memory \<Rightarrow> memory" where
  "memset dest val sz = u64_for sz (\<lambda>i m. m(dest + i := val)) 0"

text \<open>
  The loop \<^verbatim>\<open>while (sz-- > 0) *d++ = *s++\<close>. The pointer it returns is the advanced one,
  one past the last byte written, not \<^verbatim>\<open>dest\<close>.
\<close>

primrec memcpy_loop :: "nat \<Rightarrow> u64 \<Rightarrow> u64 \<Rightarrow> memory \<Rightarrow> memory \<times> u64" where
  "memcpy_loop 0 d s m = (m, d)"
| "memcpy_loop (Suc n) d s m = memcpy_loop n (d + 1) (s + 1) (m(d := m s))"

definition memcpy :: "u64 \<Rightarrow> u64 \<Rightarrow> u64 \<Rightarrow> memory \<Rightarrow> memory \<times> u64" where
  "memcpy dest src sz m = memcpy_loop (unat sz) dest src m"

function memcmp_from :: "memory \<Rightarrow> u64 \<Rightarrow> u64 \<Rightarrow> u64 \<Rightarrow> u64 \<Rightarrow> bool" where
  "memcmp_from m a b sz i =
     (if i < sz then (if m (a + i) = m (b + i) then memcmp_from m a b sz (i + 1) else False)
      else True)"
  by pat_completeness auto
termination
  by (relation "measure (\<lambda>(m, a, b, sz, i). unat sz - unat i)")
    (auto simp: word_less_nat_alt unat_Suc_no_wrap)

declare memcmp_from.simps [simp del]

definition memcmp :: "memory \<Rightarrow> u64 \<Rightarrow> u64 \<Rightarrow> u64 \<Rightarrow> bool" where
  "memcmp m Mem1 Mem2 Size = memcmp_from m Mem1 Mem2 Size 0"

section \<open>What they do\<close>

lemma in_region_Suc: "n < 2 ^ 64 \<Longrightarrow>
    in_region a (Suc n) x = (in_region a n x \<or> x = a + word_of_nat n)"
proof -
  assume n: "n < 2 ^ 64"
  have "x = a + word_of_nat n \<longleftrightarrow> x - a = word_of_nat n" by (auto simp: algebra_simps)
  also have "\<dots> \<longleftrightarrow> unat (x - a) = n"
    using n by (simp add: word_eq_iff_unat unat_of_nat)
  finally show ?thesis by (auto simp: in_region_def less_Suc_eq)
qed

lemma memset_apply:
  "memset dest val sz m x = (if in_region dest (unat sz) x then val else m x)"
proof -
  let ?body = "\<lambda>j m. m(dest + word_of_nat j := val)"
  have "k \<le> 2 ^ 64 \<Longrightarrow>
      fold ?body [0..<k] m x = (if in_region dest k x then val else m x)" for k
  proof (induction k)
    case 0
    then show ?case by (simp add: in_region_def)
  next
    case (Suc k)
    then show ?case by (auto simp: in_region_Suc)
  qed
  then show ?thesis
    by (simp add: memset_def u64_for_fold less_imp_le)
qed

lemma memcpy_loop_end: "snd (memcpy_loop n d s m) = d + word_of_nat n"
  by (induction n arbitrary: d s m) (simp_all add: algebra_simps)

text \<open>
  A forward copy is right as long as no source byte is overwritten before it is read. This
  covers disjoint buffers and the case \<^verbatim>\<open>Vector\<close> relies on, where the destination lies below
  an overlapping source.
\<close>

definition copy_safe :: "u64 \<Rightarrow> u64 \<Rightarrow> nat \<Rightarrow> bool" where
  "copy_safe d s n = (\<forall>k < n. \<forall>j < k. s + word_of_nat k \<noteq> d + word_of_nat j)"

lemma copy_safe_Suc: "copy_safe d s (Suc n) \<Longrightarrow> copy_safe (d + 1) (s + 1) n"
  unfolding copy_safe_def
proof (intro allI impI)
  fix k j
  assume safe: "\<forall>k < Suc n. \<forall>j < k. s + word_of_nat k \<noteq> d + word_of_nat j"
    and "k < n" "j < k"
  then have "s + word_of_nat (Suc k) \<noteq> d + word_of_nat (Suc j)" by simp
  then show "s + 1 + word_of_nat k \<noteq> d + 1 + word_of_nat j" by (simp add: algebra_simps)
qed

lemma copy_safe_src:
  assumes "copy_safe d s (Suc n)" and "0 < k" and "k \<le> n"
  shows "s + word_of_nat k \<noteq> d"
proof -
  have "s + word_of_nat k \<noteq> d + word_of_nat 0"
    using assms unfolding copy_safe_def by (meson le_imp_less_Suc)
  then show ?thesis by simp
qed

lemma in_region_shift:
  assumes "n < 2 ^ 64" and "in_region (d + 1) n x"
  shows "unat (x - d) = Suc (unat (x - (d + 1)))"
proof -
  define y where "y = x - (d + 1)"
  have "x - d = 1 + y" by (simp add: y_def)
  moreover have "Suc (unat y) < 2 ^ 64"
    using assms by (simp add: in_region_def y_def)
  ultimately have "unat (x - d) = Suc (unat y)" by (simp add: unat_word_ariths)
  then show ?thesis by (simp only: y_def)
qed

lemma memcpy_loop_apply:
  assumes "n \<le> 2 ^ 64" and "copy_safe d s n"
  shows "fst (memcpy_loop n d s m) x = (if in_region d n x then m (s + (x - d)) else m x)"
  using assms
proof (induction n arbitrary: d s m)
  case 0
  then show ?case by (simp add: in_region_def)
next
  case (Suc n)
  let ?m = "m(d := m s)"
  have n: "n < 2 ^ 64" using Suc.prems(1) by simp
  have IH: "fst (memcpy_loop n (d + 1) (s + 1) ?m) x
      = (if in_region (d + 1) n x then ?m (s + 1 + (x - (d + 1))) else ?m x)"
    using n copy_safe_Suc [OF Suc.prems(2)] by (intro Suc.IH) simp_all
  show ?case
  proof (cases "in_region (d + 1) n x")
    case True
    let ?k = "unat (x - d)"
    have k: "?k = Suc (unat (x - (d + 1)))" using n True by (rule in_region_shift)
    then have "0 < ?k" "?k \<le> n" using True by (simp_all add: in_region_def)
    then have "s + (x - d) \<noteq> d" using copy_safe_src [OF Suc.prems(2), of ?k] by simp
    moreover have "in_region d (Suc n) x" using \<open>?k \<le> n\<close> by (simp add: in_region_def)
    moreover have "s + 1 + (x - (d + 1)) = s + (x - d)" by simp
    ultimately show ?thesis using IH True by simp
  next
    case False
    show ?thesis
    proof (cases "x = d")
      case True
      with False IH show ?thesis by (simp add: in_region_def)
    next
      case neq: False
      have "\<not> in_region d (Suc n) x"
      proof
        assume "in_region d (Suc n) x"
        moreover have "unat (x - d) \<noteq> 0" using neq by (simp add: unat_eq_0)
        moreover have "unat (x - (d + 1)) = unat (x - d) - 1"
        proof -
          have "x - (d + 1) = (x - d) - 1" by simp
          then show ?thesis using \<open>unat (x - d) \<noteq> 0\<close>
            by (metis unat_eq_0 unat_minus_one)
        qed
        ultimately show False using False by (simp add: in_region_def)
      qed
      with False neq IH show ?thesis by simp
    qed
  qed
qed

lemma memcpy_apply:
  assumes "copy_safe dest src (unat sz)"
  shows "fst (memcpy dest src sz m) x
    = (if in_region dest (unat sz) x then m (src + (x - dest)) else m x)"
  unfolding memcpy_def using assms by (intro memcpy_loop_apply) (simp add: less_imp_le)

lemma copy_safe_disjoint:
  assumes "\<forall>k < n. \<not> in_region d n (s + word_of_nat k)" and "n \<le> 2 ^ 64"
  shows "copy_safe d s n"
  unfolding copy_safe_def
proof (intro allI impI notI)
  fix k j
  assume kj: "k < n" "j < k" and eq: "s + word_of_nat k = d + word_of_nat j"
  have "unat (d + word_of_nat j - d) = j" using kj assms(2) by (simp add: unat_of_nat)
  then have "in_region d n (d + word_of_nat j)" using kj by (simp add: in_region_def)
  with eq kj assms(1) show False by metis
qed

lemma copy_safe_down:
  assumes "s = d + word_of_nat g" and "n + g < 2 ^ 64"
  shows "copy_safe d s n"
  unfolding copy_safe_def
proof (intro allI impI notI)
  fix k j
  assume kj: "k < n" "j < k" and eq: "s + word_of_nat k = d + word_of_nat j"
  then have "word_of_nat (g + k) = (word_of_nat j :: u64)"
    using assms(1) by (simp add: add.assoc)
  then have "g + k = j"
    using kj assms(2) by (metis unat_of_nat_u64 add.commute add_lessD1 less_trans
      nat_add_left_cancel_less)
  with kj show False by simp
qed

lemma memcmp_from_iff:
  "memcmp_from m a b sz i \<longleftrightarrow>
    (\<forall>k. unat i \<le> k \<and> k < unat sz \<longrightarrow> m (a + word_of_nat k) = m (b + word_of_nat k))"
proof (induction m a b sz i rule: memcmp_from.induct)
  case (1 m a b sz i)
  show ?case
  proof (cases "i < sz")
    case False
    then show ?thesis by (subst memcmp_from.simps) (auto simp: word_less_nat_alt)
  next
    case True
    then have s: "unat (i + 1) = Suc (unat i)"
      by (intro unat_Suc_no_wrap [where b = sz]) (simp add: word_less_nat_alt)
    have split: "(\<forall>k. unat i \<le> k \<and> k < unat sz \<longrightarrow> P k)
        = (P (unat i) \<and> (\<forall>k. Suc (unat i) \<le> k \<and> k < unat sz \<longrightarrow> P k))" for P
      using True unfolding word_less_nat_alt
      by (metis Suc_le_eq le_less order_refl)
    show ?thesis
      using 1 True s by (subst memcmp_from.simps) (simp add: split)
  qed
qed

lemma memcmp_iff:
  "memcmp m a b sz \<longleftrightarrow> (\<forall>k < unat sz. m (a + word_of_nat k) = m (b + word_of_nat k))"
  by (simp add: memcmp_def memcmp_from_iff)

end
