(* ===== verification/Process.thy ===== *)
theory Process
  imports Heap Memory
begin

text \<open>
  Processes: \<^verbatim>\<open>src/process/process.cpp\<close>. The objects live in a store from pointers to
  records; stacks are bytes of \<open>stack_mem\<close>, and the FXSAVE area a process owns is the typed
  record at its \<^verbatim>\<open>fx_State\<close> pointer.
\<close>

record ProcessContext =
  r15 :: u64
  r14 :: u64
  r13 :: u64
  r12 :: u64
  r11 :: u64
  r10 :: u64
  r9 :: u64
  r8 :: u64
  rbp :: u64
  rdi :: u64
  rsi :: u64
  rdx :: u64
  rcx :: u64
  rbx :: u64
  rax :: u64
  rip :: u64
  cs :: u64
  rflags :: u64
  rsp :: u64
  ss :: u64

record FXState =
  fcw :: u16
  fsw :: u16
  ftw :: u8
  fx_zero :: u8
  fop :: u16
  fx_rip :: u64
  fx_rdp :: u64
  mxcsr :: u32
  mxcsrMask :: u32
  st_regs :: "nat \<Rightarrow> nat \<Rightarrow> u8"
  xmm_regs :: "nat \<Rightarrow> nat \<Rightarrow> u8"

datatype ProcessState = PROCESS_DYING | PROCESS_READY | PROCESS_SLEEPING | PROCESS_RUNNING

record Process =
  PID :: u64
  Stack :: u64
  Context :: ProcessContext
  fx_State :: u64
  fsBase :: u64
  State :: ProcessState
  ActiveTicks :: u64
  DefaultTimeSlice :: u8
  TimeSlice :: u8
  Name :: "u8 list"

text \<open>The part of the kernel's memory processes live in.\<close>

record proc_mem =
  procs :: "u64 \<Rightarrow> Process"
  fx_mem :: "u64 \<Rightarrow> FXState"
  stack_mem :: memory
  kheap_state :: kheap

definition upd_proc :: "u64 \<Rightarrow> (Process \<Rightarrow> Process) \<Rightarrow> proc_mem \<Rightarrow> proc_mem" where
  "upd_proc p f m = m\<lparr>procs := (procs m)(p := f (procs m p))\<rparr>"

definition DEFAUL_PROCESS_TICK_COUNT :: u8 where
  "DEFAUL_PROCESS_TICK_COUNT = 5"

definition DefaultStackBytes :: u64 where
  "DefaultStackBytes = 0x1000"

definition kKernelCS :: u64 where
  "kKernelCS = 0x08"

definition kKernelSS :: u64 where
  "kKernelSS = 0x10"

definition zero_context :: ProcessContext where
  "zero_context = \<lparr>r15 = 0, r14 = 0, r13 = 0, r12 = 0, r11 = 0, r10 = 0, r9 = 0, r8 = 0, rbp = 0,
     rdi = 0, rsi = 0, rdx = 0, rcx = 0, rbx = 0, rax = 0, rip = 0, cs = 0, rflags = 0, rsp = 0, ss = 0\<rparr>"

text \<open>
  The constructor: the members with initialisers and those it assigns; the others keep what the
  allocated memory held.
\<close>

definition construct_process :: "u64 \<Rightarrow> u64 \<Rightarrow> proc_mem \<Rightarrow> proc_mem" where
  "construct_process this pid =
     upd_proc this (\<lambda>p. p\<lparr>fsBase := 0, ActiveTicks := 0,
       DefaultTimeSlice := DEFAUL_PROCESS_TICK_COUNT, TimeSlice := DEFAUL_PROCESS_TICK_COUNT,
       PID := pid, State := PROCESS_READY\<rparr>)"

definition GetPID :: "u64 \<Rightarrow> proc_mem \<Rightarrow> u64" where
  "GetPID this m = PID (procs m this)"

text \<open>The frames of the page frame allocator, inside the heap's page tables.\<close>

definition with_frames :: "(pfa \<Rightarrow> u64 \<times> pfa) \<Rightarrow> proc_mem \<Rightarrow> u64 \<times> proc_mem" where
  "with_frames f m =
     (let (a, fr) = f (frames (hvm (kheap_state m)))
      in (a, m\<lparr>kheap_state := (kheap_state m)\<lparr>hvm := (hvm (kheap_state m))\<lparr>frames := fr\<rparr>\<rparr>\<rparr>))"

text \<open>
  \<^verbatim>\<open>ContextCreation\<close> and \<^verbatim>\<open>IdleContextCreation\<close> differ in the time slice only.
  \<^verbatim>\<open>memset(fx_State, 0, sizeof(fx_State))\<close> takes the size of the pointer, so it clears the
  first eight bytes of the area: the first five fields.
\<close>

definition create_context :: "u8 \<Rightarrow> u64 \<Rightarrow> u64 \<Rightarrow> u64 \<Rightarrow> proc_mem \<Rightarrow> proc_mem" where
  "create_context ticks this entry dat m =
     (let StackSize = DefaultStackBytes * 32;
          (stack, m) = with_frames (RequestPages 32) m;
          m = upd_proc this (\<lambda>p. p\<lparr>Stack := stack\<rparr>) m;
          m = m\<lparr>stack_mem := memset stack 0 (DefaultStackBytes * 32) (stack_mem m)\<rparr>;
          StackEnd = stack + StackSize;
          m = upd_proc this (\<lambda>p. p\<lparr>Context := zero_context\<lparr>rflags := 0x202, cs := kKernelCS,
                ss := kKernelSS, rsp := StackEnd, rbp := StackEnd, rip := entry, rdi := PID p,
                rsi := dat\<rparr>\<rparr>) m;
          m = upd_proc this (\<lambda>p. p\<lparr>ActiveTicks := 0, TimeSlice := ticks, DefaultTimeSlice := ticks\<rparr>) m;
          (fx, m) = with_frames RequestPage m;
          m = upd_proc this (\<lambda>p. p\<lparr>fx_State := fx\<rparr>) m;
          area = (fx_mem m fx)\<lparr>fcw := 0, fsw := 0, ftw := 0, fx_zero := 0, fop := 0\<rparr>;
          area = area\<lparr>mxcsr := 0x1f80, mxcsrMask := 0xffbf, fcw := 0x33f\<rparr>
      in m\<lparr>fx_mem := (fx_mem m)(fx := area)\<rparr>)"

definition ContextCreation :: "u64 \<Rightarrow> u64 \<Rightarrow> u64 \<Rightarrow> proc_mem \<Rightarrow> proc_mem" where
  "ContextCreation = create_context DEFAUL_PROCESS_TICK_COUNT"

definition IdleContextCreation :: "u64 \<Rightarrow> u64 \<Rightarrow> u64 \<Rightarrow> proc_mem \<Rightarrow> proc_mem" where
  "IdleContextCreation = create_context 0"

text \<open>
  \<^verbatim>\<open>memcpy(&p->Name, Name, strlen(Name))\<close> into the 16 bytes of the member; a longer name runs
  past the end of the object, which is \<open>None\<close>.
\<close>

definition set_name :: "u64 \<Rightarrow> u8 list \<Rightarrow> proc_mem \<Rightarrow> proc_mem option" where
  "set_name this nm m =
     (if length nm \<le> 16
      then Some (upd_proc this (\<lambda>p. p\<lparr>Name := nm @ drop (length nm) (Name p)\<rparr>) m)
      else None)"

text \<open>\<^verbatim>\<open>new Process(pid)\<close>: 232 bytes from the heap, then the constructor.\<close>

definition new_Process :: "u64 \<Rightarrow> proc_mem \<Rightarrow> (u64 \<times> proc_mem) option" where
  "new_Process pid m =
     (case malloc 232 (kheap_state m) of
        None \<Rightarrow> None
      | Some (p, h) \<Rightarrow> Some (p, construct_process p pid (m\<lparr>kheap_state := h\<rparr>)))"

section \<open>What a new context contains\<close>

lemma with_frames_keeps [simp]:
  "procs (snd (with_frames f m)) = procs m" "fx_mem (snd (with_frames f m)) = fx_mem m"
  "stack_mem (snd (with_frames f m)) = stack_mem m"
  by (simp_all add: with_frames_def split: prod.split)

lemma create_context_process:
  "\<exists>stack fx. let q = procs (create_context ticks this entry dat m) this in
     Context q = zero_context\<lparr>rflags := 0x202, cs := kKernelCS, ss := kKernelSS,
       rsp := stack + 0x20000, rbp := stack + 0x20000, rip := entry, rdi := PID (procs m this),
       rsi := dat\<rparr>
     \<and> Stack q = stack \<and> fx_State q = fx \<and> TimeSlice q = ticks \<and> DefaultTimeSlice q = ticks
     \<and> State q = State (procs m this) \<and> PID q = PID (procs m this)
     \<and> mxcsr (fx_mem (create_context ticks this entry dat m) fx) = 0x1f80
     \<and> fcw (fx_mem (create_context ticks this entry dat m) fx) = 0x33f"
proof -
  obtain stack m1 where 1: "with_frames (RequestPages 32) m = (stack, m1)" by fastforce
  have p1: "procs m1 = procs m" using with_frames_keeps(1) [of "RequestPages 32" m] 1 by simp
  let ?m3 = "upd_proc this (\<lambda>p. p\<lparr>ActiveTicks := 0, TimeSlice := ticks, DefaultTimeSlice := ticks\<rparr>)
     (upd_proc this (\<lambda>p. p\<lparr>Context := zero_context\<lparr>rflags := 0x202, cs := kKernelCS,
                ss := kKernelSS, rsp := stack + DefaultStackBytes * 32,
                rbp := stack + DefaultStackBytes * 32, rip := entry, rdi := PID p,
                rsi := dat\<rparr>\<rparr>)
       ((upd_proc this (\<lambda>p. p\<lparr>Stack := stack\<rparr>) m1)\<lparr>stack_mem :=
          memset stack 0 (DefaultStackBytes * 32) (stack_mem (upd_proc this (\<lambda>p. p\<lparr>Stack := stack\<rparr>) m1))\<rparr>))"
  obtain fx m4 where 2: "with_frames RequestPage ?m3 = (fx, m4)" by fastforce
  have p4: "procs m4 = procs ?m3" using with_frames_keeps(1) [of RequestPage ?m3] 2 by simp
  have c: "create_context ticks this entry dat m =
     (let m = upd_proc this (\<lambda>p. p\<lparr>fx_State := fx\<rparr>) m4;
          area = (fx_mem m fx)\<lparr>fcw := 0, fsw := 0, ftw := 0, fx_zero := 0, fop := 0\<rparr>;
          area = area\<lparr>mxcsr := 0x1f80, mxcsrMask := 0xffbf, fcw := 0x33f\<rparr>
      in m\<lparr>fx_mem := (fx_mem m)(fx := area)\<rparr>)"
    unfolding create_context_def Let_def 1 prod.case 2 ..
  show ?thesis
    unfolding c
    by (intro exI [of _ stack] exI [of _ fx])
      (simp add: upd_proc_def p4 p1 Let_def DefaultStackBytes_def)
qed

end
