(* ===== verification/Vector.thy ===== *)
theory Vector
  imports Kernel_Prelude
begin

text \<open>
  The growable array of \<^verbatim>\<open>inc/common/vector.h\<close> and the spin lock of \<^verbatim>\<open>inc/IO/spinlock.h\<close>
  it takes. \<open>data\<close> is the storage behind the pointer, slot by slot; \<open>allocated\<close> is the test
  \<^verbatim>\<open>if (data)\<close>. What a fresh allocation contains is not determined: it is the argument
  \<open>fresh\<close>. The flag \<open>trivial\<close> is \<^verbatim>\<open>TTraits<T>::is_trivial()\<close>, \<open>nul\<close> the value of an
  all-zero or default-constructed element.
\<close>

section \<open>The spin lock\<close>

text \<open>
  \<open>acquireLock l\<close> is the macro on a lock word with value \<open>l\<close> that no other processor
  releases: it returns the new value and the number of failed attempts.
\<close>

function spin :: "u32 \<Rightarrow> u32 \<Rightarrow> u32 \<times> u32" where
  "spin l i = (if l \<noteq> 0 then if i + 1 < 0xFFFFFFF then spin 1 (i + 1) else (1, i + 1) else (1, i))"
  by pat_completeness auto
termination
proof (relation "measure (\<lambda>(l, i :: u32). if unat i < 0xFFFFFFF then 0xFFFFFFF - unat i else 0x10000000)")
  fix l i :: u32
  assume less: "i + 1 < 0xFFFFFFF"
  show "((1, i + 1), l, i)
      \<in> measure (\<lambda>(l, i :: u32). if unat i < 0xFFFFFFF then 0xFFFFFFF - unat i else 0x10000000)"
  proof (cases "unat i < 0xFFFFFFF")
    case True
    then have "unat (i + 1) = Suc (unat i)" by (subst unat_add_no_wrap) simp_all
    with True less show ?thesis by (simp add: word_less_nat_alt)
  next
    case False
    with less show ?thesis by (simp add: word_less_nat_alt)
  qed
qed simp

declare spin.simps [simp del]

definition acquireLock :: "u32 \<Rightarrow> u32 \<times> u32" where
  "acquireLock l = spin l 0"

definition releaseLock :: "u32 \<Rightarrow> u32" where
  "releaseLock l = 0"

text \<open>\<open>acquireTestLock\<close> returns the old value; the lock is set afterwards in either case.\<close>

definition acquireTestLock :: "u32 \<Rightarrow> u32 \<times> u32" where
  "acquireTestLock l = (1, l)"

lemma spin_held: "unat i < 0xFFFFFFF \<Longrightarrow> spin 1 i = (1, 0xFFFFFFF)"
proof (induction "0xFFFFFFF - unat i" arbitrary: i)
  case 0
  then show ?case by simp
next
  case (Suc d)
  then have s: "unat (i + 1) = Suc (unat i)" by (subst unat_add_no_wrap) simp_all
  show ?case
  proof (cases "unat (i + 1) < 0xFFFFFFF")
    case True
    then have "spin 1 (i + 1) = (1, 0xFFFFFFF)" using Suc.hyps s by (intro Suc.hyps(1)) simp_all
    with True show ?thesis by (subst spin.simps) (simp add: word_less_nat_alt)
  next
    case False
    with s Suc.prems have "unat (i + 1) = unat (0xFFFFFFF :: u32)" by simp
    then have "i + 1 = 0xFFFFFFF" by (simp only: word_eq_iff_unat)
    then show ?thesis by (subst spin.simps) simp
  qed
qed

lemma acquireLock_free [simp]: "acquireLock 0 = (1, 0)"
  by (simp add: acquireLock_def spin.simps)

lemma acquireLock_held: "l \<noteq> 0 \<Longrightarrow> acquireLock l = (1, 0xFFFFFFF)"
  using spin_held [of 0] spin_held [of 1]
  by (simp add: acquireLock_def spin.simps [of l])

lemma acquireLock_sets [simp]: "fst (acquireLock l) = 1"
  by (cases "l = 0") (simp_all add: acquireLock_held)

section \<open>The vector\<close>

record 'a vector =
  data :: "nat \<Rightarrow> 'a"
  allocated :: bool
  count :: u64
  capacity :: u64
  lock :: u32

definition new_vector :: "(nat \<Rightarrow> 'a) \<Rightarrow> 'a vector" where
  "new_vector m = \<lparr>data = m, allocated = False, count = 0, capacity = 0, lock = 0\<rparr>"

definition locked :: "'a vector \<Rightarrow> 'a vector" where
  "locked v = v\<lparr>lock := fst (acquireLock (lock v))\<rparr>"

definition unlocked :: "'a vector \<Rightarrow> 'a vector" where
  "unlocked v = v\<lparr>lock := releaseLock (lock v)\<rparr>"

text \<open>
  The parameter of \<open>EnsureCapacity\<close> is an \<^verbatim>\<open>unsigned\<close>: callers' 64-bit sizes are
  truncated, and \<^verbatim>\<open>size << 1\<close> is a 32-bit shift.
\<close>

definition EnsureCapacity :: "bool \<Rightarrow> 'a \<Rightarrow> (nat \<Rightarrow> 'a) \<Rightarrow> u32 \<Rightarrow> 'a vector \<Rightarrow> 'a vector" where
  "EnsureCapacity trivial nul fresh sz v =
     (if (ucast sz :: u64) \<ge> capacity v then
        let newCapacity = capacity v + ucast (push_bit 1 sz) + 1;
            old = data v;
            kept = (if trivial then unat (capacity v) else min (unat (count v)) (unat (capacity v)));
            new_data = (if allocated v
              then (\<lambda>i. if i < kept then old i
                        else if unat (capacity v) \<le> i \<and> i < unat sz then nul else fresh i)
              else fresh)
        in v\<lparr>data := new_data, allocated := True, capacity := newCapacity\<rparr>
      else v)"

definition at_pos :: "'a vector \<Rightarrow> u64 \<Rightarrow> 'a" where
  "at_pos v pos = data v (unat pos)"

definition get_length :: "'a vector \<Rightarrow> u64" where
  "get_length v = count v"

text \<open>
  Erasing is within bounds only for \<^verbatim>\<open>pos < count\<close> (the assertion is commented out): otherwise
  the length of the \<^verbatim>\<open>memcpy\<close> underflows, or the loop runs away, and memory is overwritten
  without bound; that is \<open>None\<close>.
\<close>

definition EraseUnlocked :: "bool \<Rightarrow> u32 \<Rightarrow> 'a vector \<Rightarrow> 'a vector option" where
  "EraseUnlocked trivial pos v =
     (if (if trivial then count v \<le> ucast pos else count v = 0) then None
      else
        let moved = (if trivial then unat pos + unat (count v - ucast pos - 1) else unat (count v - 1));
            old = data v
        in Some (v\<lparr>data := (\<lambda>i. if unat pos \<le> i \<and> i < moved then old (Suc i) else old i),
                   count := count v - 1\<rparr>))"

definition erase :: "bool \<Rightarrow> u32 \<Rightarrow> 'a vector \<Rightarrow> 'a vector option" where
  "erase trivial pos v = map_option unlocked (EraseUnlocked trivial pos (locked v))"

definition reserve :: "bool \<Rightarrow> 'a \<Rightarrow> (nat \<Rightarrow> 'a) \<Rightarrow> u64 \<Rightarrow> 'a vector \<Rightarrow> 'a vector" where
  "reserve trivial nul fresh allocatedSize v =
     unlocked (EnsureCapacity trivial nul fresh (ucast allocatedSize) (locked v))"

definition resize :: "bool \<Rightarrow> 'a \<Rightarrow> (nat \<Rightarrow> 'a) \<Rightarrow> u64 \<Rightarrow> 'a vector \<Rightarrow> 'a vector" where
  "resize trivial nul fresh newSize v =
     (let v = EnsureCapacity trivial nul fresh (ucast newSize) (locked v);
          oldCount = count v;
          old = data v;
          v = v\<lparr>count := newSize\<rparr>
      in unlocked (v\<lparr>data := (\<lambda>i. if unat oldCount \<le> i \<and> i < unat newSize then nul else old i)\<rparr>))"

definition add_back :: "bool \<Rightarrow> 'a \<Rightarrow> (nat \<Rightarrow> 'a) \<Rightarrow> 'a \<Rightarrow> 'a vector \<Rightarrow> 'a vector" where
  "add_back trivial nul fresh val v =
     (let v = EnsureCapacity trivial nul fresh (ucast (count v + 1)) (locked v);
          slot = unat (count v)
      in unlocked (v\<lparr>count := count v + 1, data := (data v)(slot := val)\<rparr>))"

definition pop_back :: "'a vector \<Rightarrow> 'a \<times> 'a vector" where
  "pop_back v = (let v = v\<lparr>count := count v - 1\<rparr> in (data v (unat (count v)), v))"

text \<open>The search of \<open>remove\<close>, with its 32-bit index.\<close>

definition find_from :: "('a \<Rightarrow> 'a \<Rightarrow> bool) \<Rightarrow> 'a \<Rightarrow> 'a vector \<Rightarrow> nat option" where
  "find_from eq val v = List.find (\<lambda>i. eq (data v i) val) [0..<unat (count v)]"

text \<open>On a hit \<open>remove\<close> returns from inside the loop, without releasing the lock.\<close>

definition remove :: "bool \<Rightarrow> ('a \<Rightarrow> 'a \<Rightarrow> bool) \<Rightarrow> 'a \<Rightarrow> 'a vector \<Rightarrow> 'a vector option" where
  "remove trivial eq val v =
     (let v = locked v in
      case find_from eq val v of
        Some i \<Rightarrow> EraseUnlocked trivial (word_of_nat i) v
      | None \<Rightarrow> Some (unlocked v))"

definition clear :: "(nat \<Rightarrow> 'a) \<Rightarrow> 'a vector \<Rightarrow> 'a vector" where
  "clear null_memory v =
     unlocked ((locked v)\<lparr>count := 0, capacity := 0, data := null_memory, allocated := False\<rparr>)"

text \<open>The copy constructor copies the elements but leaves \<^verbatim>\<open>count\<close> at its default 0.\<close>

definition copy_vector :: "bool \<Rightarrow> 'a \<Rightarrow> (nat \<Rightarrow> 'a) \<Rightarrow> 'a vector \<Rightarrow> 'a vector" where
  "copy_vector trivial nul fresh x =
     (let v = EnsureCapacity trivial nul fresh (ucast (get_length x)) (new_vector fresh);
          old = data v
      in v\<lparr>data := (\<lambda>i. if i < unat (get_length x) then data x i else old i)\<rparr>)"

section \<open>Iterators\<close>

record 'a iterator =
  it_pos :: u64
  it_vec :: "'a vector"

definition begin_it :: "'a vector \<Rightarrow> 'a iterator" where
  "begin_it v = \<lparr>it_pos = 0, it_vec = v\<rparr>"

definition end_it :: "'a vector \<Rightarrow> 'a iterator" where
  "end_it v = \<lparr>it_pos = count v, it_vec = v\<rparr>"

definition next_it :: "'a iterator \<Rightarrow> 'a iterator" where
  "next_it it = it\<lparr>it_pos := it_pos it + 1\<rparr>"

definition deref :: "'a iterator \<Rightarrow> 'a" where
  "deref it = data (it_vec it) (unat (it_pos it))"

definition eq_it :: "'a iterator \<Rightarrow> 'a iterator \<Rightarrow> bool" where
  "eq_it l r = (it_pos l = it_pos r)"

section \<open>The list a vector holds\<close>

definition items :: "'a vector \<Rightarrow> 'a list" where
  "items v = map (data v) [0..<unat (count v)]"

text \<open>A sound vector: storage whenever there are elements, room for all of them, below 2^31.\<close>

definition vector_ok :: "'a vector \<Rightarrow> bool" where
  "vector_ok v \<longleftrightarrow> (allocated v \<or> capacity v = 0) \<and> count v \<le> capacity v \<and> unat (count v) < 2 ^ 31"

lemma length_items [simp]: "length (items v) = unat (count v)"
  by (simp add: items_def)

lemma items_lock [simp]: "items (locked v) = items v" "items (unlocked v) = items v"
  by (simp_all add: items_def locked_def unlocked_def)

lemma vector_ok_lock [simp]: "vector_ok (locked v) = vector_ok v" "vector_ok (unlocked v) = vector_ok v"
  by (simp_all add: vector_ok_def locked_def unlocked_def)

lemma lock_fields [simp]:
  "count (locked v) = count v" "data (locked v) = data v" "count (unlocked v) = count v"
  "data (unlocked v) = data v" "capacity (locked v) = capacity v" "capacity (unlocked v) = capacity v"
  "allocated (locked v) = allocated v" "allocated (unlocked v) = allocated v"
  "lock (locked v) = 1" "lock (unlocked v) = 0"
  by (simp_all add: locked_def unlocked_def releaseLock_def)

lemma nth_items: "i < unat (count v) \<Longrightarrow> items v ! i = data v i"
  by (simp add: items_def)

lemma items_eqI:
  assumes "length xs = unat (count v)" and "\<And>i. i < unat (count v) \<Longrightarrow> data v i = xs ! i"
  shows "items v = xs"
  using assms by (intro nth_equalityI) (simp_all add: nth_items)

lemma EnsureCapacity_spec:
  assumes "vector_ok v" and "unat sz < 2 ^ 31"
  shows "items (EnsureCapacity tr nul fresh sz v) = items v
    \<and> vector_ok (EnsureCapacity tr nul fresh sz v)
    \<and> count (EnsureCapacity tr nul fresh sz v) = count v
    \<and> lock (EnsureCapacity tr nul fresh sz v) = lock v
    \<and> unat sz < unat (capacity (EnsureCapacity tr nul fresh sz v))
    \<and> allocated (EnsureCapacity tr nul fresh sz v)"
proof (cases "(ucast sz :: u64) \<ge> capacity v")
  case False
  then have "unat sz < unat (capacity v)" by (simp add: not_le word_less_nat_alt)
  then show ?thesis using False assms(1) by (auto simp: EnsureCapacity_def vector_ok_def)
next
  case True
  have sz: "unat (ucast sz :: u64) = unat sz" by (rule unat_widen)
  have cap: "unat (capacity v) \<le> unat sz" using True sz by (simp add: word_le_nat_alt)
  have "unat (push_bit 1 sz) = 2 * unat sz"
    using assms(2) by (simp add: push_bit_eq_mult unat_mult_no_wrap)
  then have shifted: "unat (ucast (push_bit 1 sz) :: u64) = 2 * unat sz"
    by (simp only: unat_widen)
  have new: "unat (capacity v + ucast (push_bit 1 sz) + 1) = unat (capacity v) + 2 * unat sz + 1"
    using cap assms(2) shifted
    by (subst unat_add_no_wrap; subst unat_add_no_wrap; simp)
  let ?v = "EnsureCapacity tr nul fresh sz v"
  have v: "count ?v = count v" "lock ?v = lock v" "allocated ?v"
    "capacity ?v = capacity v + ucast (push_bit 1 sz) + 1"
    using True by (simp_all add: EnsureCapacity_def Let_def)
  have le: "unat (count v) \<le> unat (capacity v)" using assms(1) by (simp add: vector_ok_def word_le_nat_alt)
  have "data ?v i = data v i" if "i < unat (count v)" for i
  proof -
    have "unat (capacity v) \<noteq> 0" using that le by simp
    then have "allocated v" using assms(1) by (auto simp: vector_ok_def)
    then show ?thesis using that le True by (simp add: EnsureCapacity_def Let_def)
  qed
  then have "items ?v = items v" by (simp add: items_def v(1) cong: map_cong)
  moreover have "vector_ok ?v"
    using assms(1) le new v by (simp add: vector_ok_def word_le_nat_alt)
  ultimately show ?thesis using v new by simp
qed

lemma ucast_length:
  assumes "unat (n :: u64) < 2 ^ 32"
  shows "unat (ucast n :: u32) = unat n"
  using assms by (simp add: unsigned_ucast_eq take_bit_nat_eq_self)

lemma add_back_spec:
  assumes "vector_ok v" and "unat (count v) + 1 < 2 ^ 31"
  shows "items (add_back tr nul fresh x v) = items v @ [x] \<and> vector_ok (add_back tr nul fresh x v)
    \<and> lock (add_back tr nul fresh x v) = 0"
proof -
  have c: "unat (count v + 1) = unat (count v) + 1" using assms(2) by (subst unat_add_no_wrap) simp_all
  then have s: "unat (ucast (count v + 1) :: u32) = unat (count v) + 1"
    using assms(2) by (subst ucast_length) simp_all
  let ?e = "EnsureCapacity tr nul fresh (ucast (count v + 1)) (locked v)"
  have e: "items ?e = items v" "vector_ok ?e" "count ?e = count v"
    "unat (count v) + 1 < unat (capacity ?e)" "allocated ?e"
    using EnsureCapacity_spec [of "locked v" "ucast (count v + 1)" tr nul fresh] assms s by simp_all
  have d: "data ?e i = data v i" if "i < unat (count v)" for i
    using that e(1,3) nth_items [of i ?e] nth_items [of i v] by simp
  have "items (add_back tr nul fresh x v) = items v @ [x]"
    by (rule items_eqI)
      (use c e d in \<open>auto simp: add_back_def Let_def nth_append nth_items less_Suc_eq\<close>)
  moreover have "vector_ok (add_back tr nul fresh x v)"
    using e c assms(2) by (simp add: add_back_def Let_def vector_ok_def word_le_nat_alt)
  ultimately show ?thesis by (simp add: add_back_def Let_def)
qed

lemma EraseUnlocked_spec:
  assumes "vector_ok v" and "unat p < unat (count v)"
  shows "\<exists>v'. EraseUnlocked tr p v = Some v' \<and> vector_ok v' \<and> lock v' = lock v
    \<and> items v' = take (unat p) (items v) @ drop (Suc (unat p)) (items v)"
proof -
  have p64: "unat (ucast p :: u64) = unat p" by (rule unat_widen)
  have c1: "unat (count v - 1) = unat (count v) - 1"
    using assms(2) by (subst unat_sub_no_wrap) simp_all
  have cp: "unat (count v - ucast p - 1) = unat (count v) - unat p - 1"
    using assms(2) p64 by (subst unat_sub_no_wrap; subst unat_sub_no_wrap) simp_all
  have not_le: "\<not> count v \<le> ucast p" "count v \<noteq> 0"
    using assms(2) p64 by (auto simp: word_le_nat_alt)
  define v' where "v' = v\<lparr>data := (\<lambda>i. if unat p \<le> i \<and> i < unat (count v) - 1
      then data v (Suc i) else data v i), count := count v - 1\<rparr>"
  have lim: "unat p + unat (count v - ucast p - 1) = unat (count v) - 1"
    using cp assms(2) by simp
  have r: "EraseUnlocked tr p v = Some v'"
    using not_le c1 lim by (simp add: EraseUnlocked_def v'_def Let_def)
  have it: "items v' = take (unat p) (items v) @ drop (Suc (unat p)) (items v)"
  proof (rule items_eqI)
    show "length (take (unat p) (items v) @ drop (Suc (unat p)) (items v)) = unat (count v')"
      using assms(2) c1 by (simp add: v'_def)
    show "data v' i = (take (unat p) (items v) @ drop (Suc (unat p)) (items v)) ! i"
      if "i < unat (count v')" for i
      using that assms(2) c1 by (auto simp: v'_def nth_append nth_items)
  qed
  have "count v - 1 \<le> count v" using c1 by (simp add: word_le_nat_alt)
  then have ok: "vector_ok v'"
    using assms(1) c1 by (auto simp: vector_ok_def v'_def intro: order_trans)
  have "lock v' = lock v" by (simp add: v'_def)
  with r ok it show ?thesis by blast
qed

lemma erase_spec:
  assumes "vector_ok v" and "unat p < unat (count v)"
  shows "\<exists>v'. erase tr p v = Some v' \<and> vector_ok v' \<and> lock v' = 0
    \<and> items v' = take (unat p) (items v) @ drop (Suc (unat p)) (items v)"
  using EraseUnlocked_spec [of "locked v" p tr] assms by (auto simp: erase_def)

lemma takeWhile_shorter:
  "x \<in> set xs \<Longrightarrow> length (takeWhile (\<lambda>y. y \<noteq> x) xs) < length xs"
  by (induction xs) auto

lemma find_items: "List.find (\<lambda>i. xs ! i = x) [0..<length xs]
    = (if x \<in> set xs then Some (length (takeWhile (\<lambda>y. y \<noteq> x) xs)) else None)"
proof (cases "x \<in> set xs")
  case False
  then show ?thesis by (auto simp: find_None_iff in_set_conv_nth)
next
  case True
  let ?k = "length (takeWhile (\<lambda>y. y \<noteq> x) xs)"
  have k: "?k < length xs" using True by (rule takeWhile_shorter)
  have "xs ! ?k = x" using nth_length_takeWhile [OF k] by simp
  moreover have "xs ! j \<noteq> x" if "j < ?k" for j
  proof -
    have "takeWhile (\<lambda>y. y \<noteq> x) xs ! j \<in> set (takeWhile (\<lambda>y. y \<noteq> x) xs)"
      using that by (rule nth_mem)
    then have "takeWhile (\<lambda>y. y \<noteq> x) xs ! j \<noteq> x" using set_takeWhileD by fastforce
    then show ?thesis using takeWhile_nth [OF that] by simp
  qed
  ultimately have "List.find (\<lambda>i. xs ! i = x) [0..<length xs] = Some ?k"
    using k by (intro find_Some_iff [THEN iffD2] exI [of _ ?k]) auto
  then show ?thesis using True by simp
qed

lemma remove1_takeWhile:
  "x \<in> set xs \<Longrightarrow> remove1 x xs
    = take (length (takeWhile (\<lambda>y. y \<noteq> x) xs)) xs @ drop (Suc (length (takeWhile (\<lambda>y. y \<noteq> x) xs))) xs"
  by (induction xs) auto

lemma remove_spec:
  assumes "vector_ok v"
  shows "\<exists>v'. remove tr (=) x v = Some v' \<and> vector_ok v' \<and> items v' = remove1 x (items v)
    \<and> lock v' = (if x \<in> set (items v) then 1 else 0)"
proof -
  have "find_from (=) x (locked v) = List.find (\<lambda>i. items v ! i = x) [0..<length (items v)]"
    unfolding find_from_def by (intro find_cong) (auto simp: nth_items)
  also note find_items
  finally have f: "find_from (=) x (locked v)
      = (if x \<in> set (items v) then Some (length (takeWhile (\<lambda>y. y \<noteq> x) (items v))) else None)" .
  show ?thesis
  proof (cases "x \<in> set (items v)")
    case False
    then show ?thesis using f assms by (simp add: remove_def Let_def remove1_idem)
  next
    case True
    let ?k = "length (takeWhile (\<lambda>y. y \<noteq> x) (items v))"
    have k: "?k < unat (count v)" using takeWhile_shorter [OF True] by simp
    have "unat (count v) < 2 ^ 31" using assms by (simp add: vector_ok_def)
    then have u: "unat (word_of_nat ?k :: u32) = ?k" using k by (intro unat_of_nat_u32) simp
    have "vector_ok (locked v)" "unat (word_of_nat ?k :: u32) < unat (count (locked v))"
      using assms k u by simp_all
    from EraseUnlocked_spec [OF this, of tr] show ?thesis
      using f True u remove1_takeWhile [OF True] by (auto simp: remove_def Let_def)
  qed
qed

section \<open>The interface of the scheduler's run queue\<close>

text \<open>
  What the scheduler relies on: a queue holds a list, its length and its front can be read, the
  front can be dropped, an element put at the back or taken out wherever it is.
\<close>

locale run_queue =
  fixes contents :: "'q \<Rightarrow> 'p list" and ok :: "'q \<Rightarrow> bool" and len :: "'q \<Rightarrow> u64"
    and front :: "'q \<Rightarrow> 'p" and drop_front :: "'q \<Rightarrow> 'q option"
    and push_back :: "'p \<Rightarrow> 'q \<Rightarrow> 'q" and take_out :: "'p \<Rightarrow> 'q \<Rightarrow> 'q option"
  assumes len_law: "ok q \<Longrightarrow> unat (len q) = length (contents q)"
    and front_law: "ok q \<Longrightarrow> contents q \<noteq> [] \<Longrightarrow> front q = hd (contents q)"
    and drop_law: "ok q \<Longrightarrow> contents q \<noteq> [] \<Longrightarrow>
      \<exists>q'. drop_front q = Some q' \<and> ok q' \<and> contents q' = tl (contents q)"
    and push_law: "ok q \<Longrightarrow> Suc (length (contents q)) < 2 ^ 31 \<Longrightarrow>
      ok (push_back x q) \<and> contents (push_back x q) = contents q @ [x]"
    and take_law: "ok q \<Longrightarrow>
      \<exists>q'. take_out x q = Some q' \<and> ok q' \<and> contents q' = remove1 x (contents q)"
begin

text \<open>Dropping the front and pushing it back rotates the queue.\<close>

lemma rotation:
  assumes "ok q" and "contents q = x # xs" and "length (contents q) < 2 ^ 31"
  shows "\<exists>q' q''. drop_front q = Some q' \<and> push_back x q' = q'' \<and> ok q'' \<and> contents q'' = xs @ [x]"
proof -
  obtain q' where q': "drop_front q = Some q'" "ok q'" "contents q' = xs"
    using drop_law [OF assms(1)] assms(2) by auto
  then show ?thesis using push_law [of q' x] assms(2,3) by simp
qed

lemma empty_iff: "ok q \<Longrightarrow> len q = 0 \<longleftrightarrow> contents q = []"
  using len_law [of q] by (auto simp: unat_eq_0 [symmetric])

lemma taken: "ok q \<Longrightarrow> distinct (contents q) \<Longrightarrow> take_out x q = Some q' \<Longrightarrow>
    ok q' \<and> set (contents q') = set (contents q) - {x}"
  using take_law [of q x] by auto

end

interpretation rq: run_queue items vector_ok get_length "\<lambda>v. at_pos v 0" "erase True 0"
    "add_back True nul fresh" "remove True (=)" for nul fresh
proof
  fix q :: "'a vector"
  assume "vector_ok q"
  then show "unat (get_length q) = length (items q)" by (simp add: get_length_def)
next
  fix q :: "'a vector"
  assume "items q \<noteq> []"
  then have "0 < unat (count q)" by (simp add: items_def)
  then show "at_pos q 0 = hd (items q)"
    using nth_items [of 0 q] by (simp add: at_pos_def hd_conv_nth \<open>items q \<noteq> []\<close>)
next
  fix q :: "'a vector"
  assume q: "vector_ok q" "items q \<noteq> []"
  then have "0 < unat (count q)" by (simp add: items_def)
  then show "\<exists>q'. erase True 0 q = Some q' \<and> vector_ok q' \<and> items q' = tl (items q)"
    using erase_spec [OF q(1), of 0 True] by (auto simp: drop_Suc)
next
  fix q :: "'a vector" and x
  assume "vector_ok q" "Suc (length (items q)) < 2 ^ 31"
  then show "vector_ok (add_back True nul fresh x q) \<and> items (add_back True nul fresh x q) = items q @ [x]"
    using add_back_spec [of q True nul fresh x] by simp
next
  fix q :: "'a vector" and x
  assume "vector_ok q"
  then show "\<exists>q'. remove True (=) x q = Some q' \<and> vector_ok q' \<and> items q' = remove1 x (items q)"
    using remove_spec [of q True x] by auto
qed

lemma vector_ok_new [simp]: "vector_ok (new_vector m)" "items (new_vector m) = []"
  "count (new_vector m) = 0"
  by (simp_all add: vector_ok_def new_vector_def items_def)

lemma vector_ok_clear [simp]: "vector_ok (clear m v)" "items (clear m v) = []" "lock (clear m v) = 0"
  by (simp_all add: vector_ok_def clear_def items_def)

section \<open>Properties\<close>

text \<open>C36. A vector is a list: \<open>add_back\<close> appends one element (growing the storage when it is
  full), keeps the rest in order and releases the lock, and \<open>pop_back\<close> takes exactly that
  element off again.\<close>

theorem add_back_pop_back:
  assumes "vector_ok v" and "unat (count v) + 1 < 2 ^ 31"
  shows "items (add_back tr nul fresh x v) = items v @ [x] \<and> vector_ok (add_back tr nul fresh x v)
    \<and> lock (add_back tr nul fresh x v) = 0
    \<and> fst (pop_back (add_back tr nul fresh x v)) = x
    \<and> items (snd (pop_back (add_back tr nul fresh x v))) = items v"
proof -
  let ?w = "add_back tr nul fresh x v"
  note spec = add_back_spec [OF assms, of tr nul fresh x]
  then have "length (items ?w) = length (items v @ [x])" by (simp only:)
  then have l: "unat (count ?w) = unat (count v) + 1" by simp
  then have c: "unat (count ?w - 1) = unat (count v)" by (subst unat_sub_no_wrap) simp_all
  then have "data ?w (unat (count ?w - 1)) = x"
    using spec nth_items [of "unat (count v)" ?w] l by (simp add: nth_append)
  moreover have "items (snd (pop_back ?w)) = items v"
  proof (rule items_eqI)
    show "length (items v) = unat (count (snd (pop_back ?w)))" using c by (simp add: pop_back_def Let_def)
    show "data (snd (pop_back ?w)) i = items v ! i" if "i < unat (count (snd (pop_back ?w)))" for i
      using that c l spec nth_items [of i ?w] by (simp add: pop_back_def Let_def nth_append)
  qed
  ultimately show ?thesis using spec by (simp add: pop_back_def Let_def)
qed

theorem add_back_pop_back_witness:
  "items (add_back True 0 (\<lambda>_. 7) (5 :: u64) (new_vector (\<lambda>_. 0))) = [5]"
  using add_back_pop_back [of "new_vector (\<lambda>_. 0)" True 0 "\<lambda>_. 7" "5 :: u64"]
  by simp

text \<open>\<open>erase\<close> removes exactly the element at the given position and closes the gap, for
  trivially copied and for moved elements alike.\<close>

theorem erase_removes:
  assumes "vector_ok v" and "unat p < unat (count v)"
  shows "\<exists>v'. erase tr p v = Some v' \<and> vector_ok v' \<and> lock v' = 0
    \<and> items v' = take (unat p) (items v) @ drop (Suc (unat p)) (items v)"
  using assms by (rule erase_spec)

theorem erase_removes_witness:
  "let v = \<lparr>data = (\<lambda>i. if i = 0 then 4 else if i = 1 then 5 else 6 :: u64), allocated = True,
            count = 3, capacity = 7, lock = 0\<rparr>
   in \<exists>v'. erase True 1 v = Some v' \<and> items v' = [4, 6]"
proof -
  let ?v = "\<lparr>data = (\<lambda>i. if i = 0 then 4 else if i = 1 then 5 else 6 :: u64), allocated = True,
            count = 3, capacity = 7, lock = 0\<rparr>"
  have "vector_ok ?v" by (simp add: vector_ok_def)
  moreover have "unat (1 :: u32) < unat (count ?v)" by simp
  moreover have "items ?v = [4, 5, 6]" by (simp add: items_def upt_rec)
  ultimately show ?thesis using erase_removes [of ?v 1 True] by (auto simp: Let_def)
qed

text \<open>\<open>remove\<close> deletes the first occurrence of a value, but when it finds one it returns
  with the vector's lock still held; only an unsuccessful search releases it.\<close>

theorem remove_keeps_lock:
  assumes "vector_ok v"
  shows "\<exists>v'. remove tr (=) x v = Some v' \<and> items v' = remove1 x (items v)
    \<and> lock v' = (if x \<in> set (items v) then 1 else 0)"
  using remove_spec [OF assms] by blast

theorem remove_keeps_lock_witness:
  "let v = add_back True 0 (\<lambda>_. 7) (5 :: u64) (new_vector (\<lambda>_. 0))
   in \<exists>v'. remove True (=) 5 v = Some v' \<and> items v' = [] \<and> lock v' = 1"
proof -
  let ?v = "add_back True 0 (\<lambda>_. 7) (5 :: u64) (new_vector (\<lambda>_. 0))"
  have "vector_ok ?v \<and> items ?v = [5]"
    using add_back_spec [of "new_vector (\<lambda>_. 0)" True 0 "\<lambda>_. 7" "5 :: u64"]
    by simp
  then show ?thesis using remove_keeps_lock [of ?v True 5] by (auto simp: Let_def)
qed

text \<open>The copy constructor loses the contents: it copies the elements but never sets the
  length, so a copy of any vector is empty.\<close>

theorem copy_vector_empty: "items (copy_vector tr nul fresh x) = []"
  by (simp add: copy_vector_def items_def Let_def EnsureCapacity_def new_vector_def)

text \<open>The spin lock gives up: on a lock another processor holds, \<open>acquireLock\<close> returns
  after 0xFFFFFFF attempts as if it had the lock, so it does not guarantee mutual exclusion.\<close>

theorem acquireLock_gives_up: "acquireLock l = (1, if l = 0 then 0 else 0xFFFFFFF)"
  by (simp add: acquireLock_held)

end
