(* ===== verification/Gdt.thy ===== *)
theory Gdt
  imports PageFrameAllocator Memory
begin

text \<open>
  The global descriptor table and the task state segment: \<^verbatim>\<open>src/gdt/gdt.cpp\<close> and
  \<^verbatim>\<open>src/gdt/tss.cpp\<close>. \<open>descriptor_base\<close> reads the base address of a TSS descriptor the way
  the processor assembles it.
\<close>

record GDTDescriptor =
  gdt_Size :: u16
  Offset :: u64

record GDTEntry =
  Limit0 :: u16
  Base0 :: u16
  Base1 :: u8
  AccessByte :: u8
  Limit1_Flags :: u8
  Base2 :: u8

record GDT64EntryTSS =
  tss_Length :: u16
  Low :: u16
  Middle :: u8
  tss_AccessByte :: u8
  tss_Limit1_Flags :: u8
  High :: u8
  High32 :: u32
  tss_Reserved :: u32

record GDT =
  Null :: GDTEntry
  KernelCode :: GDTEntry
  KernelData :: GDTEntry
  UserCode :: GDTEntry
  UserData :: GDTEntry
  gdt_TSS :: GDT64EntryTSS

record TSS =
  Reserved :: u32
  Rsp0 :: u64
  Rsp1 :: u64
  Rsp2 :: u64
  Reserved2 :: u64
  Ist1 :: u64
  Ist2 :: u64
  Ist3 :: u64
  Ist4 :: u64
  Ist5 :: u64
  Ist6 :: u64
  Ist7 :: u64
  Reserved3 :: u64
  Reserved4 :: u32
  IopbOffset :: u32

definition segment :: "u8 \<Rightarrow> u8 \<Rightarrow> GDTEntry" where
  "segment access flags = \<lparr>Limit0 = 0, Base0 = 0, Base1 = 0, AccessByte = access,
     Limit1_Flags = flags, Base2 = 0\<rparr>"

definition default_GDT :: GDT where
  "default_GDT =
     \<lparr>Null = segment 0x00 0x00, KernelCode = segment 0x9a 0xa0, KernelData = segment 0x92 0xa0,
      UserCode = segment 0xFA 0xCF, UserData = segment 0xF2 0xCF,
      gdt_TSS = \<lparr>tss_Length = 108, Low = 0, Middle = 0, tss_AccessByte = 0x89,
        tss_Limit1_Flags = 0xCF, High = 0, High32 = 0, tss_Reserved = 0\<rparr>\<rparr>"

definition zero_TSS :: TSS where
  "zero_TSS = \<lparr>Reserved = 0, Rsp0 = 0, Rsp1 = 0, Rsp2 = 0, Reserved2 = 0, Ist1 = 0, Ist2 = 0,
     Ist3 = 0, Ist4 = 0, Ist5 = 0, Ist6 = 0, Ist7 = 0, Reserved3 = 0, Reserved4 = 0, IopbOffset = 0\<rparr>"

text \<open>
  \<open>InitTSS\<close> on the descriptor table, the segment, the frames and the memory of the stacks;
  \<open>tss\<close> is the segment's address, \<open>stack\<close> the value of the stack pointer register. The result
  ends with the selector loaded into the task register.
\<close>

definition tss_descriptor :: "u64 \<Rightarrow> GDT64EntryTSS \<Rightarrow> GDT64EntryTSS" where
  "tss_descriptor tss d = d\<lparr>tss_Length := 108, Low := ucast (tss AND 0xFFFF),
     Middle := ucast (drop_bit 16 tss AND 0xFF), High := ucast (drop_bit 24 tss AND 0xFF),
     High32 := ucast (drop_bit 32 tss AND 0xFFFFFFFF), tss_Reserved := 0\<rparr>"

definition InitTSS :: "u64 \<Rightarrow> u64 \<Rightarrow> GDT \<Rightarrow> pfa \<Rightarrow> memory \<Rightarrow> GDT \<times> TSS \<times> pfa \<times> memory \<times> u16" where
  "InitTSS tss stack gdt f m =
     (let gdt = gdt\<lparr>gdt_TSS := tss_descriptor tss (gdt_TSS gdt)\<rparr>;
          t = zero_TSS;
          (a1, f) = RequestPages 8 f; t = t\<lparr>Ist1 := a1\<rparr>;
          (a2, f) = RequestPages 8 f; t = t\<lparr>Ist2 := a2\<rparr>;
          (a3, f) = RequestPages 8 f; t = t\<lparr>Ist3 := a3\<rparr>;
          m = memset (Ist1 t) 0 (0x1000 * 8) m;
          m = memset (Ist2 t) 0 (0x1000 * 8) m;
          m = memset (Ist3 t) 0 (0x1000 * 8) m;
          t = t\<lparr>Ist1 := Ist1 t + 0x1000 * 8, Ist2 := Ist2 t + 0x1000 * 8, Ist3 := Ist3 t + 0x1000 * 8\<rparr>;
          t = t\<lparr>Rsp0 := stack\<rparr>
      in (gdt, t, f, m, 0x28))"

definition SetKernelStack :: "TSS \<Rightarrow> u64 \<Rightarrow> TSS" where
  "SetKernelStack t stack = t\<lparr>Rsp0 := stack\<rparr>"

section \<open>The descriptor as the processor reads it\<close>

definition descriptor_base :: "GDT64EntryTSS \<Rightarrow> u64" where
  "descriptor_base d = (ucast (Low d) :: u64) OR push_bit 16 (ucast (Middle d) :: u64) OR
     push_bit 24 (ucast (High d) :: u64) OR push_bit 32 (ucast (High32 d) :: u64)"

section \<open>Properties\<close>

text \<open>The TSS descriptor round trip: the base address \<open>InitTSS\<close> splits over four fields of
  the descriptor is the one the processor puts together again, for every address.\<close>

theorem tss_descriptor_base: "descriptor_base (tss_descriptor tss d) = tss"
proof -
  have m: "(0xFFFF :: u64) = mask 16" "(0xFF :: u64) = mask 8" "(0xFFFFFFFF :: u64) = mask 32"
    by (simp_all add: mask_eq_exp_minus_1)
  show ?thesis
  proof (rule bit_word_eqI)
    fix n :: nat
    assume "n < LENGTH(64)"
    then consider "n < 16" | "16 \<le> n" "n < 24" | "24 \<le> n" "n < 32" | "32 \<le> n" "n < 64" by fastforce
    then show "bit (descriptor_base (tss_descriptor tss d)) n = bit tss n"
      unfolding descriptor_base_def tss_descriptor_def m
      by cases (auto simp: bit_simps)
  qed
qed

end
