(* ===== verification/ByteInteraction.thy ===== *)
theory ByteInteraction
  imports Memory
begin

text \<open>
  Integers in buffers: \<^verbatim>\<open>src/fs/ByteInteraction.cpp\<close>. The \<open>Get\<close> functions read big-endian
  integers byte by byte; \<open>LittleEndian\<close> and \<open>BigEndian\<close> exchange the bytes of an integer. A plain
  access through a typed pointer is little-endian, as the processor does it: \<open>load16\<close>,
  \<open>load32\<close>, \<open>load64\<close>.
\<close>

section \<open>Typed accesses\<close>

definition load16 :: "memory \<Rightarrow> u64 \<Rightarrow> u16" where
  "load16 m p = ucast (m p) OR push_bit 8 (ucast (m (p + 1)))"

definition load32 :: "memory \<Rightarrow> u64 \<Rightarrow> u32" where
  "load32 m p = ucast (load16 m p) OR push_bit 16 (ucast (load16 m (p + 2)))"

definition load64 :: "memory \<Rightarrow> u64 \<Rightarrow> u64" where
  "load64 m p = ucast (load32 m p) OR push_bit 32 (ucast (load32 m (p + 4)))"

definition load_bytes :: "memory \<Rightarrow> u64 \<Rightarrow> nat \<Rightarrow> u8 list" where
  "load_bytes m p n = map (\<lambda>i. m (p + of_nat i)) [0..<n]"

section \<open>Reading buffers\<close>

definition GetByte :: "memory \<Rightarrow> u64 \<Rightarrow> u64 \<Rightarrow> u8" where
  "GetByte m Buffer start = m (Buffer + start)"

definition Get2Byte :: "memory \<Rightarrow> u64 \<Rightarrow> u64 \<Rightarrow> u16" where
  "Get2Byte m Buffer start =
     (let B1 = GetByte m Buffer start; B2 = GetByte m Buffer (start + 1)
      in push_bit 8 (ucast B1) OR ucast B2)"

definition Get4Byte :: "memory \<Rightarrow> u64 \<Rightarrow> u64 \<Rightarrow> u32" where
  "Get4Byte m Buffer start =
     (let U16_1 = Get2Byte m Buffer start; U16_2 = Get2Byte m Buffer (start + 2)
      in push_bit 16 (ucast U16_1) OR ucast U16_2)"

definition Get8Byte :: "memory \<Rightarrow> u64 \<Rightarrow> u64 \<Rightarrow> u64" where
  "Get8Byte m Buffer start =
     (let U32_1 = ucast (Get4Byte m Buffer start) :: u64;
          U32_2 = ucast (Get4Byte m Buffer (start + 0x04)) :: u64;
          U32_1 = push_bit 32 U32_1
      in (U32_1 AND 0xFFFFFFFF00000000) OR (U32_2 AND 0x00000000FFFFFFFF))"

section \<open>Byte order\<close>

definition LittleEndian16 :: "u16 \<Rightarrow> u16" where
  "LittleEndian16 x =
     (let B1 = push_bit 8 (x AND 0x00FF); B2 = drop_bit 8 (x AND 0xFF00) in B1 OR B2)"

definition LittleEndian32 :: "u32 \<Rightarrow> u32" where
  "LittleEndian32 x =
     (let B1 = push_bit 24 (x AND 0x000000FF); B2 = push_bit 8 (x AND 0x0000FF00);
          B3 = drop_bit 8 (x AND 0x00FF0000); B4 = drop_bit 24 (x AND 0xFF000000)
      in B1 OR B2 OR B3 OR B4)"

definition LittleEndian64 :: "u64 \<Rightarrow> u64" where
  "LittleEndian64 x =
     (let B1 = push_bit 56 (x AND 0x00000000000000FF); B2 = push_bit 40 (x AND 0x000000000000FF00);
          B3 = push_bit 24 (x AND 0x0000000000FF0000); B4 = push_bit 8 (x AND 0x00000000FF000000);
          B5 = drop_bit 8 (x AND 0x000000FF00000000); B6 = drop_bit 24 (x AND 0x0000FF0000000000);
          B7 = drop_bit 40 (x AND 0x00FF000000000000); B8 = drop_bit 56 (x AND 0xFF00000000000000)
      in B1 OR B2 OR B3 OR B4 OR B5 OR B6 OR B7 OR B8)"

definition BigEndian16 :: "u16 \<Rightarrow> u16" where
  "BigEndian16 x =
     (let B1 = push_bit 8 (x AND 0x00FF); B2 = drop_bit 8 (x AND 0xFF00) in B1 OR B2)"

definition BigEndian32 :: "u32 \<Rightarrow> u32" where
  "BigEndian32 x =
     (let B1 = push_bit 24 (x AND 0x000000FF); B2 = push_bit 8 (x AND 0x0000FF00);
          B3 = drop_bit 8 (x AND 0x00FF0000); B4 = drop_bit 24 (x AND 0xFF000000)
      in B1 OR B2 OR B3 OR B4)"

definition BigEndian64 :: "u64 \<Rightarrow> u64" where
  "BigEndian64 x =
     (let B1 = push_bit 56 (x AND 0x00000000000000FF); B2 = push_bit 40 (x AND 0x000000000000FF00);
          B3 = push_bit 24 (x AND 0x0000000000FF0000); B4 = push_bit 8 (x AND 0x00000000FF000000);
          B5 = drop_bit 8 (x AND 0x000000FF00000000); B6 = drop_bit 24 (x AND 0x0000FF0000000000);
          B7 = drop_bit 40 (x AND 0x00FF000000000000); B8 = drop_bit 56 (x AND 0xFF00000000000000)
      in B1 OR B2 OR B3 OR B4 OR B5 OR B6 OR B7 OR B8)"

section \<open>The bits of a swapped integer\<close>

lemma BigEndian_eq:
  "BigEndian16 = LittleEndian16" "BigEndian32 = LittleEndian32" "BigEndian64 = LittleEndian64"
  by (simp_all add: fun_eq_iff BigEndian16_def LittleEndian16_def BigEndian32_def LittleEndian32_def
      BigEndian64_def LittleEndian64_def)

lemma byte_masks16: "(0x00FF :: u16) = mask 8" "(0xFF00 :: u16) = push_bit 8 (mask 8)"
  by (simp_all add: mask_eq_exp_minus_1 push_bit_eq_mult)

lemma byte_masks32: "(0x000000FF :: u32) = mask 8" "(0x0000FF00 :: u32) = push_bit 8 (mask 8)"
  "(0x00FF0000 :: u32) = push_bit 16 (mask 8)" "(0xFF000000 :: u32) = push_bit 24 (mask 8)"
  by (simp_all add: mask_eq_exp_minus_1 push_bit_eq_mult)

lemma byte_masks64: "(0x00000000000000FF :: u64) = mask 8" "(0x000000000000FF00 :: u64) = push_bit 8 (mask 8)"
  "(0x0000000000FF0000 :: u64) = push_bit 16 (mask 8)" "(0x00000000FF000000 :: u64) = push_bit 24 (mask 8)"
  "(0x000000FF00000000 :: u64) = push_bit 32 (mask 8)" "(0x0000FF0000000000 :: u64) = push_bit 40 (mask 8)"
  "(0x00FF000000000000 :: u64) = push_bit 48 (mask 8)" "(0xFF00000000000000 :: u64) = push_bit 56 (mask 8)"
  by (simp_all add: mask_eq_exp_minus_1 push_bit_eq_mult)

lemma bit_LittleEndian16: "bit (LittleEndian16 x) n = (if n < 8 then bit x (n + 8) else n < 16 \<and> bit x (n - 8))"
  unfolding LittleEndian16_def Let_def byte_masks16
  by (cases "n < 8"; cases "n < 16") (auto simp: bit_simps add.commute)

lemma bit_LittleEndian32: "bit (LittleEndian32 x) n =
    (if n < 8 then bit x (n + 24) else if n < 16 then bit x (n + 8)
     else if n < 24 then bit x (n - 8) else n < 32 \<and> bit x (n - 24))"
proof -
  consider "n < 8" | "8 \<le> n" "n < 16" | "16 \<le> n" "n < 24" | "24 \<le> n" "n < 32" | "32 \<le> n" by linarith
  then show ?thesis
    unfolding LittleEndian32_def Let_def byte_masks32 by cases (auto simp: bit_simps add.commute)
qed

lemma bit_LittleEndian64: "bit (LittleEndian64 x) n =
    (if n < 8 then bit x (n + 56) else if n < 16 then bit x (n + 40)
     else if n < 24 then bit x (n + 24) else if n < 32 then bit x (n + 8)
     else if n < 40 then bit x (n - 8) else if n < 48 then bit x (n - 24)
     else if n < 56 then bit x (n - 40) else n < 64 \<and> bit x (n - 56))"
proof -
  consider "n < 8" | "8 \<le> n" "n < 16" | "16 \<le> n" "n < 24" | "24 \<le> n" "n < 32"
    | "32 \<le> n" "n < 40" | "40 \<le> n" "n < 48" | "48 \<le> n" "n < 56" | "56 \<le> n" "n < 64" | "64 \<le> n" by linarith
  then show ?thesis
    unfolding LittleEndian64_def Let_def byte_masks64 by cases (auto simp: bit_simps add.commute)
qed

lemma bit_Get2Byte: "bit (Get2Byte m b s) n =
    (if n < 8 then bit (m (b + s + 1)) n else n < 16 \<and> bit (m (b + s)) (n - 8))"
  unfolding Get2Byte_def GetByte_def Let_def
  by (cases "n < 8"; cases "n < 16") (auto simp: bit_simps add_ac dest: bit_imp_le_length)

lemma bit_Get4Byte: "bit (Get4Byte m b s) n =
    (if n < 16 then bit (Get2Byte m b (s + 2)) n else n < 32 \<and> bit (Get2Byte m b s) (n - 16))"
  unfolding Get4Byte_def Let_def
  by (cases "n < 16"; cases "n < 32") (auto simp: bit_simps bit_Get2Byte)

lemma bit_Get8Byte: "bit (Get8Byte m b s) n =
    (if n < 32 then bit (Get4Byte m b (s + 4)) n else n < 64 \<and> bit (Get4Byte m b s) (n - 32))"
proof -
  have k: "(0xFFFFFFFF00000000 :: u64) = push_bit 32 (mask 32)" "(0x00000000FFFFFFFF :: u64) = mask 32"
    by (simp_all add: mask_eq_exp_minus_1 push_bit_eq_mult)
  show ?thesis
    unfolding Get8Byte_def Let_def k
    by (cases "n < 32"; cases "n < 64") (auto simp: bit_simps bit_Get4Byte bit_Get2Byte)
qed

lemma bit_load16: "bit (load16 m p) n = (if n < 8 then bit (m p) n else n < 16 \<and> bit (m (p + 1)) (n - 8))"
  unfolding load16_def by (cases "n < 8"; cases "n < 16") (auto simp: bit_simps dest: bit_imp_le_length)

lemma bit_load32: "bit (load32 m p) n =
    (if n < 16 then bit (load16 m p) n else n < 32 \<and> bit (load16 m (p + 2)) (n - 16))"
  unfolding load32_def by (cases "n < 16"; cases "n < 32") (auto simp: bit_simps bit_load16)

lemma bit_load64: "bit (load64 m p) n =
    (if n < 32 then bit (load32 m p) n else n < 64 \<and> bit (load32 m (p + 4)) (n - 32))"
  unfolding load64_def by (cases "n < 32"; cases "n < 64") (auto simp: bit_simps bit_load32)

section \<open>Properties\<close>

text \<open>The two ways of reading an integer agree: the big-endian reader followed by the byte swap
  is the plain little-endian access, at each width and every address.\<close>

theorem LittleEndian_Get:
  "LittleEndian16 (Get2Byte m b s) = load16 m (b + s)
   \<and> LittleEndian32 (Get4Byte m b s) = load32 m (b + s)
   \<and> LittleEndian64 (Get8Byte m b s) = load64 m (b + s)"
proof (intro conjI)
  show "LittleEndian16 (Get2Byte m b s) = load16 m (b + s)"
    by (rule bit_word_eqI) (auto simp: bit_LittleEndian16 bit_Get2Byte bit_load16)
  show "LittleEndian32 (Get4Byte m b s) = load32 m (b + s)"
  proof (rule bit_word_eqI)
    fix n :: nat
    assume "n < LENGTH(32)"
    then consider "n < 8" | "8 \<le> n" "n < 16" | "16 \<le> n" "n < 24" | "24 \<le> n" "n < 32" by fastforce
    then show "bit (LittleEndian32 (Get4Byte m b s)) n = bit (load32 m (b + s)) n"
      by cases (simp_all add: bit_LittleEndian32 bit_Get4Byte bit_Get2Byte bit_load32 bit_load16 add_ac less_diff_conv2)
  qed
  show "LittleEndian64 (Get8Byte m b s) = load64 m (b + s)"
  proof (rule bit_word_eqI)
    fix n :: nat
    assume "n < LENGTH(64)"
    then consider "n < 8" | "8 \<le> n" "n < 16" | "16 \<le> n" "n < 24" | "24 \<le> n" "n < 32"
      | "32 \<le> n" "n < 40" | "40 \<le> n" "n < 48" | "48 \<le> n" "n < 56" | "56 \<le> n" "n < 64" by fastforce
    then show "bit (LittleEndian64 (Get8Byte m b s)) n = bit (load64 m (b + s)) n"
      by cases (simp_all add: bit_LittleEndian64 bit_Get8Byte bit_Get4Byte bit_Get2Byte bit_load64
        bit_load32 bit_load16 add_ac less_diff_conv2)
  qed
qed

text \<open>Swapping the byte order is its own inverse at each width.\<close>

theorem BigEndian_LittleEndian:
  "BigEndian16 (LittleEndian16 a) = a \<and> BigEndian32 (LittleEndian32 b) = b
   \<and> BigEndian64 (LittleEndian64 c) = c"
proof (intro conjI)
  show "BigEndian16 (LittleEndian16 a) = a"
    unfolding BigEndian_eq by (rule bit_word_eqI) (auto simp: bit_LittleEndian16)
  show "BigEndian32 (LittleEndian32 b) = b"
    unfolding BigEndian_eq by (rule bit_word_eqI) (auto simp: bit_LittleEndian32)
  show "BigEndian64 (LittleEndian64 c) = c"
    unfolding BigEndian_eq
  proof (rule bit_word_eqI)
    fix n :: nat
    assume "n < LENGTH(64)"
    then consider "n < 8" | "8 \<le> n" "n < 16" | "16 \<le> n" "n < 24" | "24 \<le> n" "n < 32"
      | "32 \<le> n" "n < 40" | "40 \<le> n" "n < 48" | "48 \<le> n" "n < 56" | "56 \<le> n" "n < 64" by fastforce
    then show "bit (LittleEndian64 (LittleEndian64 c)) n = bit c n"
      by cases (auto simp: bit_LittleEndian64)
  qed
qed
end
