(* ===== verification/Apic.thy ===== *)
theory Apic
  imports ByteInteraction PageTables
begin

text \<open>
  ACPI tables and the interrupt controllers: \<^verbatim>\<open>src/IO/DeviceManager/ACPI/ACPI.cpp\<close>,
  \<^verbatim>\<open>src/IO/APIC/apic.cpp\<close>, \<^verbatim>\<open>lapic.cpp\<close> and \<^verbatim>\<open>ioapic.cpp\<close>. Tables are read from a memory at the
  offsets of the packed structures; the registers of the local APIC and of the I/O APIC are state.
  The walk over the MADT is a partial function: \<open>None\<close> is a walk that never ends.
\<close>

section \<open>ACPI tables\<close>

record SDTHeader =
  sdt_Signature :: "u8 list"
  sdt_Length :: u32
  sdt_Revision :: u8
  sdt_Checksum :: u8
  OEMId :: "u8 list"
  OEMTableId :: "u8 list"
  OEMRevision :: u32
  CreatorId :: u32
  CreatorRevision :: u32

definition read_SDTHeader :: "memory \<Rightarrow> u64 \<Rightarrow> SDTHeader" where
  "read_SDTHeader m p =
     \<lparr>sdt_Signature = load_bytes m p 4, sdt_Length = load32 m (p + 4), sdt_Revision = m (p + 8),
      sdt_Checksum = m (p + 9), OEMId = load_bytes m (p + 10) 6, OEMTableId = load_bytes m (p + 16) 8,
      OEMRevision = load32 m (p + 24), CreatorId = load32 m (p + 28), CreatorRevision = load32 m (p + 32)\<rparr>"

record MADTHeader =
  madt_Header :: SDTHeader
  APICAddress :: u32
  madt_Flags :: u32

definition read_MADTHeader :: "memory \<Rightarrow> u64 \<Rightarrow> MADTHeader" where
  "read_MADTHeader m p =
     \<lparr>madt_Header = read_SDTHeader m p, APICAddress = load32 m (p + 36), madt_Flags = load32 m (p + 40)\<rparr>"

text \<open>The number of entries is an \<^verbatim>\<open>int\<close>; the stride is eight bytes whatever the revision.\<close>

definition sdt_entries :: "SDTHeader \<Rightarrow> int" where
  "sdt_entries h =
     (if sdt_Revision h = 2
      then sint (ucast ((ucast (sdt_Length h) - 36) div 8 :: u64) :: u32)
      else sint (ucast ((ucast (sdt_Length h) - 36) div 4 :: u64) :: u32))"

definition sdt_entry :: "memory \<Rightarrow> u64 \<Rightarrow> nat \<Rightarrow> u64" where
  "sdt_entry m sdtHeader t = load64 m (sdtHeader + 36 + of_nat t * 8)"

definition has_signature :: "memory \<Rightarrow> u8 list \<Rightarrow> u64 \<Rightarrow> bool" where
  "has_signature m signature p = list_all (\<lambda>i. m (p + of_nat i) = signature ! i) [0..<4]"

definition FindTable :: "memory \<Rightarrow> u64 \<Rightarrow> u8 list \<Rightarrow> u64" where
  "FindTable m sdtHeader signature =
     (case List.find (\<lambda>t. has_signature m signature (sdt_entry m sdtHeader t))
             [0..<nat (sdt_entries (read_SDTHeader m sdtHeader))] of
        Some t \<Rightarrow> sdt_entry m sdtHeader t
      | None \<Rightarrow> 0)"

section \<open>The MADT\<close>

record ProcessorLocalAPIC =
  ProcessorID :: u8
  APICID :: u8
  lapic_Flags :: u32

record IOAPIC =
  IOAPICID :: u8
  ioapic_Reserved :: u8
  IOAPICAddress :: u32
  GlobalSystemInterruptBase :: u32

record IOAPICInterruptSoruceOverride =
  BusSource :: u8
  IRQSource :: u8
  GlobalSystemInterrupt :: u32
  iso_Flags :: u16

record LocalAPICAddressOverride =
  lao_Reserved :: u16
  PhysicalAddress :: u64

definition read_ProcessorLocalAPIC :: "memory \<Rightarrow> u64 \<Rightarrow> ProcessorLocalAPIC" where
  "read_ProcessorLocalAPIC m p = \<lparr>ProcessorID = m p, APICID = m (p + 1), lapic_Flags = load32 m (p + 2)\<rparr>"

definition read_IOAPIC :: "memory \<Rightarrow> u64 \<Rightarrow> IOAPIC" where
  "read_IOAPIC m p = \<lparr>IOAPICID = m p, ioapic_Reserved = m (p + 1), IOAPICAddress = load32 m (p + 2),
     GlobalSystemInterruptBase = load32 m (p + 6)\<rparr>"

definition read_ISO :: "memory \<Rightarrow> u64 \<Rightarrow> IOAPICInterruptSoruceOverride" where
  "read_ISO m p = \<lparr>BusSource = m p, IRQSource = m (p + 1), GlobalSystemInterrupt = load32 m (p + 2),
     iso_Flags = load16 m (p + 6)\<rparr>"

definition read_LocalAPICAddressOverride :: "memory \<Rightarrow> u64 \<Rightarrow> LocalAPICAddressOverride" where
  "read_LocalAPICAddressOverride m p = \<lparr>lao_Reserved = load16 m p, PhysicalAddress = load64 m (p + 2)\<rparr>"

text \<open>The arrays have 256 entries and are indexed by bytes; \<open>ISOs\<close> holds pointers.\<close>

record apic =
  LAPIC_IDs :: "u8 \<Rightarrow> u8"
  CoreCount :: u8
  LAPIC_PTR :: u64
  IOAPIC_PTR :: u64
  ISOs :: "u8 \<Rightarrow> u64"
  ISOSize :: u8

definition initial_apic :: apic where
  "initial_apic = \<lparr>LAPIC_IDs = (\<lambda>_. 0), CoreCount = 0, LAPIC_PTR = 0, IOAPIC_PTR = 0,
     ISOs = (\<lambda>_. 0), ISOSize = 0\<rparr>"

definition madt_entry :: "memory \<Rightarrow> u64 \<Rightarrow> apic \<Rightarrow> apic" where
  "madt_entry m APICT a =
     (let type = m APICT in
      if type = 0 then
        let Processor = read_ProcessorLocalAPIC m (APICT + 2) in
        if lapic_Flags Processor AND 0x01 \<noteq> 0
        then a\<lparr>LAPIC_IDs := (LAPIC_IDs a)(CoreCount a := APICID Processor), CoreCount := CoreCount a + 1\<rparr>
        else a
      else if type = 1 then a\<lparr>IOAPIC_PTR := ucast (IOAPICAddress (read_IOAPIC m (APICT + 2)))\<rparr>
      else if type = 2 then a\<lparr>ISOs := (ISOs a)(ISOSize a := APICT + 2), ISOSize := ISOSize a + 1\<rparr>
      else if type = 5
      then a\<lparr>LAPIC_PTR := PhysicalAddress (read_LocalAPICAddressOverride m (APICT + 2))\<rparr>
      else a)"

partial_function (option) madt_loop :: "memory \<Rightarrow> u64 \<Rightarrow> u64 \<Rightarrow> apic \<Rightarrow> apic option" where
  "madt_loop m stop APICT a =
     (if APICT < stop
      then madt_loop m stop (APICT + ucast (m (APICT + 1))) (madt_entry m APICT a)
      else Some a)"

definition ReadAPIC :: "memory \<Rightarrow> u64 \<Rightarrow> apic \<Rightarrow> apic option" where
  "ReadAPIC m xsdt a =
     (let MADT = FindTable m xsdt [0x41, 0x50, 0x49, 0x43] in
      if MADT \<noteq> 0
      then let h = read_MADTHeader m MADT; a = a\<lparr>LAPIC_PTR := ucast (APICAddress h)\<rparr>
           in madt_loop m (MADT + ucast (sdt_Length (madt_Header h))) (MADT + 0x2C) a
      else Some a)"

section \<open>The local APIC\<close>

definition LOCAL_APIC_EOI :: u32 where "LOCAL_APIC_EOI = 0xB0"
definition LOCAL_APIC_SIVR :: u32 where "LOCAL_APIC_SIVR = 0xF0"
definition LOCAL_APIC_ICR_LOW :: u32 where "LOCAL_APIC_ICR_LOW = 0x300"
definition LOCAL_APIC_ICR_HIGH :: u32 where "LOCAL_APIC_ICR_HIGH = 0x310"

definition ICR_VECTOR :: "u8 \<Rightarrow> u32" where "ICR_VECTOR x = ucast x AND 0xFF"
definition ICR_MESSAGE_TYPE_FIXED :: u32 where "ICR_MESSAGE_TYPE_FIXED = 0"
definition ICR_MESSAGE_TYPE_LOW_PRIORITY :: u32 where "ICR_MESSAGE_TYPE_LOW_PRIORITY = push_bit 8 1"
definition ICR_MESSAGE_TYPE_INIT :: u32 where "ICR_MESSAGE_TYPE_INIT = push_bit 8 5"
definition ICR_MESSAGE_TYPE_STARTUP :: u32 where "ICR_MESSAGE_TYPE_STARTUP = push_bit 8 6"
definition ICR_DSH_DEST :: u32 where "ICR_DSH_DEST = 0"
definition ICR_DSH_OTHER :: u32 where "ICR_DSH_OTHER = push_bit 18 3"
definition IPI_SCHEDULE :: u8 where "IPI_SCHEDULE = 0xFD"

text \<open>
  The registers as last written or read, the base register and the writes in the order they were
  made: a write to the low command register sends an interrupt.
\<close>

record lapic =
  lapic_regs :: "u32 \<Rightarrow> u32"
  apic_base :: u64
  lapic_log :: "(u32 \<times> u32) list"

definition ReadBase :: "lapic \<Rightarrow> u64" where
  "ReadBase l =
     (let low = apic_base l AND 0xFFFFFFFF; high = drop_bit 32 (apic_base l) in push_bit 32 high OR low)"

definition WriteBase :: "u64 \<Rightarrow> lapic \<Rightarrow> lapic" where
  "WriteBase val l =
     (let low = val AND 0xFFFFFFFF; high = drop_bit 32 val in l\<lparr>apic_base := push_bit 32 high OR low\<rparr>)"

definition LocalApicIn :: "u32 \<Rightarrow> lapic \<Rightarrow> u32" where
  "LocalApicIn offset l = lapic_regs l offset"

definition LocalApicOut :: "u32 \<Rightarrow> u32 \<Rightarrow> lapic \<Rightarrow> lapic" where
  "LocalApicOut offset dat l =
     l\<lparr>lapic_regs := (lapic_regs l)(offset := dat), lapic_log := lapic_log l @ [(offset, dat)]\<rparr>"

definition Enable :: "lapic \<Rightarrow> lapic" where
  "Enable l =
     (let l = WriteBase (ReadBase l OR push_bit 11 1) l
      in LocalApicOut LOCAL_APIC_SIVR (LocalApicIn LOCAL_APIC_SIVR l OR 0x1FF) l)"

definition LApicInit :: "apic \<Rightarrow> lapic \<Rightarrow> vm \<Rightarrow> lapic \<times> vm" where
  "LApicInit a l vm = (Enable l, MapMemory (LAPIC_PTR a) (LAPIC_PTR a) vm)"

definition GetLApicID :: "lapic \<Rightarrow> u64" where
  "GetLApicID l = ucast (drop_bit 24 (LocalApicIn 0x20 l))"

definition SendIPI :: "u8 \<Rightarrow> u32 \<Rightarrow> u32 \<Rightarrow> u8 \<Rightarrow> lapic \<Rightarrow> lapic" where
  "SendIPI destination dsh type vector l =
     (let high = push_bit 24 (ucast destination); low = dsh OR type OR ICR_VECTOR vector;
          l = LocalApicOut LOCAL_APIC_ICR_HIGH high l
      in LocalApicOut LOCAL_APIC_ICR_LOW low l)"

definition LocalAPICEOI :: "lapic \<Rightarrow> lapic" where
  "LocalAPICEOI l = LocalApicOut LOCAL_APIC_EOI 0 l"

section \<open>The I/O APIC\<close>

text \<open>The select register, and the registers behind the window by their numbers.\<close>

record ioapic =
  registerSelect :: u32
  io_regs :: "u32 \<Rightarrow> u32"
  io_interrupts :: u32
  io_apicID :: u32

definition io_Read32 :: "u32 \<Rightarrow> ioapic \<Rightarrow> u32 \<times> ioapic" where
  "io_Read32 reg i = (let i = i\<lparr>registerSelect := reg\<rparr> in (io_regs i (registerSelect i), i))"

definition io_Write32 :: "u32 \<Rightarrow> u32 \<Rightarrow> ioapic \<Rightarrow> ioapic" where
  "io_Write32 reg dat i =
     (let i = i\<lparr>registerSelect := reg\<rparr> in i\<lparr>io_regs := (io_regs i)(registerSelect i := dat)\<rparr>)"

definition io_Write64 :: "u32 \<Rightarrow> u64 \<Rightarrow> ioapic \<Rightarrow> ioapic" where
  "io_Write64 reg dat i =
     (let low = ucast (dat AND 0xFFFFFFFF); high = ucast (drop_bit 32 dat);
          i = io_Write32 reg low i
      in io_Write32 (reg + 1) high i)"

definition IO_APIC_RED_TABLE_ENT :: "u8 \<Rightarrow> u32" where
  "IO_APIC_RED_TABLE_ENT x = 0x10 + 2 * ucast x"

definition Redirect :: "u8 \<Rightarrow> u8 \<Rightarrow> u32 \<Rightarrow> ioapic \<Rightarrow> ioapic" where
  "Redirect irq vector delivery i =
     io_Write64 (IO_APIC_RED_TABLE_ENT irq) (ucast (delivery OR ucast vector)) i"

definition redirect_override :: "memory \<Rightarrow> apic \<Rightarrow> nat \<Rightarrow> ioapic \<Rightarrow> ioapic" where
  "redirect_override m a n i =
     (let iso = read_ISO m (ISOs a (of_nat n))
      in Redirect (ucast (GlobalSystemInterrupt iso)) (IRQSource iso + 0x20) 0 i)"

definition IntitateIO :: "memory \<Rightarrow> apic \<Rightarrow> ioapic \<Rightarrow> vm \<Rightarrow> ioapic \<times> vm" where
  "IntitateIO m a i vm =
     (let vm = MapMemory (IOAPIC_PTR a) (IOAPIC_PTR a) vm;
          (v, i) = io_Read32 0x1 i; i = i\<lparr>io_interrupts := drop_bit 16 v\<rparr>;
          (v, i) = io_Read32 0x0 i; i = i\<lparr>io_apicID := drop_bit 24 v\<rparr>
      in (fold (redirect_override m a) [0..<unat (ISOSize a)] i, vm))"

definition MapLegacyIRQ :: "memory \<Rightarrow> apic \<Rightarrow> u8 \<Rightarrow> ioapic \<Rightarrow> ioapic" where
  "MapLegacyIRQ m a irq i =
     (if list_ex (\<lambda>n. IRQSource (read_ISO m (ISOs a (of_nat n))) = irq) [0..<unat (ISOSize a)] then i
      else Redirect irq (irq + 0x20) ICR_MESSAGE_TYPE_LOW_PRIORITY i)"

section \<open>The walk over the MADT\<close>

text \<open>The entries from \<open>p\<close> on follow each other by their lengths and the last one reaches the end.\<close>

fun madt_chain :: "memory \<Rightarrow> u64 \<Rightarrow> u64 \<Rightarrow> u64 list \<Rightarrow> bool" where
  "madt_chain m stop p [] \<longleftrightarrow> stop \<le> p"
| "madt_chain m stop p (x # xs) \<longleftrightarrow> x = p \<and> p < stop \<and> madt_chain m stop (p + ucast (m (p + 1))) xs"

lemma madt_loop_chain: "madt_chain m stop p xs \<Longrightarrow> madt_loop m stop p a = Some (fold (madt_entry m) xs a)"
proof (induction xs arbitrary: p a)
  case Nil
  then show ?case by (subst madt_loop.simps) (auto dest: leD)
next
  case (Cons x xs)
  then show ?case by (subst madt_loop.simps) auto
qed

lemma madt_loop_zero:
  assumes "madt_loop m stop p a = Some r"
  shows "\<not> (m (p + 1) = 0 \<and> p < stop)"
proof (rule madt_loop.raw_induct [where P = "\<lambda>m stop p a r. \<not> (m (p + 1) = 0 \<and> p < stop)", OF _ assms])
  fix f m stop p a r
  assume IH: "\<And>m stop p a r. f m stop p a = Some r \<Longrightarrow> \<not> (m (p + 1) = 0 \<and> p < stop)"
    and e: "(if p < stop then f m stop (p + ucast (m (p + 1))) (madt_entry m p a) else Some a) = Some r"
  show "\<not> (m (p + 1) = 0 \<and> p < stop)"
  proof
    assume z: "m (p + 1) = 0 \<and> p < stop"
    then have "f m stop p (madt_entry m p a) = Some r" using e by simp
    from IH [OF this] z show False by blast
  qed
qed

definition enabled_ids :: "memory \<Rightarrow> u64 list \<Rightarrow> u8 list" where
  "enabled_ids m xs =
     map (\<lambda>p. APICID (read_ProcessorLocalAPIC m (p + 2)))
       (filter (\<lambda>p. m p = 0 \<and> lapic_Flags (read_ProcessorLocalAPIC m (p + 2)) AND 1 \<noteq> 0) xs)"

lemma fold_madt_ids:
  assumes "CoreCount a = of_nat c" and "c + length (enabled_ids m xs) \<le> 256"
  shows "CoreCount (fold (madt_entry m) xs a) = of_nat (c + length (enabled_ids m xs))
    \<and> (\<forall>k < length (enabled_ids m xs). LAPIC_IDs (fold (madt_entry m) xs a) (of_nat (c + k)) = enabled_ids m xs ! k)
    \<and> (\<forall>k < c. LAPIC_IDs (fold (madt_entry m) xs a) (of_nat k) = LAPIC_IDs a (of_nat k))"
  using assms
proof (induction xs arbitrary: a c)
  case Nil
  then show ?case by (simp add: enabled_ids_def)
next
  case (Cons p xs)
  show ?case
  proof (cases "m p = 0 \<and> lapic_Flags (read_ProcessorLocalAPIC m (p + 2)) AND 1 \<noteq> 0")
    case True
    let ?id = "APICID (read_ProcessorLocalAPIC m (p + 2))"
    define a' where "a' = madt_entry m p a"
    have a': "CoreCount a' = of_nat (Suc c)" "LAPIC_IDs a' = (LAPIC_IDs a)(of_nat c := ?id)"
      using True Cons.prems(1) by (simp_all add: a'_def madt_entry_def Let_def add.commute)
    have e: "enabled_ids m (p # xs) = ?id # enabled_ids m xs" using True by (simp add: enabled_ids_def)
    have c: "Suc c + length (enabled_ids m xs) \<le> 256" using Cons.prems(2) e by simp
    note IH = Cons.IH [OF a'(1) c]
    have u: "unat (of_nat j :: u8) = j" if "j < 256" for j using that by (simp add: unat_of_nat)
    have old: "LAPIC_IDs a' (of_nat k) = LAPIC_IDs a (of_nat k)" if "k < c" for k
    proof -
      have "(of_nat k :: u8) \<noteq> of_nat c" using that c u [of k] u [of c] by (metis Suc_le_lessD add_leE less_trans less_irrefl)
      then show ?thesis by (simp add: a'(2))
    qed
    have first: "LAPIC_IDs (fold (madt_entry m) xs a') (of_nat c) = ?id" using IH a'(2) by auto
    have "LAPIC_IDs (fold (madt_entry m) xs a') (of_nat (c + k)) = (?id # enabled_ids m xs) ! k"
      if "k < Suc (length (enabled_ids m xs))" for k
      using that first IH by (cases k) auto
    then show ?thesis using IH old by (simp add: e a'_def [symmetric])
  next
    case False
    define a' where "a' = madt_entry m p a"
    have a': "CoreCount a' = CoreCount a" "LAPIC_IDs a' = LAPIC_IDs a"
      using False by (auto simp: a'_def madt_entry_def Let_def)
    have e: "enabled_ids m (p # xs) = enabled_ids m xs" using False by (simp add: enabled_ids_def)
    show ?thesis using Cons.IH [of a' c] Cons.prems a' e by (simp add: a'_def [symmetric])
  qed
qed

section \<open>The redirection table\<close>

definition red_low :: "u8 \<Rightarrow> ioapic \<Rightarrow> u32" where
  "red_low irq i = io_regs i (IO_APIC_RED_TABLE_ENT irq)"

definition red_high :: "u8 \<Rightarrow> ioapic \<Rightarrow> u32" where
  "red_high irq i = io_regs i (IO_APIC_RED_TABLE_ENT irq + 1)"

lemma unat_red: "unat (IO_APIC_RED_TABLE_ENT x) = 16 + 2 * unat x" "unat (IO_APIC_RED_TABLE_ENT x + 1) = 17 + 2 * unat x"
proof -
  have x: "unat x < 256" by (rule order_less_le_trans [OF unsigned_less]) simp
  have "unat (2 :: u32) * unat (ucast x :: u32) = 2 * unat x" by simp
  moreover have "2 * unat x < 2 ^ LENGTH(32)" by (rule order_less_trans [of _ 512]) (use x in linarith, simp)
  ultimately have m: "unat (2 * ucast x :: u32) = 2 * unat x" by (metis unat_mult_no_wrap)
  have "16 + 2 * unat x < 2 ^ LENGTH(32)" by (rule order_less_trans [of _ 529]) (use x in linarith, simp)
  moreover have "unat (0x10 :: u32) + unat (2 * ucast x :: u32) = 16 + 2 * unat x" by (simp add: m)
  ultimately show a: "unat (IO_APIC_RED_TABLE_ENT x) = 16 + 2 * unat x"
    unfolding IO_APIC_RED_TABLE_ENT_def by (metis unat_add_no_wrap)
  have "unat (IO_APIC_RED_TABLE_ENT x) + unat (1 :: u32) < 2 ^ LENGTH(32)"
    unfolding a by (rule order_less_trans [of _ 529]) (use x in \<open>simp only: unat_1\<close>, simp)
  then show "unat (IO_APIC_RED_TABLE_ENT x + 1) = 17 + 2 * unat x"
    using a by (simp add: unat_add_no_wrap)
qed

lemma red_apart: "IO_APIC_RED_TABLE_ENT x = IO_APIC_RED_TABLE_ENT y \<longleftrightarrow> x = y"
  "IO_APIC_RED_TABLE_ENT x + 1 = IO_APIC_RED_TABLE_ENT y + 1 \<longleftrightarrow> x = y"
  "IO_APIC_RED_TABLE_ENT x + 1 \<noteq> IO_APIC_RED_TABLE_ENT y"
  using unat_red [of x] unat_red [of y] by (auto simp: word_eq_iff_unat) presburger

lemma word_halves: "(ucast (ucast (y :: u32) AND (0xFFFFFFFF :: u64)) :: u32) = y"
  "(ucast (drop_bit 32 (ucast (y :: u32) :: u64)) :: u32) = 0"
proof -
  have m: "(0xFFFFFFFF :: u64) = mask 32" by (simp add: mask_eq_exp_minus_1)
  show "(ucast (ucast (y :: u32) AND (0xFFFFFFFF :: u64)) :: u32) = y"
    unfolding m by (rule bit_word_eqI) (simp add: bit_simps)
  show "(ucast (drop_bit 32 (ucast (y :: u32) :: u64)) :: u32) = 0"
    by (rule bit_word_eqI) (auto simp: bit_simps dest: bit_imp_le_length)
qed

lemma Redirect_entries:
  "red_low x (Redirect irq vector delivery i) = (if x = irq then delivery OR ucast vector else red_low x i)"
  "red_high x (Redirect irq vector delivery i) = (if x = irq then 0 else red_high x i)"
  using red_apart [of x irq] red_apart(3) [of irq x] red_apart(3) [of x irq]
  by (auto simp: red_low_def red_high_def Redirect_def io_Write64_def io_Write32_def Let_def word_halves)
definition override_gsi :: "memory \<Rightarrow> apic \<Rightarrow> nat \<Rightarrow> u8" where
  "override_gsi m a n = ucast (GlobalSystemInterrupt (read_ISO m (ISOs a (of_nat n))))"

definition override_vector :: "memory \<Rightarrow> apic \<Rightarrow> nat \<Rightarrow> u32" where
  "override_vector m a n = ucast (IRQSource (read_ISO m (ISOs a (of_nat n))) + 0x20)"

lemma fold_overrides_other:
  "\<forall>n \<in> set ns. override_gsi m a n \<noteq> irq \<Longrightarrow>
    red_low irq (fold (redirect_override m a) ns i) = red_low irq i
    \<and> red_high irq (fold (redirect_override m a) ns i) = red_high irq i"
  by (induction ns arbitrary: i)
    (auto simp: redirect_override_def Redirect_entries override_gsi_def Let_def)

lemma fold_overrides:
  assumes "n < N" and "\<forall>k. n < k \<and> k < N \<longrightarrow> override_gsi m a k \<noteq> override_gsi m a n"
  shows "red_low (override_gsi m a n) (fold (redirect_override m a) [0..<N] i) = override_vector m a n
    \<and> red_high (override_gsi m a n) (fold (redirect_override m a) [0..<N] i) = 0"
proof -
  have "[0..<N] = [0..<n] @ n # [Suc n..<N]"
    using assms(1) upt_add_eq_append [of 0 n "N - n"] by (simp add: upt_conv_Cons)
  then show ?thesis
    using fold_overrides_other [of "[Suc n..<N]" m a "override_gsi m a n"] assms(2)
    by (simp add: redirect_override_def Let_def Redirect_entries override_gsi_def [symmetric]
        override_vector_def)
qed

section \<open>Properties\<close>

text \<open>C26. The walk over the MADT ends and finds every processor: when the entries of the table follow
  each other up to its end, \<open>ReadAPIC\<close> returns, and the local APIC identifiers it has collected are
  those of the enabled processors, in the order of the table.\<close>

theorem ReadAPIC_processors:
  assumes "FindTable m xsdt [0x41, 0x50, 0x49, 0x43] = t" and "t \<noteq> 0"
    and "madt_chain m (t + ucast (sdt_Length (madt_Header (read_MADTHeader m t)))) (t + 0x2C) xs"
    and "CoreCount a = 0" and "length (enabled_ids m xs) < 256"
  shows "\<exists>r. ReadAPIC m xsdt a = Some r \<and> unat (CoreCount r) = length (enabled_ids m xs)
    \<and> (\<forall>k < length (enabled_ids m xs). LAPIC_IDs r (of_nat k) = enabled_ids m xs ! k)"
proof -
  define a' where "a' = a\<lparr>LAPIC_PTR := ucast (APICAddress (read_MADTHeader m t))\<rparr>"
  have "ReadAPIC m xsdt a = Some (fold (madt_entry m) xs a')"
    using assms(1,2) madt_loop_chain [OF assms(3)] by (simp add: ReadAPIC_def Let_def a'_def)
  moreover have "CoreCount a' = of_nat 0" using assms(4) by (simp add: a'_def)
  ultimately show ?thesis
    using fold_madt_ids [of a' 0 m xs] assms(5) by (simp add: unat_of_nat)
qed

text \<open>An entry of length zero stops the walk for good: \<open>ReadAPIC\<close> does not return.\<close>

theorem madt_zero_length:
  assumes "p < stop" and "m (p + 1) = 0"
  shows "madt_loop m stop p a = None"
  using madt_loop_zero [of m stop p a] assms by (cases "madt_loop m stop p a") auto

theorem madt_zero_length_witness: "madt_loop (\<lambda>_. 0) 100 44 initial_apic = None"
  by (rule madt_zero_length) simp_all

text \<open>C28. \<open>IntitateIO\<close> programs every interrupt source override: the redirection entry of its global
  interrupt delivers the vector of the legacy interrupt it stands for, unless a later override names
  the same global interrupt; all other entries stay as they were.\<close>

theorem IntitateIO_overrides:
  assumes "n < unat (ISOSize a)"
    and "\<forall>k. n < k \<and> k < unat (ISOSize a) \<longrightarrow> override_gsi m a k \<noteq> override_gsi m a n"
  shows "red_low (override_gsi m a n) (fst (IntitateIO m a i vm)) = override_vector m a n
    \<and> red_high (override_gsi m a n) (fst (IntitateIO m a i vm)) = 0
    \<and> ((\<forall>k < unat (ISOSize a). override_gsi m a k \<noteq> irq) \<longrightarrow>
        red_low irq (fst (IntitateIO m a i vm)) = red_low irq i
        \<and> red_high irq (fst (IntitateIO m a i vm)) = red_high irq i)"
  using fold_overrides [OF assms] fold_overrides_other [of "[0..<unat (ISOSize a)]" m a irq]
  by (auto simp: IntitateIO_def io_Read32_def Let_def red_low_def red_high_def)

text \<open>A table with one processor and one override, for the witnesses.\<close>

definition small_tables :: memory where
  "small_tables x =
     (if x = 0x1004 then 44 else if x = 0x1008 then 2 else if x = 0x1025 then 0x20
      else if x = 0x2000 then 0x41 else if x = 0x2001 then 0x50 else if x = 0x2002 then 0x49
      else if x = 0x2003 then 0x43 else if x = 0x2004 then 62
      else if x = 0x202D then 8 else if x = 0x202F then 7 else if x = 0x2030 then 1
      else if x = 0x2034 then 2 else if x = 0x2035 then 10 else if x = 0x2038 then 2
      else 0)"

lemma small_tables_find: "FindTable small_tables 0x1000 [0x41, 0x50, 0x49, 0x43] = 0x2000"
proof -
  have l: "sdt_Length (read_SDTHeader small_tables 0x1000) = 44" "sdt_Revision (read_SDTHeader small_tables 0x1000) = 2"
    by (simp_all add: read_SDTHeader_def load32_def load16_def small_tables_def)
  have e: "sdt_entries (read_SDTHeader small_tables 0x1000) = 1" by (simp add: sdt_entries_def l)
  have p: "sdt_entry small_tables 0x1000 0 = 0x2000"
    by (simp add: sdt_entry_def load64_def load32_def load16_def small_tables_def)
  have "has_signature small_tables [0x41, 0x50, 0x49, 0x43] 0x2000"
    by (simp add: has_signature_def small_tables_def upt_rec)
  then show ?thesis by (simp add: FindTable_def e p)
qed

theorem ReadAPIC_processors_witness:
  "\<exists>r. ReadAPIC small_tables 0x1000 initial_apic = Some r \<and> unat (CoreCount r) = 1 \<and> LAPIC_IDs r 0 = 7"
proof -
  have l: "sdt_Length (madt_Header (read_MADTHeader small_tables 0x2000)) = 62"
    by (simp add: read_MADTHeader_def read_SDTHeader_def load32_def load16_def small_tables_def)
  have c: "madt_chain small_tables (0x2000 + ucast (62 :: u32)) (0x2000 + 0x2C) [0x202C, 0x2034]"
    by (simp add: small_tables_def)
  have e: "enabled_ids small_tables [0x202C, 0x2034] = [7]"
    by (simp add: enabled_ids_def read_ProcessorLocalAPIC_def load32_def load16_def small_tables_def)
  show ?thesis
    using ReadAPIC_processors [OF small_tables_find, of "[0x202C, 0x2034]" initial_apic] l c e
    by (auto simp: initial_apic_def)
qed

theorem IntitateIO_overrides_witness:
  "\<forall>i vm. let a = initial_apic\<lparr>ISOs := \<lambda>_. 0x2036, ISOSize := 1\<rparr>
   in red_low 2 (fst (IntitateIO small_tables a i vm)) = 0x20"
proof (intro allI)
  fix i vm
  show "let a = initial_apic\<lparr>ISOs := \<lambda>_. 0x2036, ISOSize := 1\<rparr>
   in red_low 2 (fst (IntitateIO small_tables a i vm)) = 0x20"
  proof -
    let ?a = "initial_apic\<lparr>ISOs := \<lambda>_. 0x2036, ISOSize := 1\<rparr>"
    have "override_gsi small_tables ?a 0 = 2" "override_vector small_tables ?a 0 = 0x20"
      by (simp_all add: override_gsi_def override_vector_def read_ISO_def load32_def load16_def small_tables_def)
    then show ?thesis using IntitateIO_overrides [of 0 ?a small_tables i vm 0] by (auto simp: Let_def)
  qed
qed
end
