(* ===== verification/Scheduler.thy ===== *)
theory Scheduler
  imports Process Vector Gdt Apic
begin

text \<open>
  The scheduler: \<^verbatim>\<open>src/process/Scheduler/Scheduler.cpp\<close> and the processor record of
  \<^verbatim>\<open>inc/IO/CPU/CPU.h\<close>. Each processor has a run queue of process pointers of its own; the
  current process stays at the front of its queue while it runs. What \<open>Schedule\<close> hands to
  \<^verbatim>\<open>ProcessSwitch\<close> is a value of type \<open>dispatch\<close>; \<open>regs\<close> are the registers the interrupt saved at
  \<^verbatim>\<open>rsp\<close>, \<open>fpu\<close> what FXSAVE reads, \<open>fresh\<close> the contents of newly allocated storage.
\<close>

section \<open>State\<close>

record cpu =
  self :: u64
  cpu_id :: u64
  cpu_gdt :: u64
  gdtPtr :: GDTDescriptor
  currentProcess :: u64
  idleProcess :: u64
  QueueLock :: u32
  Queue :: "u64 vector"
  tss :: TSS

record sched =
  SchedulerReady :: bool
  NextPID :: u64
  CPUs :: "cpu list"
  ActiveCPUs :: nat
  pmem :: proc_mem
  Dead :: "u64 vector"
  Sleeping :: "u64 vector"
  AllActive :: "u64 vector"
  local_apic :: lapic

record dispatch =
  to_context :: ProcessContext
  to_fx :: FXState
  to_fsBase :: u64
  to_pml4 :: u64

section \<open>Scheduling\<close>

text \<open>
  The tick of the current process: whether it keeps running, and its counters.
\<close>

definition charge :: "u64 \<Rightarrow> proc_mem \<Rightarrow> bool \<times> proc_mem" where
  "charge cur m =
     (if cur = 0 then (False, m)
      else
        let m = upd_proc cur (\<lambda>p. p\<lparr>ActiveTicks := ActiveTicks p + 1\<rparr>) m in
        if TimeSlice (procs m cur) > 0
        then (True, upd_proc cur (\<lambda>p. p\<lparr>TimeSlice := TimeSlice p - 1\<rparr>) m)
        else (False, m))"

text \<open>A running process goes to the back of its queue, its registers saved.\<close>

definition requeue ::
  "(nat \<Rightarrow> u64) \<Rightarrow> ProcessContext \<Rightarrow> FXState \<Rightarrow> u64 \<Rightarrow> u64 vector \<Rightarrow> proc_mem \<Rightarrow> (u64 vector \<times> proc_mem) option"
where
  "requeue fresh regs fpu cur q m =
     (let m = upd_proc cur (\<lambda>p. p\<lparr>TimeSlice := DefaultTimeSlice p\<rparr>) m;
          m = m\<lparr>fx_mem := (fx_mem m)(fx_State (procs m cur) := fpu)\<rparr>;
          m = upd_proc cur (\<lambda>p. p\<lparr>Context := regs\<rparr>) m
      in case erase True 0 q of
           None \<Rightarrow> None
         | Some q \<Rightarrow> Some (add_back True 0 fresh cur q, m))"

definition choose_next ::
  "(nat \<Rightarrow> u64) \<Rightarrow> ProcessContext \<Rightarrow> FXState \<Rightarrow> cpu \<Rightarrow> proc_mem \<Rightarrow> (cpu \<times> proc_mem) option"
where
  "choose_next fresh regs fpu c m =
     (if currentProcess c = 0 \<or> get_length (Queue c) \<le> 0
      then Some (c\<lparr>currentProcess := idleProcess c\<rparr>, m)
      else if State (procs m (currentProcess c)) = PROCESS_DYING
      then (case remove True (=) (currentProcess c) (Queue c) of
             None \<Rightarrow> None
           | Some q \<Rightarrow> Some (c\<lparr>currentProcess := idleProcess c, Queue := q\<rparr>, m))
      else
        case (if currentProcess c \<noteq> idleProcess c then requeue fresh regs fpu (currentProcess c) (Queue c) m
              else Some (Queue c, m)) of
          None \<Rightarrow> None
        | Some (q, m) \<Rightarrow>
            let c = c\<lparr>currentProcess := at_pos q 0, Queue := q\<rparr>;
                m = upd_proc (currentProcess c) (\<lambda>p. p\<lparr>TimeSlice := DefaultTimeSlice p\<rparr>) m
            in Some (c, m))"

text \<open>The FS base as the two halves \<^verbatim>\<open>wrmsr\<close> takes.\<close>

definition wrmsr :: "u64 \<Rightarrow> u64 \<Rightarrow> u64" where
  "wrmsr a d = (a AND 0xFFFFFFFF) OR push_bit 32 (d AND 0xFFFFFFFF)"

definition run_process :: "cpu \<Rightarrow> proc_mem \<Rightarrow> cpu \<times> dispatch" where
  "run_process c m =
     (let p = procs m (currentProcess c);
          msr = wrmsr (fsBase p AND 0xFFFFFFFF) (drop_bit 32 (fsBase p) AND 0xFFFFFFFF);
          c = c\<lparr>tss := SetKernelStack (tss c) (Stack p)\<rparr>
      in (c, \<lparr>to_context = Context p, to_fx = fx_mem m (fx_State p), to_fsBase = msr,
              to_pml4 = PML4 (hvm (kheap_state m))\<rparr>))"

text \<open>
  \<open>Schedule\<close> on one processor: \<open>None\<close> for the dispatch is a return to the interrupted code.
\<close>

definition schedule_cpu ::
  "(nat \<Rightarrow> u64) \<Rightarrow> ProcessContext \<Rightarrow> FXState \<Rightarrow> cpu \<Rightarrow> proc_mem \<Rightarrow> ((cpu \<times> proc_mem) \<times> dispatch option) option"
where
  "schedule_cpu fresh regs fpu c m =
     (let (running, m) = charge (currentProcess c) m in
      if running then Some ((c, m), None)
      else
        let (l, held) = acquireTestLock (QueueLock c); c = c\<lparr>QueueLock := l\<rparr> in
        if held \<noteq> 0 then Some ((c, m), None)
        else
          case choose_next fresh regs fpu c m of
            None \<Rightarrow> None
          | Some (c, m) \<Rightarrow>
              let c = c\<lparr>QueueLock := releaseLock (QueueLock c)\<rparr>;
                  (c, d) = run_process c m
              in Some ((c, m), Some d))"

definition Schedule ::
  "(nat \<Rightarrow> u64) \<Rightarrow> ProcessContext \<Rightarrow> FXState \<Rightarrow> nat \<Rightarrow> sched \<Rightarrow> (sched \<times> dispatch option) option"
where
  "Schedule fresh regs fpu i s =
     (case schedule_cpu fresh regs fpu (CPUs s ! i) (pmem s) of
        None \<Rightarrow> None
      | Some ((c, m), d) \<Rightarrow> Some (s\<lparr>CPUs := (CPUs s)[i := c], pmem := m\<rparr>, d))"

definition Tick ::
  "(nat \<Rightarrow> u64) \<Rightarrow> ProcessContext \<Rightarrow> FXState \<Rightarrow> nat \<Rightarrow> sched \<Rightarrow> (sched \<times> dispatch option) option"
where
  "Tick fresh regs fpu i s =
     (if \<not> SchedulerReady s then Some (s, None)
      else Schedule fresh regs fpu i
             (s\<lparr>local_apic := SendIPI 0 ICR_DSH_OTHER ICR_MESSAGE_TYPE_FIXED IPI_SCHEDULE (local_apic s)\<rparr>))"

definition HandleInterrupt ::
  "(nat \<Rightarrow> u64) \<Rightarrow> ProcessContext \<Rightarrow> FXState \<Rightarrow> nat \<Rightarrow> sched \<Rightarrow> (sched \<times> dispatch option) option"
where
  "HandleInterrupt fresh regs fpu i s = Schedule fresh regs fpu i s"

section \<open>Creating processes\<close>

text \<open>The loop of \<open>NewProcess\<close> over the other processors, from the one best so far.\<close>

fun pick_from :: "(nat \<Rightarrow> u64) \<Rightarrow> nat list \<Rightarrow> nat \<Rightarrow> nat" where
  "pick_from len [] best = best"
| "pick_from len (i # is) best =
     (let best = (if len i < len best then i else best) in
      if len best = 0 then best else pick_from len is best)"

definition pick_cpu :: "sched \<Rightarrow> nat" where
  "pick_cpu s = pick_from (\<lambda>i. get_length (Queue (CPUs s ! i))) [1..<ActiveCPUs s] 0"

definition enqueue :: "(nat \<Rightarrow> u64) \<Rightarrow> u64 \<Rightarrow> cpu \<Rightarrow> cpu" where
  "enqueue fresh p c =
     (let c = c\<lparr>QueueLock := fst (acquireLock (QueueLock c))\<rparr>;
          c = c\<lparr>Queue := add_back True 0 fresh p (Queue c)\<rparr>
      in c\<lparr>QueueLock := releaseLock (QueueLock c)\<rparr>)"

definition NewProcess ::
  "(nat \<Rightarrow> u64) \<Rightarrow> u8 list \<Rightarrow> u64 \<Rightarrow> u64 \<Rightarrow> sched \<Rightarrow> (u64 \<times> sched) option"
where
  "NewProcess fresh nm entry dat s =
     (case new_Process (NextPID s) (pmem s) of
        None \<Rightarrow> None
      | Some (p, m) \<Rightarrow>
          let s = s\<lparr>NextPID := NextPID s + 1\<rparr> in
          case set_name p nm m of
            None \<Rightarrow> None
          | Some m \<Rightarrow>
              let m = ContextCreation p entry dat m;
                  s = s\<lparr>pmem := m\<rparr>;
                  i = pick_cpu s
              in Some (p, s\<lparr>CPUs := (CPUs s)[i := enqueue fresh p (CPUs s ! i)]\<rparr>))"

definition CreateIdleProcess :: "u64 \<Rightarrow> u8 list \<Rightarrow> sched \<Rightarrow> (u64 \<times> sched) option" where
  "CreateIdleProcess IdleProcess nm s =
     (case new_Process (NextPID s) (pmem s) of
        None \<Rightarrow> None
      | Some (p, m) \<Rightarrow>
          let s = s\<lparr>NextPID := NextPID s + 1\<rparr> in
          case set_name p nm m of
            None \<Rightarrow> None
          | Some m \<Rightarrow> Some (p, s\<lparr>pmem := IdleContextCreation p IdleProcess 0 m\<rparr>))"

text \<open>
  The constructor. \<open>names\<close> is what the name of the i-th idle process reads as after the writes
  into the literal; \<open>null_memory\<close> what a null array reads as.
\<close>

fun create_idles :: "u64 \<Rightarrow> (nat \<Rightarrow> u8 list) \<Rightarrow> nat list \<Rightarrow> sched \<Rightarrow> sched option" where
  "create_idles IdleProcess names [] s = Some s"
| "create_idles IdleProcess names (i # is) s =
     (case CreateIdleProcess IdleProcess (names i) s of
        None \<Rightarrow> None
      | Some (p, s) \<Rightarrow>
          create_idles IdleProcess names is (s\<lparr>CPUs := (CPUs s)[i := (CPUs s ! i)\<lparr>idleProcess := p\<rparr>]\<rparr>))"

definition clear_queue :: "(nat \<Rightarrow> u64) \<Rightarrow> cpu \<Rightarrow> cpu" where
  "clear_queue null_memory c =
     (let c = c\<lparr>Queue := clear null_memory (Queue c)\<rparr> in c\<lparr>QueueLock := releaseLock (QueueLock c)\<rparr>)"

definition clear_queues :: "(nat \<Rightarrow> u64) \<Rightarrow> sched \<Rightarrow> sched" where
  "clear_queues null_memory s =
     fold (\<lambda>i s. s\<lparr>CPUs := (CPUs s)[i := clear_queue null_memory (CPUs s ! i)]\<rparr>) [0..<ActiveCPUs s] s"

definition new_scheduler ::
  "(nat \<Rightarrow> u64) \<Rightarrow> (nat \<Rightarrow> u64) \<Rightarrow> u64 \<Rightarrow> (nat \<Rightarrow> u8 list) \<Rightarrow> u8 list \<Rightarrow> u64 \<Rightarrow> nat \<Rightarrow> sched \<Rightarrow> sched option"
where
  "new_scheduler fresh null_memory IdleProcess names KernelStage2 entry local s =
     (case create_idles IdleProcess names [0..<ActiveCPUs s] s of
        None \<Rightarrow> None
      | Some s \<Rightarrow>
          case NewProcess fresh KernelStage2 entry 0 (clear_queues null_memory s) of
            None \<Rightarrow> None
          | Some (p, s) \<Rightarrow>
              Some (s\<lparr>CPUs := (CPUs s)[local := (CPUs s ! local)\<lparr>currentProcess := 0\<rparr>],
                      SchedulerReady := True\<rparr>))"

section \<open>The queue discipline\<close>

text \<open>
  A sound processor: its queue holds distinct processes, neither null nor the idle process, and
  what runs is nothing, the idle process or the front of the queue.
\<close>

definition cpu_ok :: "cpu \<Rightarrow> bool" where
  "cpu_ok c \<longleftrightarrow> vector_ok (Queue c) \<and> distinct (items (Queue c)) \<and> 0 \<notin> set (items (Queue c))
     \<and> idleProcess c \<noteq> 0 \<and> idleProcess c \<notin> set (items (Queue c))
     \<and> (currentProcess c = 0 \<or> currentProcess c = idleProcess c
        \<or> (items (Queue c) \<noteq> [] \<and> currentProcess c = hd (items (Queue c))))"

text \<open>The policy: what runs next and what becomes of the queue, over lists.\<close>

definition next_queue :: "u64 \<Rightarrow> bool \<Rightarrow> u64 \<Rightarrow> u64 list \<Rightarrow> u64 \<times> u64 list" where
  "next_queue idle dying cur q =
     (if cur = 0 \<or> q = [] then (idle, q)
      else if dying then (idle, remove1 cur q)
      else if cur = idle then (hd q, q)
      else (hd (rotate1 q), rotate1 q))"

definition expired :: "cpu \<Rightarrow> proc_mem \<Rightarrow> bool" where
  "expired c m \<longleftrightarrow> currentProcess c = 0 \<or> TimeSlice (procs m (currentProcess c)) = 0"

lemma upd_proc_fields [simp]:
  "procs (upd_proc p f m) = (procs m)(p := f (procs m p))" "fx_mem (upd_proc p f m) = fx_mem m"
  "kheap_state (upd_proc p f m) = kheap_state m" "stack_mem (upd_proc p f m) = stack_mem m"
  by (simp_all add: upd_proc_def)

lemma requeue_spec:
  assumes "vector_ok q" and "items q = cur # qs"
  shows "\<exists>q' m'. requeue fresh regs fpu cur q m = Some (q', m') \<and> vector_ok q' \<and> items q' = qs @ [cur]
    \<and> procs m' = (procs m)(cur := (procs m cur)\<lparr>TimeSlice := DefaultTimeSlice (procs m cur), Context := regs\<rparr>)
    \<and> fx_mem m' = (fx_mem m)(fx_State (procs m cur) := fpu) \<and> kheap_state m' = kheap_state m"
proof -
  have "length (items q) < 2 ^ 31" using assms(1) by (simp add: vector_ok_def)
  then obtain q' where "erase True 0 q = Some q'" "vector_ok (add_back True 0 fresh cur q')"
    "items (add_back True 0 fresh cur q') = qs @ [cur]"
    using rq.rotation [OF assms, where nul = 0 and fresh = fresh] by auto
  then show ?thesis by (simp add: requeue_def)
qed

text \<open>What the choice leaves of the processor and of the memory.\<close>

lemma choose_next_spec:
  assumes "cpu_ok c"
  shows "\<exists>c' m'. choose_next fresh regs fpu c m = Some (c', m') \<and> cpu_ok c'
    \<and> (currentProcess c', items (Queue c'))
        = next_queue (idleProcess c) (State (procs m (currentProcess c)) = PROCESS_DYING)
            (currentProcess c) (items (Queue c))
    \<and> idleProcess c' = idleProcess c \<and> QueueLock c' = QueueLock c \<and> cpu_id c' = cpu_id c"
proof -
  let ?cur = "currentProcess c" and ?q = "items (Queue c)"
  have ok: "vector_ok (Queue c)" and d: "distinct ?q" "0 \<notin> set ?q" "idleProcess c \<noteq> 0" "idleProcess c \<notin> set ?q"
    and cur: "?cur = 0 \<or> ?cur = idleProcess c \<or> (?q \<noteq> [] \<and> ?cur = hd ?q)"
    using assms by (auto simp: cpu_ok_def)
  have e: "get_length (Queue c) \<le> 0 \<longleftrightarrow> ?q = []" using rq.empty_iff [OF ok] by simp
  consider (idle) "?cur = 0 \<or> ?q = []" | (dying) "?cur \<noteq> 0" "?q \<noteq> []" "State (procs m ?cur) = PROCESS_DYING"
    | (start) "?cur = idleProcess c" "?q \<noteq> []" "State (procs m ?cur) \<noteq> PROCESS_DYING"
    | (rotate) "?cur \<noteq> 0" "?cur \<noteq> idleProcess c" "?q \<noteq> []" "State (procs m ?cur) \<noteq> PROCESS_DYING"
    using d by blast
  then show ?thesis
  proof cases
    case idle
    then show ?thesis using ok d e by (auto simp: choose_next_def next_queue_def cpu_ok_def)
  next
    case dying
    obtain q' where "remove True (=) ?cur (Queue c) = Some q'" "vector_ok q'" "items q' = remove1 ?cur ?q"
      using rq.take_law [OF ok] by blast
    then show ?thesis using dying d e notin_set_remove1 [of _ ?q ?cur]
      by (auto simp: choose_next_def next_queue_def cpu_ok_def)
  next
    case start
    have "at_pos (Queue c) 0 = hd ?q" by (rule rq.front_law [OF ok start(2)])
    then show ?thesis using start d ok e
      by (auto simp: choose_next_def next_queue_def cpu_ok_def Let_def)
  next
    case rotate
    then have h: "?q = ?cur # tl ?q" using cur by (metis list.collapse)
    obtain q' m' where q': "requeue fresh regs fpu ?cur (Queue c) m = Some (q', m')" "vector_ok q'"
      "items q' = tl ?q @ [?cur]"
      using requeue_spec [OF ok h] by blast
    have r: "items q' = rotate1 ?q" using q'(3) by (subst h) simp
    have "at_pos q' 0 = hd (items q')" using q' by (intro rq.front_law) auto
    moreover have "set (items q') = set ?q" "distinct (items q')" using d by (simp_all add: r)
    ultimately show ?thesis using rotate d q' e r
      by (auto simp: choose_next_def next_queue_def cpu_ok_def Let_def)
  qed
qed

lemma charge_expired: "charge (currentProcess c) m =
   (\<not> expired c m,
    if currentProcess c = 0 then m
    else upd_proc (currentProcess c) (\<lambda>p. p\<lparr>ActiveTicks := ActiveTicks p + 1,
           TimeSlice := TimeSlice p - (if expired c m then 0 else 1)\<rparr>) m)"
  by (simp add: charge_def expired_def upd_proc_def Let_def word_neq_0_conv)

lemma schedule_cpu_spec:
  assumes "cpu_ok c"
  shows "\<exists>c' m' d. schedule_cpu fresh regs fpu c m = Some ((c', m'), d) \<and> cpu_ok c'
    \<and> (QueueLock c = 0 \<longrightarrow> QueueLock c' = 0) \<and> idleProcess c' = idleProcess c
    \<and> (currentProcess c', items (Queue c'))
        = (if expired c m \<and> QueueLock c = 0
           then next_queue (idleProcess c) (State (procs m (currentProcess c)) = PROCESS_DYING)
             (currentProcess c) (items (Queue c))
           else (currentProcess c, items (Queue c)))
    \<and> (d \<noteq> None \<longleftrightarrow> expired c m \<and> QueueLock c = 0)"
proof (cases "expired c m \<and> QueueLock c = 0")
  case False
  define m1 where "m1 = snd (charge (currentProcess c) m)"
  have ch: "charge (currentProcess c) m = (\<not> expired c m, m1)" by (simp add: charge_expired m1_def)
  show ?thesis
  proof (cases "expired c m")
    case True
    have "schedule_cpu fresh regs fpu c m = Some ((c\<lparr>QueueLock := 1\<rparr>, m1), None)"
      using False True by (simp add: schedule_cpu_def ch acquireTestLock_def)
    moreover have "cpu_ok (c\<lparr>QueueLock := 1\<rparr>)" using assms by (simp add: cpu_ok_def)
    ultimately show ?thesis using False True by simp
  next
    case nexp: False
    have "schedule_cpu fresh regs fpu c m = Some ((c, m1), None)"
      using nexp by (simp add: schedule_cpu_def ch)
    then show ?thesis using nexp assms by simp
  qed
next
  case True
  define m1 where "m1 = snd (charge (currentProcess c) m)"
  have ch: "charge (currentProcess c) m = (False, m1)" using True by (simp add: charge_expired m1_def)
  have st: "State (procs m1 (currentProcess c)) = State (procs m (currentProcess c))"
    by (simp add: charge_expired m1_def)
  have ok: "cpu_ok (c\<lparr>QueueLock := 1\<rparr>)" using assms by (simp add: cpu_ok_def)
  obtain c' m' where c': "choose_next fresh regs fpu (c\<lparr>QueueLock := 1\<rparr>) m1 = Some (c', m')" "cpu_ok c'"
    "(currentProcess c', items (Queue c')) = next_queue (idleProcess c)
        (State (procs m (currentProcess c)) = PROCESS_DYING) (currentProcess c) (items (Queue c))"
    "idleProcess c' = idleProcess c"
    using choose_next_spec [OF ok, of fresh regs fpu m1] st by auto
  define c2 where "c2 = fst (run_process (c'\<lparr>QueueLock := releaseLock (QueueLock c')\<rparr>) m')"
  define d where "d = snd (run_process (c'\<lparr>QueueLock := releaseLock (QueueLock c')\<rparr>) m')"
  have s: "schedule_cpu fresh regs fpu c m = Some ((c2, m'), Some d)"
    unfolding schedule_cpu_def by (simp add: ch True acquireTestLock_def c'(1) c2_def d_def split: prod.split)
  have f: "Queue c2 = Queue c'" "currentProcess c2 = currentProcess c'" "idleProcess c2 = idleProcess c'"
    "QueueLock c2 = 0"
    by (simp_all add: c2_def run_process_def Let_def releaseLock_def)
  have "cpu_ok c2" using c'(2) unfolding cpu_ok_def f by simp
  then show ?thesis unfolding s using True c'(3,4) f by simp
qed

text \<open>What one call leaves of the processes' memory.\<close>

lemma choose_next_memory:
  assumes "choose_next fresh regs fpu c m = Some (c', m')"
  shows "State (procs m' p) = State (procs m p)" and "DefaultTimeSlice (procs m' p) = DefaultTimeSlice (procs m p)"
    and "fx_State (procs m' p) = fx_State (procs m p)"
    and "p \<noteq> currentProcess c \<Longrightarrow> Context (procs m' p) = Context (procs m p)"
    and "a \<noteq> fx_State (procs m (currentProcess c)) \<Longrightarrow> fx_mem m' a = fx_mem m a"
  using assms
  by (auto simp: choose_next_def requeue_def Let_def split: if_splits option.splits)

text \<open>A call in its three parts: the tick, the choice and the dispatch.\<close>

lemma schedule_cpu_switch:
  assumes "schedule_cpu fresh regs fpu c m = Some ((c', m'), d)" and "expired c m" and "QueueLock c = 0"
  obtains m1 c1 where "charge (currentProcess c) m = (False, m1)"
    and "choose_next fresh regs fpu (c\<lparr>QueueLock := 1\<rparr>) m1 = Some (c1, m')"
    and "currentProcess c' = currentProcess c1" and "d = Some (snd (run_process c1 m'))"
    and "tss c' = SetKernelStack (tss c1) (Stack (procs m' (currentProcess c1)))"
    and "Queue c' = Queue c1"
proof -
  define m1 where "m1 = snd (charge (currentProcess c) m)"
  have ch: "charge (currentProcess c) m = (False, m1)" using assms(2) by (simp add: charge_expired m1_def)
  obtain c1 m2 where c1: "choose_next fresh regs fpu (c\<lparr>QueueLock := 1\<rparr>) m1 = Some (c1, m2)"
    using assms by (auto simp: schedule_cpu_def ch acquireTestLock_def split: option.splits prod.splits)
  then show thesis using assms that [OF ch]
    by (auto simp: schedule_cpu_def ch acquireTestLock_def run_process_def Let_def)
qed

lemma schedule_cpu_stay:
  assumes "schedule_cpu fresh regs fpu c m = Some ((c', m'), d)" and "\<not> (expired c m \<and> QueueLock c = 0)"
  shows "m' = snd (charge (currentProcess c) m)" and "currentProcess c' = currentProcess c"
    and "Queue c' = Queue c" and "d = None"
proof -
  define m1 where "m1 = snd (charge (currentProcess c) m)"
  have ch: "charge (currentProcess c) m = (\<not> expired c m, m1)" by (simp add: charge_expired m1_def)
  then show "m' = m1" "currentProcess c' = currentProcess c" "Queue c' = Queue c" "d = None"
    using assms by (auto simp: schedule_cpu_def acquireTestLock_def Let_def split: if_splits)
qed

lemma charge_memory:
  assumes "charge cur m = (b, m1)"
  shows "State (procs m1 p) = State (procs m p)" and "DefaultTimeSlice (procs m1 p) = DefaultTimeSlice (procs m p)"
    and "fx_State (procs m1 p) = fx_State (procs m p)" and "Context (procs m1 p) = Context (procs m p)"
    and "fx_mem m1 = fx_mem m" and "p \<noteq> cur \<Longrightarrow> TimeSlice (procs m1 p) = TimeSlice (procs m p)"
  using assms by (auto simp: charge_def Let_def split: if_splits)

text \<open>What one call leaves of the processes' memory.\<close>

lemma schedule_cpu_memory:
  assumes "schedule_cpu fresh regs fpu c m = Some ((c', m'), d)"
  shows "State (procs m' p) = State (procs m p) \<and> DefaultTimeSlice (procs m' p) = DefaultTimeSlice (procs m p)
    \<and> fx_State (procs m' p) = fx_State (procs m p)
    \<and> (p \<noteq> currentProcess c \<longrightarrow> Context (procs m' p) = Context (procs m p))
    \<and> (a \<noteq> fx_State (procs m (currentProcess c)) \<longrightarrow> fx_mem m' a = fx_mem m a)"
proof (cases "expired c m \<and> QueueLock c = 0")
  case True
  then obtain m1 c1 where 1: "charge (currentProcess c) m = (False, m1)"
    "choose_next fresh regs fpu (c\<lparr>QueueLock := 1\<rparr>) m1 = Some (c1, m')"
    using schedule_cpu_switch [OF assms] by blast
  note ch = charge_memory [OF 1(1)] and cn = choose_next_memory [OF 1(2)]
  show ?thesis using ch(1-5) cn by simp
next
  case False
  define b where "b = fst (charge (currentProcess c) m)"
  have "charge (currentProcess c) m = (b, m')"
    using schedule_cpu_stay(1) [OF assms False] by (simp add: b_def)
  from charge_memory [OF this] show ?thesis by simp
qed

text \<open>The dispatched process is the new current one, from its saved context.\<close>

lemma wrmsr_halves: "wrmsr (x AND 0xFFFFFFFF) (drop_bit 32 x AND 0xFFFFFFFF) = x"
proof (rule bit_word_eqI)
  fix n
  assume "n < LENGTH(64)"
  have m: "(0xFFFFFFFF :: u64) = mask 32" by (simp add: mask_eq_exp_minus_1)
  show "bit (wrmsr (x AND 0xFFFFFFFF) (drop_bit 32 x AND 0xFFFFFFFF)) n = bit x n"
    using \<open>n < LENGTH(64)\<close> unfolding wrmsr_def m by (cases "n < 32") (auto simp: bit_simps)
qed

lemma dispatch_current:
  assumes "schedule_cpu fresh regs fpu c m = Some ((c', m'), Some d)"
  shows "to_context d = Context (procs m' (currentProcess c'))
    \<and> to_fx d = fx_mem m' (fx_State (procs m' (currentProcess c')))
    \<and> to_fsBase d = fsBase (procs m' (currentProcess c'))
    \<and> Rsp0 (tss c') = Stack (procs m' (currentProcess c'))"
proof -
  have "expired c m \<and> QueueLock c = 0" using schedule_cpu_stay(4) [OF assms] by blast
  then obtain c1 where "currentProcess c' = currentProcess c1" "Some d = Some (snd (run_process c1 m'))"
    "tss c' = SetKernelStack (tss c1) (Stack (procs m' (currentProcess c1)))"
    using schedule_cpu_switch [OF assms] by metis
  then show ?thesis by (simp add: run_process_def Let_def SetKernelStack_def wrmsr_halves)
qed

text \<open>A process put back has its registers saved; the process chosen has a full time slice.\<close>

lemma rotate_saves:
  assumes "schedule_cpu fresh regs fpu c m = Some ((c', m'), d)" and "cpu_ok c"
    and "expired c m" and "QueueLock c = 0" and "items (Queue c) \<noteq> []" and "currentProcess c = hd (items (Queue c))"
    and "State (procs m (currentProcess c)) \<noteq> PROCESS_DYING"
  shows "Context (procs m' (currentProcess c)) = regs
    \<and> fx_mem m' (fx_State (procs m (currentProcess c))) = fpu
    \<and> TimeSlice (procs m' (currentProcess c')) = DefaultTimeSlice (procs m' (currentProcess c'))"
proof -
  let ?cur = "currentProcess c"
  obtain m1 c1 where 1: "charge ?cur m = (False, m1)"
    "choose_next fresh regs fpu (c\<lparr>QueueLock := 1\<rparr>) m1 = Some (c1, m')"
    "currentProcess c' = currentProcess c1"
    using schedule_cpu_switch [OF assms(1,3,4)] by metis
  note ch = charge_memory [OF 1(1)]
  have ok: "vector_ok (Queue c)" and ne: "?cur \<noteq> 0" "?cur \<noteq> idleProcess c"
    using assms(2) hd_in_set [OF assms(5), folded assms(6)] by (auto simp: cpu_ok_def)
  have len: "get_length (Queue c) \<noteq> 0" using rq.empty_iff [OF ok] assms(5) by simp
  have h: "items (Queue c) = ?cur # tl (items (Queue c))" using assms(5,6) by simp
  obtain q' m2 where q': "requeue fresh regs fpu ?cur (Queue c) m1 = Some (q', m2)"
    "procs m2 = (procs m1)(?cur := (procs m1 ?cur)\<lparr>TimeSlice := DefaultTimeSlice (procs m1 ?cur), Context := regs\<rparr>)"
    "fx_mem m2 = (fx_mem m1)(fx_State (procs m1 ?cur) := fpu)"
    using requeue_spec [OF ok h, of fresh regs fpu m1] by blast
  have "choose_next fresh regs fpu (c\<lparr>QueueLock := 1\<rparr>) m1 =
     Some (c\<lparr>QueueLock := 1, currentProcess := at_pos q' 0, Queue := q'\<rparr>,
           upd_proc (at_pos q' 0) (\<lambda>p. p\<lparr>TimeSlice := DefaultTimeSlice p\<rparr>) m2)"
    using ne len assms(7) q'(1) ch(1) by (simp add: choose_next_def Let_def)
  then have m': "m' = upd_proc (at_pos q' 0) (\<lambda>p. p\<lparr>TimeSlice := DefaultTimeSlice p\<rparr>) m2"
    "currentProcess c' = at_pos q' 0"
    using 1(2,3) by auto
  then show ?thesis using q'(2,3) ch(3,5) by simp
qed
section \<open>Runs of ticks\<close>

text \<open>Successive calls on one processor, each with what the interrupted code left in the
  registers, and the last dispatch.\<close>

type_synonym interrupted = "(nat \<Rightarrow> u64) \<times> ProcessContext \<times> FXState"

fun run_ticks :: "interrupted list \<Rightarrow> cpu \<times> proc_mem \<Rightarrow> (cpu \<times> proc_mem) option" where
  "run_ticks [] s = Some s"
| "run_ticks ((fresh, regs, fpu) # ins) (c, m) =
     (case schedule_cpu fresh regs fpu c m of None \<Rightarrow> None | Some (s, _) \<Rightarrow> run_ticks ins s)"

lemma run_ticks_append:
  "run_ticks (xs @ ys) s = (case run_ticks xs s of None \<Rightarrow> None | Some t \<Rightarrow> run_ticks ys t)"
  by (induction xs s rule: run_ticks.induct) (auto split: option.splits)

lemma stay_slice:
  assumes "schedule_cpu fresh regs fpu c m = Some ((c', m'), d)" and "\<not> expired c m"
  shows "TimeSlice (procs m' (currentProcess c)) = TimeSlice (procs m (currentProcess c)) - 1"
    and "QueueLock c' = QueueLock c"
proof -
  define m1 where "m1 = snd (charge (currentProcess c) m)"
  have ch: "charge (currentProcess c) m = (True, m1)" using assms(2) by (simp add: charge_expired m1_def)
  have "schedule_cpu fresh regs fpu c m = Some ((c, m1), None)" by (simp add: schedule_cpu_def ch)
  then have "c' = c" "m' = snd (charge (currentProcess c) m)" using assms(1) by (simp_all add: m1_def)
  then show "TimeSlice (procs m' (currentProcess c)) = TimeSlice (procs m (currentProcess c)) - 1"
    "QueueLock c' = QueueLock c"
    using assms(2) by (simp_all add: charge_expired expired_def)
qed

text \<open>No process of the queue is dying.\<close>

definition all_ready :: "cpu \<Rightarrow> proc_mem \<Rightarrow> bool" where
  "all_ready c m \<longleftrightarrow> (\<forall>p \<in> set (items (Queue c)). State (procs m p) \<noteq> PROCESS_DYING)"

lemma quantum:
  assumes "cpu_ok c" and "QueueLock c = 0" and "items (Queue c) = p # ps" and "currentProcess c = p"
    and "all_ready c m" and "length ins = Suc (unat (TimeSlice (procs m p)))"
  shows "\<exists>c' m'. run_ticks ins (c, m) = Some (c', m') \<and> cpu_ok c' \<and> QueueLock c' = 0
    \<and> items (Queue c') = ps @ [p] \<and> currentProcess c' = hd (ps @ [p]) \<and> all_ready c' m'"
  using assms
proof (induction "unat (TimeSlice (procs m p))" arbitrary: ins c m)
  case 0
  obtain f r x where ins: "ins = [(f, r, x)]" using "0.prems"(6) "0.hyps" by (cases ins) auto
  have ex: "expired c m" using "0.hyps" "0.prems"(4) by (simp add: expired_def unat_eq_0 [symmetric])
  have p: "p \<noteq> 0" "p \<noteq> idleProcess c" using "0.prems"(1,3) by (auto simp: cpu_ok_def)
  have nd: "State (procs m p) \<noteq> PROCESS_DYING" using "0.prems"(3,5) by (simp add: all_ready_def)
  obtain c' m' d where s: "schedule_cpu f r x c m = Some ((c', m'), d)" "cpu_ok c'" "QueueLock c' = 0"
    "(currentProcess c', items (Queue c')) = (hd (ps @ [p]), ps @ [p])"
    using schedule_cpu_spec [OF "0.prems"(1), of f r x m] ex "0.prems"(2,3,4) p nd
    by (auto simp: next_queue_def)
  have "all_ready c' m'" using schedule_cpu_memory [OF s(1)] s(4) "0.prems"(3,5)
    by (auto simp: all_ready_def)
  then show ?case using s by (simp add: ins)
next
  case (Suc n)
  obtain f r x ins' where ins: "ins = (f, r, x) # ins'" using Suc.prems(6) by (cases ins) auto
  have nex: "\<not> expired c m"
    using Suc.hyps(2) Suc.prems(1,3,4) by (auto simp: expired_def cpu_ok_def)
  obtain c' m' d where s: "schedule_cpu f r x c m = Some ((c', m'), d)" "cpu_ok c'"
    "currentProcess c' = p" "items (Queue c') = p # ps"
    using schedule_cpu_spec [OF Suc.prems(1), of f r x m] nex Suc.prems(3,4) by auto
  note st = stay_slice [OF s(1) nex]
  have "unat (TimeSlice (procs m' p)) = n"
    using st(1) Suc.hyps(2) Suc.prems(4) unat_sub [of 1 "TimeSlice (procs m p)"]
    by (simp add: word_le_nat_alt)
  moreover have "all_ready c' m'" using schedule_cpu_memory [OF s(1)] s(4) Suc.prems(3,5)
    by (auto simp: all_ready_def)
  moreover have "length ins' = Suc n" using Suc.prems(6) Suc.hyps(2) by (simp add: ins)
  ultimately show ?case
    using Suc.hyps(1) [of m' c' ins'] s st(2) Suc.prems(2) by (simp add: ins)
qed

lemma turn_comes:
  assumes "cpu_ok c" and "QueueLock c = 0" and "currentProcess c = hd (items (Queue c))"
    and "all_ready c m" and "j < length (items (Queue c))" and "256 * j \<le> length ins"
  shows "\<exists>n \<le> 256 * j. \<exists>c' m'. run_ticks (take n ins) (c, m) = Some (c', m')
    \<and> currentProcess c' = items (Queue c) ! j"
  using assms
proof (induction j arbitrary: c m ins)
  case 0
  then have "items (Queue c) \<noteq> []" by fastforce
  then have "currentProcess c = items (Queue c) ! 0" using "0.prems"(3) by (simp add: hd_conv_nth)
  then show ?case by (intro exI [of _ 0]) simp
next
  case (Suc j)
  obtain p ps where q: "items (Queue c) = p # ps" using Suc.prems(5) by (cases "items (Queue c)") auto
  define n1 where "n1 = Suc (unat (TimeSlice (procs m p)))"
  have "unat (TimeSlice (procs m p)) < 256" by (rule order_less_le_trans [OF unsigned_less]) simp
  then have n1: "n1 \<le> 256" unfolding n1_def by linarith
  then have l: "length (take n1 ins) = n1" using Suc.prems(6) by simp
  obtain c1 m1 where 1: "run_ticks (take n1 ins) (c, m) = Some (c1, m1)" "cpu_ok c1" "QueueLock c1 = 0"
    "items (Queue c1) = ps @ [p]" "currentProcess c1 = hd (ps @ [p])" "all_ready c1 m1"
    using quantum [OF Suc.prems(1,2) q _ Suc.prems(4), of "take n1 ins"] Suc.prems(3) l q
    by (auto simp: n1_def)
  have "j < length (items (Queue c1))" using Suc.prems(5) q 1(4) by simp
  moreover have "256 * j \<le> length (drop n1 ins)" using Suc.prems(6) n1 by simp
  moreover have "currentProcess c1 = hd (items (Queue c1))" using 1(4,5) by simp
  ultimately obtain n2 c2 m2 where 2: "n2 \<le> 256 * j"
    "run_ticks (take n2 (drop n1 ins)) (c1, m1) = Some (c2, m2)"
    "currentProcess c2 = items (Queue c1) ! j"
    using Suc.IH [OF 1(2,3) _ 1(6)] by blast
  have "items (Queue c1) ! j = items (Queue c) ! Suc j"
    using Suc.prems(5) q 1(4) by (simp add: nth_append)
  then have "run_ticks (take (n1 + n2) ins) (c, m) = Some (c2, m2)"
    "currentProcess c2 = items (Queue c) ! Suc j" "n1 + n2 \<le> 256 * Suc j"
    using 1(1) 2 n1 by (simp_all add: take_add run_ticks_append)
  then show ?case by blast
qed

text \<open>The processes a processor can run, and that a call runs no others.\<close>

definition members :: "cpu \<Rightarrow> u64 set" where
  "members c = insert (idleProcess c) (set (items (Queue c)))"

lemma next_queue_members:
  assumes "cur \<in> insert idle (set q)" and "(cur', q') = next_queue idle dying cur q"
  shows "cur' \<in> insert idle (set q)" and "set q' \<subseteq> set q"
  using assms hd_in_set [of q] hd_in_set [of "rotate1 q"] set_remove1_subset [of cur q]
  by (auto simp: next_queue_def split: if_splits)

lemma schedule_members:
  assumes "cpu_ok c" and "schedule_cpu fresh regs fpu c m = Some ((c', m'), d)"
    and "currentProcess c \<in> members c"
  shows "cpu_ok c'" and "currentProcess c' \<in> members c'" and "members c' \<subseteq> members c"
proof -
  obtain b where s: "cpu_ok c'" "idleProcess c' = idleProcess c"
    "(currentProcess c', items (Queue c')) = next_queue (idleProcess c) b (currentProcess c) (items (Queue c))
      \<or> (currentProcess c', items (Queue c')) = (currentProcess c, items (Queue c))"
    using schedule_cpu_spec [OF assms(1), of fresh regs fpu m] assms(2) by (auto split: if_splits)
  have m: "currentProcess c' \<in> members c \<and> set (items (Queue c')) \<subseteq> set (items (Queue c))"
    using s(3)
  proof
    assume "(currentProcess c', items (Queue c')) = next_queue (idleProcess c) b (currentProcess c) (items (Queue c))"
    from next_queue_members [OF assms(3) [unfolded members_def] this] show ?thesis
      by (simp add: members_def)
  qed (use assms(3) in simp)
  then have "currentProcess c' \<noteq> 0" using assms(1) by (auto simp: members_def cpu_ok_def)
  then show "currentProcess c' \<in> members c'"
    using s(1) hd_in_set [of "items (Queue c')"] by (auto simp: members_def cpu_ok_def)
  show "members c' \<subseteq> members c" using m s(2) by (auto simp: members_def)
  show "cpu_ok c'" by (rule s(1))
qed

text \<open>A process that does not run keeps its registers.\<close>

lemma waiting_keeps:
  assumes "cpu_ok c" and "run_ticks ins (c, m) = Some (c', m')" and "currentProcess c \<in> members c"
    and "\<And>n c1 m1. n < length ins \<Longrightarrow> run_ticks (take n ins) (c, m) = Some (c1, m1) \<Longrightarrow> currentProcess c1 \<noteq> p"
    and "\<And>q. q \<in> members c - {p} \<Longrightarrow> fx_State (procs m q) \<noteq> fx_State (procs m p)"
  shows "Context (procs m' p) = Context (procs m p) \<and> fx_State (procs m' p) = fx_State (procs m p)
    \<and> fx_mem m' (fx_State (procs m p)) = fx_mem m (fx_State (procs m p))"
  using assms
proof (induction ins arbitrary: c m)
  case Nil
  then show ?case by simp
next
  case (Cons i ins)
  obtain f r x where i: "i = (f, r, x)" by (cases i)
  obtain c1 m1 d where s: "schedule_cpu f r x c m = Some ((c1, m1), d)"
    using schedule_cpu_spec [OF Cons.prems(1), of f r x m] by blast
  note mb = schedule_members [OF Cons.prems(1) s Cons.prems(3)]
  have ne: "currentProcess c \<noteq> p" using Cons.prems(4) [of 0 c m] by simp
  note mem = schedule_cpu_memory [OF s]
  have "run_ticks ins (c1, m1) = Some (c', m')" using Cons.prems(2) s by (simp add: i)
  moreover have "currentProcess c2 \<noteq> p" if "n < length ins" "run_ticks (take n ins) (c1, m1) = Some (c2, m2)" for n c2 m2
    using Cons.prems(4) [of "Suc n" c2 m2] that s by (simp add: i)
  moreover have "fx_State (procs m1 q) \<noteq> fx_State (procs m1 p)" if "q \<in> members c1 - {p}" for q
    using Cons.prems(5) [of q] mem that mb(3) by auto
  ultimately have "Context (procs m' p) = Context (procs m1 p) \<and> fx_State (procs m' p) = fx_State (procs m1 p)
    \<and> fx_mem m' (fx_State (procs m1 p)) = fx_mem m1 (fx_State (procs m1 p))"
    using Cons.IH [OF mb(1) _ mb(2)] by blast
  moreover have "fx_State (procs m (currentProcess c)) \<noteq> fx_State (procs m p)"
    using Cons.prems(3,5) ne by blast
  ultimately show ?case using mem [of p "fx_State (procs m p)"] ne by auto
qed

section \<open>Choosing a processor\<close>

lemma pick_from_minimal:
  "pick_from len is b \<in> insert b (set is) \<and> (\<forall>i \<in> insert b (set is). len (pick_from len is b) \<le> len i)"
proof (induction len "is" b rule: pick_from.induct)
  case (1 len b)
  then show ?case by simp
next
  case (2 len i "is" b)
  define b' where "b' = (if len i < len b then i else b)"
  have le: "len b' \<le> len i" "len b' \<le> len b" by (auto simp: b'_def)
  show ?case
  proof (cases "len b' = 0")
    case True
    then show ?thesis by (auto simp: b'_def [symmetric] Let_def) (auto simp: b'_def)
  next
    case False
    have IH: "pick_from len is b' \<in> insert b' (set is)"
      "\<forall>i \<in> insert b' (set is). len (pick_from len is b') \<le> len i"
      using "2.IH" [OF b'_def False] by auto
    have "pick_from len (i # is) b = pick_from len is b'" using False by (simp add: b'_def [symmetric] Let_def)
    moreover have "b' \<in> insert b (set (i # is))" by (simp add: b'_def)
    ultimately show ?thesis using IH le by (auto intro: order_trans)
  qed
qed

lemma pick_cpu_minimal:
  assumes "0 < ActiveCPUs s"
  shows "pick_cpu s < ActiveCPUs s"
    and "j < ActiveCPUs s \<Longrightarrow> get_length (Queue (CPUs s ! pick_cpu s)) \<le> get_length (Queue (CPUs s ! j))"
  using pick_from_minimal [of "\<lambda>i. get_length (Queue (CPUs s ! i))" "[1..<ActiveCPUs s]" 0] assms
  by (fastforce simp: pick_cpu_def)+

section \<open>Properties\<close>

lemma Schedule_spec:
  assumes "i < length (CPUs s)" and "cpu_ok (CPUs s ! i)"
  shows "\<exists>s' d. Schedule fresh regs fpu i s = Some (s', d) \<and> cpu_ok (CPUs s' ! i)
    \<and> local_apic s' = local_apic s
    \<and> (\<forall>j. j \<noteq> i \<longrightarrow> CPUs s' ! j = CPUs s ! j)
    \<and> (let c = CPUs s ! i; c' = CPUs s' ! i; switch = expired c (pmem s) \<and> QueueLock c = 0 in
        (d \<noteq> None \<longleftrightarrow> switch)
        \<and> (currentProcess c', items (Queue c')) =
           (if switch
            then next_queue (idleProcess c) (State (procs (pmem s) (currentProcess c)) = PROCESS_DYING)
                   (currentProcess c) (items (Queue c))
            else (currentProcess c, items (Queue c))))"
proof -
  obtain c' m' d where c': "schedule_cpu fresh regs fpu (CPUs s ! i) (pmem s) = Some ((c', m'), d)"
    "cpu_ok c'" "d \<noteq> None \<longleftrightarrow> expired (CPUs s ! i) (pmem s) \<and> QueueLock (CPUs s ! i) = 0"
    "(currentProcess c', items (Queue c')) =
       (if expired (CPUs s ! i) (pmem s) \<and> QueueLock (CPUs s ! i) = 0
        then next_queue (idleProcess (CPUs s ! i))
               (State (procs (pmem s) (currentProcess (CPUs s ! i))) = PROCESS_DYING)
               (currentProcess (CPUs s ! i)) (items (Queue (CPUs s ! i)))
        else (currentProcess (CPUs s ! i), items (Queue (CPUs s ! i))))"
    using schedule_cpu_spec [OF assms(2), of fresh regs fpu "pmem s"] by blast
  have "Schedule fresh regs fpu i s = Some (s\<lparr>CPUs := (CPUs s)[i := c'], pmem := m'\<rparr>, d)"
    by (simp add: Schedule_def c'(1))
  then show ?thesis using c' assms(1) by (simp add: Let_def)
qed

text \<open>C6. \<open>Schedule\<close> implements the round-robin policy on every processor: it always returns,
  it keeps the processor sound, it leaves the other processors alone, and the current process and
  the queue become what \<open>next_queue\<close> says when the time slice has run out and the queue is not
  locked, and stay as they are otherwise.\<close>

theorem Schedule_policy:
  assumes "i < length (CPUs s)" and "cpu_ok (CPUs s ! i)"
  shows "\<exists>s' d. Schedule fresh regs fpu i s = Some (s', d) \<and> cpu_ok (CPUs s' ! i)
    \<and> (\<forall>j. j \<noteq> i \<longrightarrow> CPUs s' ! j = CPUs s ! j)
    \<and> (let c = CPUs s ! i; c' = CPUs s' ! i; switch = expired c (pmem s) \<and> QueueLock c = 0 in
        (d \<noteq> None \<longleftrightarrow> switch)
        \<and> (currentProcess c', items (Queue c')) =
           (if switch
            then next_queue (idleProcess c) (State (procs (pmem s) (currentProcess c)) = PROCESS_DYING)
                   (currentProcess c) (items (Queue c))
            else (currentProcess c, items (Queue c))))"
  using Schedule_spec [OF assms, of fresh regs fpu] by blast

text \<open>A processor with two processes queued, the first one running.\<close>

definition two_queued :: "u64 vector" where
  "two_queued = add_back True 0 (\<lambda>_. 0) 0x2000 (add_back True 0 (\<lambda>_. 0) 0x1000 (new_vector (\<lambda>_. 0)))"

definition two_cpu :: cpu where
  "two_cpu = \<lparr>self = 0, cpu_id = 0, cpu_gdt = 0, gdtPtr = \<lparr>gdt_Size = 0, Offset = 0\<rparr>, currentProcess = 0x1000, idleProcess = 0x3000, QueueLock = 0,
     Queue = two_queued, tss = zero_TSS\<rparr>"

definition two_mem :: "proc_mem \<Rightarrow> proc_mem" where
  "two_mem m = m\<lparr>procs := \<lambda>p. (procs m p)\<lparr>State := PROCESS_READY, TimeSlice := 0, DefaultTimeSlice := 0, fx_State := p\<rparr>\<rparr>"

lemma two_queued_items: "items two_queued = [0x1000, 0x2000]" "vector_ok two_queued"
proof -
  let ?v = "add_back True 0 (\<lambda>_. 0) (0x1000 :: u64) (new_vector (\<lambda>_. 0))"
  have 1: "items ?v = [0x1000]" "vector_ok ?v"
    using add_back_spec [of "new_vector (\<lambda>_. 0)" True 0 "\<lambda>_. 0" "0x1000 :: u64"] by simp_all
  then have "unat (count ?v) = 1" using length_items [of ?v] by simp
  then show "items two_queued = [0x1000, 0x2000]" "vector_ok two_queued"
    using add_back_spec [of ?v True 0 "\<lambda>_. 0" "0x2000"] 1 by (simp_all add: two_queued_def)
qed

lemma two_cpu_ok: "cpu_ok two_cpu" "items (Queue two_cpu) = [0x1000, 0x2000]"
  "currentProcess two_cpu = 0x1000" "idleProcess two_cpu = 0x3000" "QueueLock two_cpu = 0"
  "all_ready two_cpu (two_mem m)" "expired two_cpu (two_mem m)"
  by (simp_all add: two_cpu_def cpu_ok_def two_queued_items all_ready_def two_mem_def expired_def)

theorem Schedule_policy_witness:
  "\<forall>m v l fpu. let s = \<lparr>SchedulerReady = True, NextPID = 3, CPUs = [two_cpu], ActiveCPUs = 1,
            pmem = two_mem m, Dead = v, Sleeping = v, AllActive = v, local_apic = l\<rparr>
   in \<exists>s' d. Schedule (\<lambda>_. 0) zero_context fpu 0 s = Some (s', d)
     \<and> currentProcess (CPUs s' ! 0) = 0x2000 \<and> items (Queue (CPUs s' ! 0)) = [0x2000, 0x1000]"
proof (intro allI)
  fix m v l fpu
  show "let s = \<lparr>SchedulerReady = True, NextPID = 3, CPUs = [two_cpu], ActiveCPUs = 1,
            pmem = two_mem m, Dead = v, Sleeping = v, AllActive = v, local_apic = l\<rparr>
   in \<exists>s' d. Schedule (\<lambda>_. 0) zero_context fpu 0 s = Some (s', d)
     \<and> currentProcess (CPUs s' ! 0) = 0x2000 \<and> items (Queue (CPUs s' ! 0)) = [0x2000, 0x1000]"
  proof -
    let ?s = "\<lparr>SchedulerReady = True, NextPID = 3, CPUs = [two_cpu], ActiveCPUs = 1,
              pmem = two_mem m, Dead = v, Sleeping = v, AllActive = v, local_apic = l\<rparr>"
    have "next_queue 0x3000 False 0x1000 [0x1000, 0x2000] = (0x2000, [0x2000, 0x1000])"
      by (simp add: next_queue_def)
    moreover have "State (procs (two_mem m) 0x1000) \<noteq> PROCESS_DYING" by (simp add: two_mem_def)
    ultimately show ?thesis
      using Schedule_policy [where i = 0 and s = ?s and fresh = "\<lambda>_. 0" and regs = zero_context and fpu = fpu]
        two_cpu_ok(1-5) two_cpu_ok(7) [of m]
      by (auto simp: Let_def)
  qed
qed



text \<open>C15. A process resumes where it stopped: the registers and the FPU state it was interrupted
  with are the ones it is dispatched with when it is next chosen, whatever ran in between, as long
  as no two processes of the processor share an FXSAVE area.\<close>

theorem process_resumes:
  assumes "cpu_ok c" and "QueueLock c = 0" and "expired c m" and "items (Queue c) = p # ps"
    and "currentProcess c = p" and "State (procs m p) \<noteq> PROCESS_DYING"
    and "\<And>q. q \<in> members c - {p} \<Longrightarrow> fx_State (procs m q) \<noteq> fx_State (procs m p)"
    and "schedule_cpu fresh regs fpu c m = Some ((c1, m1), d1)"
    and "run_ticks ins (c1, m1) = Some (c2, m2)"
    and "\<And>n c' m'. n \<le> length ins \<Longrightarrow> run_ticks (take n ins) (c1, m1) = Some (c', m') \<Longrightarrow> currentProcess c' \<noteq> p"
    and "schedule_cpu fresh' regs' fpu' c2 m2 = Some ((c3, m3), Some d)" and "currentProcess c3 = p"
  shows "to_context d = regs \<and> to_fx d = fpu"
proof -
  have cur: "currentProcess c \<in> members c" using assms(4,5) by (simp add: members_def)
  note mb1 = schedule_members [OF assms(1,8) cur]
  note mem1 = schedule_cpu_memory [OF assms(8)]
  have saved: "Context (procs m1 p) = regs" "fx_mem m1 (fx_State (procs m p)) = fpu"
    using rotate_saves [OF assms(8,1,3,2)] assms(4-6) by auto
  have fx1: "fx_State (procs m1 q) \<noteq> fx_State (procs m1 p)" if "q \<in> members c1 - {p}" for q
    using assms(7) [of q] mem1 that mb1(3) by auto
  have all: "run_ticks (ins @ [(fresh', regs', fpu')]) (c1, m1) = Some (c3, m3)"
    using assms(9,11) by (simp add: run_ticks_append)
  have other: "currentProcess c' \<noteq> p" if "n < length (ins @ [(fresh', regs', fpu')])"
    "run_ticks (take n (ins @ [(fresh', regs', fpu')])) (c1, m1) = Some (c', m')" for n c' m'
    using assms(10) [of n c' m'] that by simp
  have "Context (procs m3 p) = Context (procs m1 p) \<and> fx_State (procs m3 p) = fx_State (procs m1 p)
    \<and> fx_mem m3 (fx_State (procs m1 p)) = fx_mem m1 (fx_State (procs m1 p))"
    by (rule waiting_keeps [OF mb1(1) all mb1(2)]) (use other fx1 in blast)+
  then show ?thesis
    using dispatch_current [OF assms(11)] assms(12) saved mem1 [of p] by simp
qed
theorem process_resumes_witness:
  "\<forall>regs fpu regs' fpu' m. \<exists>c1 m1 d1 c3 m3 d. schedule_cpu (\<lambda>_. 0) regs fpu two_cpu (two_mem m) = Some ((c1, m1), d1)
     \<and> schedule_cpu (\<lambda>_. 0) regs' fpu' c1 m1 = Some ((c3, m3), Some d)
     \<and> to_context d = regs \<and> to_fx d = fpu"
proof (intro allI)
  fix regs fpu regs' fpu' m
  show "\<exists>c1 m1 d1 c3 m3 d. schedule_cpu (\<lambda>_. 0) regs fpu two_cpu (two_mem m) = Some ((c1, m1), d1)
     \<and> schedule_cpu (\<lambda>_. 0) regs' fpu' c1 m1 = Some ((c3, m3), Some d)
     \<and> to_context d = regs \<and> to_fx d = fpu"
  proof -
    note tc = two_cpu_ok(1-5) two_cpu_ok(7) [of m]
    have live: "State (procs (two_mem m) p) \<noteq> PROCESS_DYING" for p by (simp add: two_mem_def)
    obtain c1 m1 d1 where 1: "schedule_cpu (\<lambda>_. 0) regs fpu two_cpu (two_mem m) = Some ((c1, m1), d1)"
      "cpu_ok c1" "QueueLock c1 = 0" "currentProcess c1 = 0x2000" "items (Queue c1) = [0x2000, 0x1000]"
      using schedule_cpu_spec [OF tc(1), of "\<lambda>_. 0" regs fpu "two_mem m"] tc live
      by (auto simp: next_queue_def)
    have def0: "DefaultTimeSlice (procs m1 q) = 0" for q
      using schedule_cpu_memory [OF 1(1)] by (simp add: two_mem_def)
    have st: "State (procs m1 q) \<noteq> PROCESS_DYING" for q
      using schedule_cpu_memory [OF 1(1)] live by simp
    have "currentProcess two_cpu = hd (items (Queue two_cpu))" "items (Queue two_cpu) \<noteq> []" using tc by simp_all
    then have "TimeSlice (procs m1 (currentProcess c1)) = DefaultTimeSlice (procs m1 (currentProcess c1))"
      using rotate_saves [OF 1(1) tc(1,6,5)] live by blast
    then have ex: "expired c1 m1" using def0 by (simp add: expired_def)
    have i3: "idleProcess c1 \<noteq> 0x2000" using 1(2,5) by (auto simp: cpu_ok_def)
    obtain c3 m3 d where 3: "schedule_cpu (\<lambda>_. 0) regs' fpu' c1 m1 = Some ((c3, m3), Some d)"
      "currentProcess c3 = 0x1000"
      using schedule_cpu_spec [OF 1(2), of "\<lambda>_. 0" regs' fpu' m1] ex 1(3-5) st i3
      by (auto simp: next_queue_def)
    have fx: "fx_State (procs (two_mem m) q) \<noteq> fx_State (procs (two_mem m) 0x1000)" if "q \<in> members two_cpu - {0x1000}" for q
      using that by (simp add: two_mem_def)
    have "to_context d = regs \<and> to_fx d = fpu"
      by (rule process_resumes [where ins = "[]", OF tc(1,5,6,2,3) live fx 1(1) _ _ 3])
        (use 1(4) in auto)
    then show ?thesis using 1(1) 3(1) by blast
  qed
qed

text \<open>C19. \<open>NewProcess\<close> on a sound heap with room: it allocates a block nobody uses, numbers the
  process, starts it at its entry with a full time slice, and puts it at the back of a queue no
  other is shorter than; the other queues stay as they are.\<close>

theorem NewProcess_queues:
  assumes "kernel_heap (kheap_state (pmem s)) U" and "can_allocate 232 (kheap_state (pmem s))"
    and "length nm \<le> 16" and "0 < ActiveCPUs s" and "ActiveCPUs s \<le> length (CPUs s)"
    and "\<And>i. i < ActiveCPUs s \<Longrightarrow> vector_ok (Queue (CPUs s ! i)) \<and> unat (get_length (Queue (CPUs s ! i))) + 1 < 2 ^ 31"
  shows "\<exists>p s' n i. NewProcess fresh nm entry dat s = Some (p, s') \<and> (p - header_size, n) \<notin> U
    \<and> (let q = procs (pmem s') p in PID q = NextPID s \<and> State q = PROCESS_READY \<and> TimeSlice q = 5
         \<and> rip (Context q) = entry \<and> rdi (Context q) = NextPID s \<and> rsi (Context q) = dat)
    \<and> NextPID s' = NextPID s + 1
    \<and> i < ActiveCPUs s
    \<and> (\<forall>j < ActiveCPUs s. get_length (Queue (CPUs s ! i)) \<le> get_length (Queue (CPUs s ! j)))
    \<and> items (Queue (CPUs s' ! i)) = items (Queue (CPUs s ! i)) @ [p]
    \<and> (\<forall>j. j \<noteq> i \<longrightarrow> CPUs s' ! j = CPUs s ! j)"
proof -
  obtain p n h where p: "malloc 232 (kheap_state (pmem s)) = Some (p, h)" "(p - header_size, n) \<notin> U"
    using kernel_heap_malloc [OF assms(1,2)] by (auto simp: allocates_def)
  define m1 where "m1 = construct_process p (NextPID s) ((pmem s)\<lparr>kheap_state := h\<rparr>)"
  have np: "new_Process (NextPID s) (pmem s) = Some (p, m1)" by (simp add: new_Process_def p(1) m1_def)
  define m2 where "m2 = upd_proc p (\<lambda>q. q\<lparr>Name := nm @ drop (length nm) (Name q)\<rparr>) m1"
  have m2: "set_name p nm m1 = Some m2" using assms(3) by (simp add: set_name_def m2_def)
  have f2: "PID (procs m2 p) = NextPID s" "State (procs m2 p) = PROCESS_READY"
    by (simp_all add: m2_def m1_def construct_process_def)
  define m3 where "m3 = ContextCreation p entry dat m2"
  have m3: "(let q = procs m3 p in PID q = NextPID s \<and> State q = PROCESS_READY \<and> TimeSlice q = 5
         \<and> rip (Context q) = entry \<and> rdi (Context q) = NextPID s \<and> rsi (Context q) = dat)"
    using create_context_process [of DEFAUL_PROCESS_TICK_COUNT p entry dat m2] f2
    by (auto simp: m3_def ContextCreation_def DEFAUL_PROCESS_TICK_COUNT_def Let_def)
  define s1 where "s1 = s\<lparr>NextPID := NextPID s + 1, pmem := m3\<rparr>"
  define i where "i = pick_cpu s1"
  have a: "ActiveCPUs s1 = ActiveCPUs s" "CPUs s1 = CPUs s" by (simp_all add: s1_def)
  have i: "i < ActiveCPUs s" "\<forall>j < ActiveCPUs s. get_length (Queue (CPUs s ! i)) \<le> get_length (Queue (CPUs s ! j))"
    using pick_cpu_minimal [of s1] assms(4) a by (simp_all add: i_def)
  have N: "NewProcess fresh nm entry dat s = Some (p, s1\<lparr>CPUs := (CPUs s)[i := enqueue fresh p (CPUs s ! i)]\<rparr>)"
    by (simp add: NewProcess_def np m2 Let_def s1_def i_def m3_def)
  have "items (Queue (enqueue fresh p (CPUs s ! i))) = items (Queue (CPUs s ! i)) @ [p]"
    using add_back_spec [of "Queue (CPUs s ! i)" True 0 fresh p] assms(6) [OF i(1)]
    by (simp add: enqueue_def Let_def get_length_def)
  moreover have "i < length (CPUs s)" using i(1) assms(5) by simp
  ultimately show ?thesis using N i m3 p(2)
    by (intro exI [of _ p] exI [of _ "s1\<lparr>CPUs := (CPUs s)[i := enqueue fresh p (CPUs s ! i)]\<rparr>"] exI [of _ n]
        exI [of _ i]) (simp add: s1_def)
qed

lemma small_heap_can232: "can_allocate 232 small_heap"
proof -
  have r: "malloc_round 232 = 240" by (simp add: malloc_round_def)
  have "fits 240 (0xFF * 0x1000 - header_size, True)" by (simp add: fits_def)
  then have "find_block (hdr small_heap) 240 (heapStart small_heap) \<noteq> Some None"
    using find_block_heap(1) [OF small_heap_blocks, of 240] by simp
  then show ?thesis by (simp add: can_allocate_def r)
qed

theorem NewProcess_queues_witness:
  "\<forall>m v l. let s = \<lparr>SchedulerReady = True, NextPID = 3, CPUs = [two_cpu], ActiveCPUs = 1,
            pmem = (two_mem m)\<lparr>kheap_state := small_heap\<rparr>, Dead = v, Sleeping = v, AllActive = v, local_apic = l\<rparr>
   in \<exists>p s'. NewProcess (\<lambda>_. 0) [0x41] 0x5000 7 s = Some (p, s')
     \<and> items (Queue (CPUs s' ! 0)) = [0x1000, 0x2000, p] \<and> NextPID s' = 4"
proof (intro allI)
  fix m v l
  show "let s = \<lparr>SchedulerReady = True, NextPID = 3, CPUs = [two_cpu], ActiveCPUs = 1,
            pmem = (two_mem m)\<lparr>kheap_state := small_heap\<rparr>, Dead = v, Sleeping = v, AllActive = v, local_apic = l\<rparr>
   in \<exists>p s'. NewProcess (\<lambda>_. 0) [0x41] 0x5000 7 s = Some (p, s')
     \<and> items (Queue (CPUs s' ! 0)) = [0x1000, 0x2000, p] \<and> NextPID s' = 4"
  proof -
    let ?s = "\<lparr>SchedulerReady = True, NextPID = 3, CPUs = [two_cpu], ActiveCPUs = 1,
              pmem = (two_mem m)\<lparr>kheap_state := small_heap\<rparr>, Dead = v, Sleeping = v, AllActive = v, local_apic = l\<rparr>"
    have k: "kernel_heap (kheap_state (pmem ?s)) {}" "can_allocate 232 (kheap_state (pmem ?s))"
      using small_heap small_heap_can232 by simp_all
    have "unat (count two_queued) = 2" using length_items [of two_queued] two_queued_items(1) by simp
    then have v: "vector_ok (Queue (CPUs ?s ! i)) \<and> unat (get_length (Queue (CPUs ?s ! i))) + 1 < 2 ^ 31"
      if "i < ActiveCPUs ?s" for i
      using that two_queued_items(2) by (simp add: two_cpu_def get_length_def)
    show ?thesis
      using NewProcess_queues [OF k, of "[0x41]" "\<lambda>_. 0" "0x5000" 7] v two_cpu_ok(2) by (auto simp: Let_def)
  qed
qed
end
