(* ===== verification/CString.thy ===== *)
theory CString
  imports Kernel_Prelude "HOL-Library.Signed_Division"
begin

text \<open>
  The string conversions of \<^verbatim>\<open>src/common/cstring.cpp\<close>. An output buffer is a function from
  the index (an \<^verbatim>\<open>int\<close>, negative for the bytes before the buffer) to the byte stored there.
\<close>

type_synonym buffer = "int \<Rightarrow> u8"

section \<open>Decimal\<close>

text \<open>The local \<^verbatim>\<open>size\<close> is never initialised: its first value is the argument \<open>n\<close>.\<close>

function count_digits :: "u64 \<Rightarrow> u8 \<Rightarrow> u8" where
  "count_digits sizeTest n =
     (if sizeTest div 10 > 0 then count_digits (sizeTest div 10) (n + 1) else n)"
  by pat_completeness auto
termination
proof (relation "measure (\<lambda>(v, n). unat v)")
  fix v :: u64 and n :: u8
  assume "0 < v div 10"
  then have "0 < unat v div 10" by (simp add: word_less_nat_alt unat_div_distrib)
  then show "((v div 10, n + 1), v, n) \<in> measure (\<lambda>(v, n). unat v)"
    by (simp add: unat_div_distrib div_less_dividend)
qed simp

declare count_digits.simps [simp del]

text \<open>The digit loop and the last digit, for the unsigned version.\<close>

function put_digits :: "int \<Rightarrow> u64 \<Rightarrow> u8 \<Rightarrow> buffer \<Rightarrow> buffer" where
  "put_digits high v index buf =
     (if v div 10 > 0
      then put_digits high (v div 10) (index + 1) (buf(high - uint index := ucast (v mod 10) + 48))
      else buf(high - uint index := ucast (v mod 10) + 48))"
  by pat_completeness auto
termination
proof (relation "measure (\<lambda>(high, v, index, buf). unat v)")
  fix high :: int and v :: u64 and index :: u8 and buf :: buffer
  assume "0 < v div 10"
  then have "0 < unat v div 10" by (simp add: word_less_nat_alt unat_div_distrib)
  then show "((high, v div 10, index + 1, buf(high - uint index := ucast (v mod 10) + 48)), high, v, index, buf)
      \<in> measure (\<lambda>(high, v, index, buf). unat v)"
    by (simp add: unat_div_distrib div_less_dividend)
qed simp

declare put_digits.simps [simp del]

definition to_string_u64 :: "u8 \<Rightarrow> u64 \<Rightarrow> buffer \<Rightarrow> buffer" where
  "to_string_u64 uninit v buf =
     (let sz = count_digits v uninit
      in (put_digits (uint sz) v 0 buf)(uint sz + 1 := 0))"

text \<open>
  The signed version divides the \<^verbatim>\<open>int64_t\<close>; after the sign change that is the same as the
  unsigned division, except for the smallest value, which stays negative and whose loop stops at
  once with a negative remainder.
\<close>

definition to_string_i64 :: "u8 \<Rightarrow> u64 \<Rightarrow> buffer \<Rightarrow> buffer" where
  "to_string_i64 uninit v buf =
     (let neg = sint v < 0;
          isNegative = (if neg then 1 else 0 :: int);
          v = (if neg then - v else v);
          buf = (if neg then buf(0 := 45) else buf);
          sz = count_digits v uninit;
          high = isNegative + uint sz;
          buf = (if sint v < 0
                 then buf(high := word_of_int (sint v smod 10) + 48)
                 else put_digits high v 0 buf)
      in buf(high + 1 := 0))"

section \<open>Hexadecimal\<close>

definition hex_char :: "u8 \<Rightarrow> u8" where
  "hex_char tmp = tmp + (if tmp > 9 then 55 else 48)"

text \<open>
  The loop shared by the four widths. \<open>bytes\<close> is what lies in memory from \<^verbatim>\<open>&value\<close> on: the
  bytes of the value, then whatever the stack holds. The bound is \<^verbatim>\<open>size\<close>, the index of the last
  digit, where the number of bytes was meant.
\<close>

definition hex_step :: "int \<Rightarrow> (nat \<Rightarrow> u8) \<Rightarrow> nat \<Rightarrow> buffer \<Rightarrow> buffer" where
  "hex_step sz bytes i buf =
     (let buf = buf(sz - (int i * 2 + 1) := hex_char (drop_bit 4 (bytes i AND 0xF0)))
      in buf(sz - (int i * 2 + 0) := hex_char (bytes i AND 0x0F)))"

definition hstring_loop :: "nat \<Rightarrow> (nat \<Rightarrow> u8) \<Rightarrow> buffer \<Rightarrow> buffer" where
  "hstring_loop sz bytes buf = (fold (hex_step (int sz) bytes) [0..<sz] buf)(int sz + 1 := 0)"

text \<open>Memory from the address of a little-endian value on, the stack behind it.\<close>

definition value_bytes :: "nat \<Rightarrow> 'a::len word \<Rightarrow> (nat \<Rightarrow> u8) \<Rightarrow> nat \<Rightarrow> u8" where
  "value_bytes w v stack i = (if i < w then ucast (drop_bit (8 * i) v) else stack i)"

definition to_hstring_u64 :: "u64 \<Rightarrow> (nat \<Rightarrow> u8) \<Rightarrow> buffer \<Rightarrow> buffer" where
  "to_hstring_u64 v stack = hstring_loop (8 * 2 - 1) (value_bytes 8 v stack)"

definition to_hstring_u32 :: "u32 \<Rightarrow> (nat \<Rightarrow> u8) \<Rightarrow> buffer \<Rightarrow> buffer" where
  "to_hstring_u32 v stack = hstring_loop (4 * 2 - 1) (value_bytes 4 v stack)"

definition to_hstring_u16 :: "u16 \<Rightarrow> (nat \<Rightarrow> u8) \<Rightarrow> buffer \<Rightarrow> buffer" where
  "to_hstring_u16 v stack = hstring_loop (2 * 2 - 1) (value_bytes 2 v stack)"

definition to_hstring_u8 :: "u8 \<Rightarrow> (nat \<Rightarrow> u8) \<Rightarrow> buffer \<Rightarrow> buffer" where
  "to_hstring_u8 v stack = hstring_loop (1 * 2 - 1) (value_bytes 1 v stack)"

section \<open>Comparison and length\<close>

definition strcmp :: "(nat \<Rightarrow> u8) \<Rightarrow> (nat \<Rightarrow> u8) \<Rightarrow> nat \<Rightarrow> bool" where
  "strcmp val1 val2 sz = (\<forall>i \<in> set [0..<sz]. val1 i = val2 i)"

partial_function (option) strlen_from :: "(nat \<Rightarrow> u8) \<Rightarrow> nat \<Rightarrow> nat option" where
  "strlen_from str n = (if str n \<noteq> 0 then strlen_from str (Suc n) else Some n)"

definition strlen :: "(nat \<Rightarrow> u8) \<Rightarrow> nat option" where
  "strlen str = strlen_from str 0"

section \<open>What the buffers hold afterwards\<close>

text \<open>The decimal digits of a number, most significant first, and a string in a buffer.\<close>

fun decimal :: "nat \<Rightarrow> nat list" where
  "decimal n = (if n < 10 then [n] else decimal (n div 10) @ [n mod 10])"

declare decimal.simps [simp del]

definition holds :: "buffer \<Rightarrow> int \<Rightarrow> u8 list \<Rightarrow> bool" where
  "holds buf at cs \<longleftrightarrow> (\<forall>k < length cs. buf (at + int k) = cs ! k) \<and> buf (at + int (length cs)) = 0"

definition digit_chars :: "nat \<Rightarrow> u8 list" where
  "digit_chars n = map (\<lambda>d. word_of_nat d + 48) (decimal n)"

lemma unat_div10: "unat (v div 10 :: u64) = unat v div 10"
  by (simp add: unat_div_distrib)

lemma decimal_pos: "0 < length (decimal n)"
  by (subst decimal.simps) simp

lemma count_digits_decimal:
  "length (decimal (unat v)) + unat n \<le> 256 \<Longrightarrow>
    unat (count_digits v n) + 1 = unat n + length (decimal (unat v))"
proof (induction v n rule: count_digits.induct)
  case (1 v n)
  show ?case
  proof (cases "v div 10 > 0")
    case True
    then have big: "\<not> unat v < 10" by (simp add: word_less_nat_alt unat_div10)
    then have len: "length (decimal (unat v)) = Suc (length (decimal (unat v div 10)))"
      by (subst decimal.simps) simp
    have "unat n + 1 < 256" using "1.prems" len decimal_pos [of "unat v div 10"] by linarith
    then have n1: "unat (n + 1) = unat n + 1" by (subst unat_add_no_wrap) simp_all
    then show ?thesis
      using "1.IH" [OF True] "1.prems" len True unfolding unat_div10
      by (subst count_digits.simps) simp
  next
    case False
    then have "unat v < 10" by (simp add: word_less_nat_alt unat_div10)
    then show ?thesis using False
      by (subst count_digits.simps, subst decimal.simps) simp
  qed
qed

lemma put_digits_apply:
  "unat index + length (decimal (unat v)) \<le> 256 \<Longrightarrow>
   put_digits high v index buf x =
     (let d = high - uint index - x in
      if 0 \<le> d \<and> d < int (length (decimal (unat v)))
      then word_of_nat (rev (decimal (unat v)) ! nat d) + 48 else buf x)"
proof (induction high v index buf rule: put_digits.induct)
  case (1 high v index buf)
  have m: "(ucast (v mod 10) :: u8) = word_of_nat (unat v mod 10)"
    by (simp add: word_eq_iff_unat unsigned_ucast_eq unat_mod_distrib unat_of_nat take_bit_eq_mod)
  let ?d = "high - uint index - x"
  show ?case
  proof (cases "v div 10 > 0")
    case True
    then have big: "\<not> unat v < 10" by (simp add: word_less_nat_alt unat_div10)
    then have dec: "decimal (unat v) = decimal (unat v div 10) @ [unat v mod 10]"
      by (subst decimal.simps) simp
    have len: "length (decimal (unat v)) = Suc (length (decimal (unat v div 10)))" by (simp add: dec)
    have "unat index + 1 < 256" using "1.prems" len decimal_pos [of "unat v div 10"] by linarith
    then have "unat (index + 1) = unat index + 1" by (subst unat_add_no_wrap) simp_all
    then have le: "unat (index + 1) + length (decimal (unat (v div 10))) \<le> 256"
      and "int (unat (index + 1)) = int (unat index + 1)"
      using "1.prems" len by (simp_all only: unat_div10)
    then have i1: "uint (index + 1) = uint index + 1" by simp
    have shift: "high - uint (index + 1) - x = ?d - 1" by (simp add: i1)
    let ?b = "buf(high - uint index := ucast (v mod 10) + 48)"
    have "put_digits high v index buf x = put_digits high (v div 10) (index + 1) ?b x"
      using True by (subst put_digits.simps) simp
    also have "\<dots> = (if 0 \<le> ?d - 1 \<and> ?d - 1 < int (length (decimal (unat v div 10)))
        then word_of_nat (rev (decimal (unat v div 10)) ! nat (?d - 1)) + 48 else ?b x)"
      using "1.IH" [OF True le] unfolding shift unat_div10 Let_def .
    also have "\<dots> = (if 0 \<le> ?d \<and> ?d < int (length (decimal (unat v)))
        then word_of_nat (rev (decimal (unat v)) ! nat ?d) + 48 else buf x)"
    proof (cases "?d = 0")
      case True
      then have "x = high - uint index" by simp
      then show ?thesis using m by (simp add: dec)
    next
      case False
      moreover from False have "nat ?d = Suc (nat (?d - 1))" if "0 \<le> ?d" using that by simp
      moreover have "x \<noteq> high - uint index" using False by auto
      ultimately show ?thesis by (auto simp: dec)
    qed
    finally show ?thesis by (simp only: Let_def)
  next
    case False
    then have small: "unat v < 10" by (simp add: word_less_nat_alt unat_div10)
    then have "decimal (unat v) = [unat v]" by (subst decimal.simps) simp
    then show ?thesis using False m small
      by (subst put_digits.simps) (auto simp: Let_def)
  qed
qed

lemma decimal_length: "n < 10 ^ Suc k \<Longrightarrow> length (decimal n) \<le> Suc k"
proof (induction k arbitrary: n)
  case 0
  then show ?case by (subst decimal.simps) simp
next
  case (Suc k)
  then have "n div 10 < 10 ^ Suc k" by (simp add: div_less_iff_less_mult)
  then show ?case using Suc.IH [of "n div 10"] by (subst decimal.simps) simp
qed

lemma decimal_u64: "length (decimal (unat (v :: u64))) \<le> 20"
proof -
  have "unat v < 10 ^ Suc 19" by (rule less_trans [OF unat_u64_less]) simp
  then show ?thesis using decimal_length [of "unat v" 19] by simp
qed

lemma to_string_holds:
  assumes "unat uninit + 20 \<le> 256"
  shows "holds (to_string_u64 uninit v buf) (uint uninit) (digit_chars (unat v))"
proof -
  let ?L = "length (decimal (unat v))"
  let ?sz = "count_digits v uninit"
  note L = decimal_u64 [of v] decimal_pos [of "unat v"]
  have "unat ?sz + 1 = unat uninit + ?L" using assms L by (intro count_digits_decimal) simp
  then have "int (unat ?sz + 1) = int (unat uninit + ?L)" by (simp only:)
  then have sz: "uint ?sz + 1 = uint uninit + int ?L" by simp
  have put: "put_digits (uint ?sz) v 0 buf x = (let d = uint ?sz - x in
      if 0 \<le> d \<and> d < int ?L then word_of_nat (rev (decimal (unat v)) ! nat d) + 48 else buf x)" for x
    using put_digits_apply [of 0 v "uint ?sz" buf x] L by simp
  show ?thesis
    unfolding holds_def
  proof (intro conjI allI impI)
    fix k assume "k < length (digit_chars (unat v))"
    then have k: "k < ?L" by (simp add: digit_chars_def)
    have d: "uint ?sz - (uint uninit + int k) = int (?L - Suc k)" using sz k by simp
    have "rev (decimal (unat v)) ! (?L - Suc k) = decimal (unat v) ! k"
      using k by (subst rev_nth) simp_all
    moreover have "put_digits (uint ?sz) v 0 buf (uint uninit + int k)
        = word_of_nat (rev (decimal (unat v)) ! (?L - Suc k)) + 48"
      unfolding put d Let_def nat_int using k by simp
    ultimately show "to_string_u64 uninit v buf (uint uninit + int k) = digit_chars (unat v) ! k"
      using k sz by (simp add: to_string_u64_def digit_chars_def Let_def)
  next
    show "to_string_u64 uninit v buf (uint uninit + int (length (digit_chars (unat v)))) = 0"
      using sz by (simp add: to_string_u64_def digit_chars_def)
  qed
qed

lemma hex_fold:
  "fold (hex_step s bytes) [0..<n] buf x =
     (if 0 \<le> s - x \<and> s - x < 2 * int n
      then hex_char (if even (s - x) then bytes (nat ((s - x) div 2)) AND 0x0F
                     else drop_bit 4 (bytes (nat ((s - x) div 2)) AND 0xF0))
      else buf x)"
proof (induction n)
  case 0
  then show ?case by auto
next
  case (Suc n)
  let ?d = "s - x"
  consider "?d = 2 * int n" | "?d = 2 * int n + 1" | "?d \<noteq> 2 * int n" "?d \<noteq> 2 * int n + 1" by blast
  then show ?case
  proof cases
    case 1
    then have "x = s - 2 * int n" by simp
    then show ?thesis by (simp add: hex_step_def Let_def)
  next
    case 2
    then have "x = s - (2 * int n + 1)" by simp
    then show ?thesis by (simp add: hex_step_def Let_def)
  next
    case 3
    then have "x \<noteq> s - 2 * int n" "x \<noteq> s - (2 * int n + 1)" by auto
    then have "fold (hex_step s bytes) [0..<Suc n] buf x = fold (hex_step s bytes) [0..<n] buf x"
      by (simp add: hex_step_def Let_def algebra_simps)
    moreover have "?d < 2 * int (Suc n) \<longleftrightarrow> ?d < 2 * int n" using 3 by auto
    ultimately show ?thesis using Suc by simp
  qed
qed

section \<open>Properties\<close>

text \<open>\<open>to_string\<close> writes the decimal digits of any 64-bit value, followed by the terminator,
  but as many bytes behind the pointer it returns as the uninitialised local \<^verbatim>\<open>size\<close> happens to
  hold: the result is right exactly because that byte is usually 0.\<close>

theorem to_string_decimal:
  assumes "unat uninit + 20 \<le> 256"
  shows "holds (to_string_u64 uninit v buf) (uint uninit) (digit_chars (unat v))"
  using assms by (rule to_string_holds)

theorem to_string_decimal_witness:
  "holds (to_string_u64 0 407 (\<lambda>_. 0)) 0 [52, 48, 55]
   \<and> holds (to_string_u64 3 407 (\<lambda>_. 0)) 3 [52, 48, 55]"
proof -
  have "digit_chars (unat (407 :: u64)) = [52, 48, 55]"
    by (simp add: digit_chars_def decimal.simps)
  then show ?thesis
    using to_string_decimal [of 0 407 "\<lambda>_. 0"] to_string_decimal [of 3 407 "\<lambda>_. 0"] by simp
qed

text \<open>C38. \<open>to_hstring\<close> of a 64-bit value leaves its 16 hexadecimal digits and the terminator in
  the buffer, but its loop runs to the index of the last digit instead of the number of bytes: it
  goes on to read the stack behind the value and overwrites the 14 bytes before the buffer.\<close>

theorem to_hstring_u64_digits:
  "(\<forall>k < 16. to_hstring_u64 v stack buf (int k) = hex_char (ucast (drop_bit (4 * (15 - k)) v AND 0xF)))
   \<and> to_hstring_u64 v stack buf 16 = 0
   \<and> (\<forall>i. 8 \<le> i \<and> i < 15 \<longrightarrow>
        to_hstring_u64 v stack buf (15 - 2 * int i) = hex_char (stack i AND 0x0F)
      \<and> to_hstring_u64 v stack buf (14 - 2 * int i) = hex_char (drop_bit 4 (stack i AND 0xF0)))"
proof -
  have at: "to_hstring_u64 v stack buf x = hex_char (if even (15 - x)
      then value_bytes 8 v stack (nat ((15 - x) div 2)) AND 0x0F
      else drop_bit 4 (value_bytes 8 v stack (nat ((15 - x) div 2)) AND 0xF0))"
    if "x \<le> 15" "- 15 < x" for x
    using that by (simp add: to_hstring_u64_def hstring_loop_def hex_fold)
  have nib: "(ucast w AND 0x0F :: u8) = ucast (w AND 0xF)"
    "drop_bit 4 (ucast w AND 0xF0 :: u8) = ucast (drop_bit 4 w AND 0xF)" for w :: u64
  proof -
    have m: "(0x0F :: u8) = mask 4" "(0xF0 :: u8) = push_bit 4 (mask 4)" "(0xF :: u64) = mask 4"
      by (simp_all add: mask_eq_exp_minus_1)
    show "(ucast w AND 0x0F :: u8) = ucast (w AND 0xF)"
      "drop_bit 4 (ucast w AND 0xF0 :: u8) = ucast (drop_bit 4 w AND 0xF)"
      unfolding m by (rule bit_word_eqI; auto simp: bit_simps)+
  qed
  have digits: "to_hstring_u64 v stack buf (int k) = hex_char (ucast (drop_bit (4 * (15 - k)) v AND 0xF))"
    if k: "k < 16" for k
  proof -
    define j where "j = 15 - k"
    have j: "15 - int k = int j" "j < 16" "15 - k = j" using k by (simp_all add: j_def)
    note at_k = at [of "int k", unfolded j(1)]
    consider i where "j = 2 * i" | i where "j = 2 * i + 1" by (meson evenE oddE)
    then show ?thesis
    proof cases
      case 1
      then have "value_bytes 8 v stack (nat (int j div 2)) = ucast (drop_bit (4 * j) v)" "even (int j)"
        using j(2) by (simp_all add: value_bytes_def)
      then show ?thesis using at_k k unfolding j(3) by (simp only: if_True nib)
    next
      case 2
      then have "nat (int j div 2) = i" "odd (int j)" "i < 8" using j(2) by simp_all
      then have "value_bytes 8 v stack (nat (int j div 2)) = ucast (drop_bit (8 * i) v)" "odd (int j)"
        by (simp_all add: value_bytes_def)
      moreover have "drop_bit 4 (drop_bit (8 * i) v) = drop_bit (4 * j) v"
        using 2 by (simp add: drop_bit_drop_bit add.commute)
      ultimately show ?thesis using at_k k unfolding j(3) by (simp only: if_False nib)
    qed
  qed
  have above: "to_hstring_u64 v stack buf (15 - 2 * int i) = hex_char (stack i AND 0x0F)
      \<and> to_hstring_u64 v stack buf (14 - 2 * int i) = hex_char (drop_bit 4 (stack i AND 0xF0))"
    if "8 \<le> i" "i < 15" for i
    using at [of "15 - 2 * int i"] at [of "14 - 2 * int i"] that by (simp add: value_bytes_def)
  have "to_hstring_u64 v stack buf 16 = 0" by (simp add: to_hstring_u64_def hstring_loop_def)
  with digits above show ?thesis by blast
qed

theorem to_hstring_u64_digits_witness:
  "to_hstring_u64 0x1F (\<lambda>_. 0xAB) (\<lambda>_. 0) 15 = 70
   \<and> to_hstring_u64 0x1F (\<lambda>_. 0xAB) (\<lambda>_. 0) (- 1) = 66"
proof -
  note digits = to_hstring_u64_digits [of "0x1F" "\<lambda>_. 0xAB" "\<lambda>_. 0"]
  have "to_hstring_u64 0x1F (\<lambda>_. 0xAB) (\<lambda>_. 0) (int 15)
      = hex_char (ucast (drop_bit (4 * (15 - 15)) (0x1F :: u64) AND 0xF))"
    using digits [THEN conjunct1] by (elim allE [of _ 15] impE) simp
  moreover have "to_hstring_u64 0x1F (\<lambda>_. 0xAB) (\<lambda>_. 0) (15 - 2 * int 8) = hex_char (0xAB AND 0x0F)"
    using digits [THEN conjunct2, THEN conjunct2] by (elim allE [of _ 8] impE) simp_all
  ultimately show ?thesis by (simp add: hex_char_def)
qed

end
