(* ===== verification/DiskDevice.thy ===== *)
theory DiskDevice
  imports ByteInteraction PageFrameAllocator
begin

text \<open>
  Disks: \<^verbatim>\<open>src/fs/DiskDevice.cpp\<close>. The virtual functions \<^verbatim>\<open>ReadDiskBlock\<close> and \<^verbatim>\<open>WriteDiskBlock\<close> a
  driver overrides are the parameters \<open>rd\<close> and \<open>wr\<close>: they take the first block, the number of
  blocks, the address of a buffer, and the memory with the state of the device. \<open>block_device\<close> states
  what a driver promises. \<open>None\<close> is an access outside an object or an overflow of a signed loop counter.
\<close>

type_synonym 'd machine = "memory \<times> 'd"
type_synonym 'd block_op = "u64 \<Rightarrow> u64 \<Rightarrow> u64 \<Rightarrow> 'd machine \<Rightarrow> 'd machine"

record disk =
  Buffer :: "u64 list"
  bufferLock :: u8
  blocksize :: u64

section \<open>The eight buffers\<close>

definition GetBuffer :: "disk \<Rightarrow> int \<times> disk" where
  "GetBuffer d =
     (case List.find (\<lambda>i. drop_bit i (bufferLock d) AND 1 = 0) [0..<8] of
        Some i \<Rightarrow> (int i, d\<lparr>bufferLock := bufferLock d OR push_bit i 1\<rparr>)
      | None \<Rightarrow> (-1, d))"

definition RelieveBuffer :: "u8 \<Rightarrow> disk \<Rightarrow> disk" where
  "RelieveBuffer index d = d\<lparr>bufferLock := bufferLock d AND NOT (push_bit (unat index) 1)\<rparr>"

definition clear_page :: "nat \<Rightarrow> u64 list \<times> pfa \<times> memory \<Rightarrow> u64 list \<times> pfa \<times> memory" where
  "clear_page i s =
     (let (bs, f, m) = s; (b, f) = RequestPage f in (bs @ [b], f, memset b 0x00 0x1000 m))"

definition new_DiskDevice :: "pfa \<Rightarrow> memory \<Rightarrow> disk \<times> pfa \<times> memory" where
  "new_DiskDevice f m =
     (let (bs, f, m) = fold clear_page [0..<8] ([], f, m)
      in (\<lparr>Buffer = bs, bufferLock = 0x00, blocksize = 512\<rparr>, f, m))"

section \<open>Reading and writing bytes\<close>

text \<open>\<^verbatim>\<open>memcpy\<close> on the memory of a machine.\<close>

definition copy :: "u64 \<Rightarrow> u64 \<Rightarrow> u64 \<Rightarrow> 'd machine \<Rightarrow> 'd machine" where
  "copy dest src n s = (fst (memcpy dest src n (fst s)), snd s)"

text \<open>
  The loop of \<open>Read\<close> over the whole blocks. Its counter is an \<^verbatim>\<open>int\<close>; after eight or after four
  blocks it goes on to the second test, which reads the last of them once more.
\<close>

definition read_tail ::
  "'d block_op \<Rightarrow> u64 \<Rightarrow> u64 \<Rightarrow> u64 \<Rightarrow> u64 \<Rightarrow> nat \<Rightarrow> nat \<Rightarrow> 'd machine \<Rightarrow> nat \<times> 'd machine"
where
  "read_tail rd bs tmp lba dest Blocks i s =
     (if Blocks - i > 2
      then (i + 1, copy (dest + of_nat i * bs) tmp (bs * 2) (rd (lba + of_nat i) 2 tmp s))
      else (i, copy (dest + of_nat i * bs) tmp bs (rd (lba + of_nat i) 1 tmp s)))"

definition read_step ::
  "'d block_op \<Rightarrow> u64 \<Rightarrow> u64 \<Rightarrow> u64 \<Rightarrow> u64 \<Rightarrow> nat \<Rightarrow> nat \<Rightarrow> 'd machine \<Rightarrow> nat \<times> 'd machine"
where
  "read_step rd bs tmp lba dest Blocks i s =
     (if Blocks - i > 8
      then read_tail rd bs tmp lba dest Blocks (i + 7)
             (copy (dest + of_nat i * bs) tmp (bs * 8) (rd (lba + of_nat i) 8 tmp s))
      else if Blocks - i > 4
      then read_tail rd bs tmp lba dest Blocks (i + 3)
             (copy (dest + of_nat i * bs) tmp (bs * 4) (rd (lba + of_nat i) 4 tmp s))
      else read_tail rd bs tmp lba dest Blocks i s)"

lemma read_step_index: "i \<le> fst (read_step rd bs tmp lba dest Blocks i s)"
  by (auto simp: read_step_def read_tail_def)

function read_loop ::
  "'d block_op \<Rightarrow> u64 \<Rightarrow> u64 \<Rightarrow> u64 \<Rightarrow> u64 \<Rightarrow> nat \<Rightarrow> nat \<Rightarrow> 'd machine \<Rightarrow> 'd machine option"
where
  "read_loop rd bs tmp lba dest Blocks i s =
     (if i \<ge> 2 ^ 31 then None
      else if i < Blocks
      then let (i', s') = read_step rd bs tmp lba dest Blocks i s
           in read_loop rd bs tmp lba dest Blocks (i' + 1) s'
      else Some s)"
  by pat_completeness auto
termination
proof (relation "measure (\<lambda>(rd, bs, tmp, lba, dest, Blocks, i, s). Blocks - i)")
  fix rd :: "'d block_op" and bs tmp lba dest Blocks i s x i' s'
  assume i: "i < Blocks" and x: "x = read_step rd bs tmp lba dest Blocks i s" "(i', s') = x"
  have "i \<le> i'" using read_step_index [of i rd bs tmp lba dest Blocks s] x by (metis fst_conv)
  with i show "((rd, bs, tmp, lba, dest, Blocks, i' + 1, s'), rd, bs, tmp, lba, dest, Blocks, i, s)
      \<in> measure (\<lambda>(rd, bs, tmp, lba, dest, Blocks, i, s). Blocks - i)"
    by simp
qed simp

declare read_loop.simps [simp del]

definition disk_Read ::
  "'d block_op \<Rightarrow> u64 \<Rightarrow> u64 \<Rightarrow> u64 \<Rightarrow> disk \<times> 'd machine \<Rightarrow> (int \<times> disk \<times> 'd machine) option"
where
  "disk_Read rd off sz buffer ds =
     (let (d, s) = ds; (BufferNumber, d) = GetBuffer d in
      if BufferNumber = -1 then Some (0, d, s)
      else
        let TempBuffer = Buffer d ! nat BufferNumber;
            StartLBA = off div blocksize d;
            OffsetInLBA = off mod blocksize d;
            SizeWithinFirstLBA = blocksize d - OffsetInLBA;
            s = rd StartLBA 1 TempBuffer s;
            s = copy buffer (TempBuffer + OffsetInLBA) SizeWithinFirstLBA s;
            Blocks = (sz - SizeWithinFirstLBA) div blocksize d;
            Excess = (sz - SizeWithinFirstLBA) - (blocksize d * Blocks)
        in case read_loop rd (blocksize d) TempBuffer (StartLBA + 1) (buffer + SizeWithinFirstLBA) (unat Blocks) 0 s of
             None \<Rightarrow> None
           | Some s \<Rightarrow>
               let s = (if Excess > 0
                        then copy (buffer + SizeWithinFirstLBA + (Blocks * blocksize d)) TempBuffer Excess
                               (rd (StartLBA + 1 + Blocks) 1 TempBuffer s)
                        else s)
               in Some (1, RelieveBuffer (word_of_int BufferNumber) d, s))"

definition write_tail ::
  "'d block_op \<Rightarrow> u64 \<Rightarrow> u64 \<Rightarrow> u64 \<Rightarrow> u64 \<Rightarrow> nat \<Rightarrow> nat \<Rightarrow> 'd machine \<Rightarrow> nat \<times> 'd machine"
where
  "write_tail wr bs tmp lba src Blocks i s =
     (if Blocks - i > 2
      then (i + 1, wr (lba + of_nat i) 2 tmp (copy tmp (src + of_nat i * bs) (bs * 2) s))
      else (i, wr (lba + of_nat i) 1 tmp (copy tmp (src + of_nat i * bs) bs s)))"

definition write_step ::
  "'d block_op \<Rightarrow> u64 \<Rightarrow> u64 \<Rightarrow> u64 \<Rightarrow> u64 \<Rightarrow> nat \<Rightarrow> nat \<Rightarrow> 'd machine \<Rightarrow> nat \<times> 'd machine"
where
  "write_step wr bs tmp lba src Blocks i s =
     (if Blocks - i > 8
      then write_tail wr bs tmp lba src Blocks (i + 7)
             (wr (lba + of_nat i) 8 tmp (copy tmp (src + of_nat i * bs) (bs * 8) s))
      else if Blocks - i > 4
      then write_tail wr bs tmp lba src Blocks (i + 3)
             (wr (lba + of_nat i) 4 tmp (copy tmp (src + of_nat i * bs) (bs * 4) s))
      else write_tail wr bs tmp lba src Blocks i s)"

lemma write_step_index: "i \<le> fst (write_step wr bs tmp lba src Blocks i s)"
  by (auto simp: write_step_def write_tail_def)

function write_loop ::
  "'d block_op \<Rightarrow> u64 \<Rightarrow> u64 \<Rightarrow> u64 \<Rightarrow> u64 \<Rightarrow> nat \<Rightarrow> nat \<Rightarrow> 'd machine \<Rightarrow> 'd machine option"
where
  "write_loop wr bs tmp lba src Blocks i s =
     (if i \<ge> 2 ^ 31 then None
      else if i < Blocks
      then let (i', s') = write_step wr bs tmp lba src Blocks i s
           in write_loop wr bs tmp lba src Blocks (i' + 1) s'
      else Some s)"
  by pat_completeness auto
termination
proof (relation "measure (\<lambda>(wr, bs, tmp, lba, src, Blocks, i, s). Blocks - i)")
  fix wr :: "'d block_op" and bs tmp lba src Blocks i s x i' s'
  assume i: "i < Blocks" and x: "x = write_step wr bs tmp lba src Blocks i s" "(i', s') = x"
  have "i \<le> i'" using write_step_index [of i wr bs tmp lba src Blocks s] x by (metis fst_conv)
  with i show "((wr, bs, tmp, lba, src, Blocks, i' + 1, s'), wr, bs, tmp, lba, src, Blocks, i, s)
      \<in> measure (\<lambda>(wr, bs, tmp, lba, src, Blocks, i, s). Blocks - i)"
    by simp
qed simp

declare write_loop.simps [simp del]

text \<open>The last, partial block is filled from the start of the caller's buffer.\<close>

definition disk_Write ::
  "'d block_op \<Rightarrow> 'd block_op \<Rightarrow> u64 \<Rightarrow> u64 \<Rightarrow> u64 \<Rightarrow> disk \<times> 'd machine \<Rightarrow> (int \<times> disk \<times> 'd machine) option"
where
  "disk_Write rd wr off sz buffer ds =
     (let (d, s) = ds; (BufferNumber, d) = GetBuffer d in
      if BufferNumber = -1 then Some (-1, d, s)
      else
        let tmp = Buffer d ! nat BufferNumber;
            StartLBA = off div blocksize d;
            OffsetInLBA = off - ((off div blocksize d) * blocksize d);
            SizeWithinFirstLBA = blocksize d - OffsetInLBA;
            s = rd StartLBA 1 tmp s;
            s = copy (tmp + OffsetInLBA) buffer SizeWithinFirstLBA s;
            s = wr StartLBA 1 tmp s;
            Blocks = (sz - SizeWithinFirstLBA) div blocksize d;
            Excess = (sz - SizeWithinFirstLBA) - (blocksize d * Blocks)
        in case write_loop wr (blocksize d) tmp (StartLBA + 1) (buffer + SizeWithinFirstLBA) (unat Blocks) 0 s of
             None \<Rightarrow> None
           | Some s \<Rightarrow>
               let s = (if Excess > 0
                        then wr (StartLBA + 1 + Blocks) 1 tmp
                               (copy tmp buffer Excess (rd (StartLBA + 1 + Blocks) 1 tmp s))
                        else s)
               in Some (1, RelieveBuffer (word_of_int BufferNumber) d, s))"

section \<open>Reading and writing blocks\<close>

text \<open>
  One of the four loops of \<open>ReadBlocks\<close>, over steps of \<open>k\<close> blocks; \<^verbatim>\<open>count-lbapos > 0\<close> is the
  bound for \<open>k = 1\<close>. The buffer number is an unsigned byte, so the test for -1 never holds; it is
  not given back. The pointer steps by 512 bytes a block whatever \<open>blocksize\<close> is.
\<close>

function read_chunks ::
  "'d block_op \<Rightarrow> u64 \<Rightarrow> u64 \<Rightarrow> u64 \<Rightarrow> u64 \<Rightarrow> u64 \<Rightarrow> u64 \<Rightarrow> u64 \<times> 'd machine \<Rightarrow> u64 \<times> 'd machine"
where
  "read_chunks rd bs tmp lba count buffer k (lbapos, s) =
     (if 0 < k \<and> count - lbapos \<ge> k
      then read_chunks rd bs tmp lba count buffer k
             (lbapos + k, copy (buffer + lbapos * 512) tmp (bs * k) (rd (lba + lbapos) k tmp s))
      else (lbapos, s))"
  by pat_completeness auto
termination
proof (relation "measure (\<lambda>(rd, bs, tmp, lba, count, buffer, k, lbapos, s). unat (count - lbapos))")
  fix rd :: "'d block_op" and bs tmp lba count buffer k lbapos :: u64 and s
  assume k: "0 < k \<and> k \<le> count - lbapos"
  have "count - (lbapos + k) = (count - lbapos) - k" by simp
  then have "unat (count - (lbapos + k)) = unat (count - lbapos) - unat k"
    using k by (metis unat_sub)
  then show "((rd, bs, tmp, lba, count, buffer, k, lbapos + k,
        copy (buffer + lbapos * 512) tmp (bs * k) (rd (lba + lbapos) k tmp s)),
      rd, bs, tmp, lba, count, buffer, k, lbapos, s)
     \<in> measure (\<lambda>(rd, bs, tmp, lba, count, buffer, k, lbapos, s). unat (count - lbapos))"
    using k by (simp add: word_less_nat_alt word_le_nat_alt)
qed simp

declare read_chunks.simps [simp del]

definition ReadBlocks ::
  "'d block_op \<Rightarrow> u64 \<Rightarrow> u64 \<Rightarrow> u64 \<Rightarrow> disk \<times> 'd machine \<Rightarrow> (disk \<times> 'd machine) option"
where
  "ReadBlocks rd lba count buffer ds =
     (let (d, s) = ds; (n, d) = GetBuffer d; BufNum = (word_of_int n :: u8) in
      if unat BufNum \<ge> length (Buffer d) then None
      else
        let tmp = Buffer d ! unat BufNum;
            st = (0, s);
            st = read_chunks rd (blocksize d) tmp lba count buffer 8 st;
            st = read_chunks rd (blocksize d) tmp lba count buffer 4 st;
            st = read_chunks rd (blocksize d) tmp lba count buffer 2 st;
            st = read_chunks rd (blocksize d) tmp lba count buffer 1 st
        in Some (d, snd st))"

function write_chunks ::
  "'d block_op \<Rightarrow> u64 \<Rightarrow> u64 \<Rightarrow> u64 \<Rightarrow> u64 \<Rightarrow> u64 \<Rightarrow> u64 \<Rightarrow> u64 \<times> 'd machine \<Rightarrow> u64 \<times> 'd machine"
where
  "write_chunks wr bs tmp lba count buffer k (lbapos, s) =
     (if 0 < k \<and> count - lbapos \<ge> k
      then write_chunks wr bs tmp lba count buffer k
             (lbapos + k, wr (lba + lbapos) k tmp (copy tmp (buffer + lbapos * 512) (bs * k) s))
      else (lbapos, s))"
  by pat_completeness auto
termination
proof (relation "measure (\<lambda>(wr, bs, tmp, lba, count, buffer, k, lbapos, s). unat (count - lbapos))")
  fix wr :: "'d block_op" and bs tmp lba count buffer k lbapos :: u64 and s
  assume k: "0 < k \<and> k \<le> count - lbapos"
  have "count - (lbapos + k) = (count - lbapos) - k" by simp
  then have "unat (count - (lbapos + k)) = unat (count - lbapos) - unat k"
    using k by (metis unat_sub)
  then show "((wr, bs, tmp, lba, count, buffer, k, lbapos + k,
        wr (lba + lbapos) k tmp (copy tmp (buffer + lbapos * 512) (bs * k) s)),
      wr, bs, tmp, lba, count, buffer, k, lbapos, s)
     \<in> measure (\<lambda>(wr, bs, tmp, lba, count, buffer, k, lbapos, s). unat (count - lbapos))"
    using k by (simp add: word_less_nat_alt word_le_nat_alt)
qed simp

declare write_chunks.simps [simp del]

definition WriteBlocks ::
  "'d block_op \<Rightarrow> u64 \<Rightarrow> u64 \<Rightarrow> u64 \<Rightarrow> disk \<times> 'd machine \<Rightarrow> (disk \<times> 'd machine) option"
where
  "WriteBlocks wr lba count buffer ds =
     (let (d, s) = ds; (n, d) = GetBuffer d; BufNum = (word_of_int n :: u8) in
      if unat BufNum \<ge> length (Buffer d) then None
      else
        let tmp = Buffer d ! unat BufNum;
            st = (0, s);
            st = write_chunks wr (blocksize d) tmp lba count buffer 8 st;
            st = write_chunks wr (blocksize d) tmp lba count buffer 4 st;
            st = write_chunks wr (blocksize d) tmp lba count buffer 2 st;
            st = write_chunks wr (blocksize d) tmp lba count buffer 1 st
        in Some (d, snd st))"

section \<open>What a driver promises\<close>

text \<open>
  The interface between a disk and its driver. \<open>medium\<close> reads the bytes of the disk, \<open>ready\<close> is what
  the driver keeps of its device, \<open>sectors\<close> the number of blocks it can address. Reading one to eight
  of them fills the buffer and changes nothing else; writing stores the buffer and leaves the memory
  alone.
\<close>

locale block_device =
  fixes rd wr :: "'d block_op" and medium :: "'d \<Rightarrow> u64 \<Rightarrow> u8" and ready :: "'d \<Rightarrow> bool" and sectors :: nat
  assumes sectors: "sectors < 2 ^ 55"
    and reads: "ready d \<Longrightarrow> 0 < n \<Longrightarrow> unat n \<le> 8 \<Longrightarrow> unat lba + unat n \<le> sectors \<Longrightarrow>
      fst (rd lba n buf (m, d)) =
        (\<lambda>x. if in_region buf (512 * unat n) x then medium d (lba * 512 + (x - buf)) else m x)"
    and read_keeps: "ready d \<Longrightarrow> 0 < n \<Longrightarrow> unat n \<le> 8 \<Longrightarrow> unat lba + unat n \<le> sectors \<Longrightarrow>
      ready (snd (rd lba n buf (m, d))) \<and> medium (snd (rd lba n buf (m, d))) = medium d"
    and writes: "ready d \<Longrightarrow> 0 < n \<Longrightarrow> unat n \<le> 8 \<Longrightarrow> unat lba + unat n \<le> sectors \<Longrightarrow>
      medium (snd (wr lba n buf (m, d))) =
        (\<lambda>y. if in_region (lba * 512) (512 * unat n) y then m (buf + (y - lba * 512)) else medium d y)"
    and write_keeps: "ready d \<Longrightarrow> 0 < n \<Longrightarrow> unat n \<le> 8 \<Longrightarrow> unat lba + unat n \<le> sectors \<Longrightarrow>
      ready (snd (wr lba n buf (m, d))) \<and> fst (wr lba n buf (m, d)) = m"

definition same_disk :: "('d \<Rightarrow> bool) \<Rightarrow> ('d \<Rightarrow> u64 \<Rightarrow> u8) \<Rightarrow> 'd \<Rightarrow> 'd \<Rightarrow> bool" where
  "same_disk ready medium d e \<longleftrightarrow> ready e \<and> medium e = medium d"

lemma rd_spec:
  assumes "block_device rd wr medium ready sectors" and "0 < n" and "unat n \<le> 8"
    and "unat lba + unat n \<le> sectors" and "same_disk ready medium dv (snd s)"
  shows "fst (rd lba n buf s) =
      (\<lambda>x. if in_region buf (512 * unat n) x then medium dv (lba * 512 + (x - buf)) else fst s x)"
    and "same_disk ready medium dv (snd (rd lba n buf s))"
  using block_device.reads [OF assms(1) _ assms(2-4), of "snd s" buf "fst s"]
    block_device.read_keeps [OF assms(1) _ assms(2-4), of "snd s" buf "fst s"] assms(5)
  by (simp_all add: same_disk_def cong: if_cong)

section \<open>Filling a buffer piece by piece\<close>

text \<open>The first \<open>k\<close> bytes of the buffer hold the medium from \<open>off\<close> on; outside the transfer buffer
  nothing else has changed.\<close>

definition filled ::
  "u64 \<Rightarrow> u64 \<Rightarrow> (u64 \<Rightarrow> u8) \<Rightarrow> u64 \<Rightarrow> memory \<Rightarrow> nat \<Rightarrow> memory \<Rightarrow> bool"
where
  "filled tmp buffer img off m0 k m \<longleftrightarrow>
     (\<forall>x. \<not> in_region tmp 4096 x \<longrightarrow>
        m x = (if in_region buffer k x then img (off + (x - buffer)) else m0 x))"

definition apart :: "u64 \<Rightarrow> u64 \<Rightarrow> nat \<Rightarrow> bool" where
  "apart tmp buffer K \<longleftrightarrow> K < 2 ^ 64 \<and> (\<forall>x. in_region buffer K x \<longrightarrow> \<not> in_region tmp 4096 x)"

lemma filled_0: "filled tmp buffer img off m 0 m"
  by (simp add: filled_def in_region_def)

lemma in_region_offset:
  assumes "unat j + n < 2 ^ 64"
  shows "in_region (a + j) n x \<longleftrightarrow> unat j \<le> unat (x - a) \<and> unat (x - a) < unat j + n"
proof
  assume "in_region (a + j) n x"
  then have l: "unat (x - (a + j)) < n" by (simp add: in_region_def)
  have "x - a = j + (x - (a + j))" by simp
  moreover have "unat (j + (x - (a + j))) = unat j + unat (x - (a + j))"
    using l assms by (intro unat_add_no_wrap) simp
  ultimately have "unat (x - a) = unat j + unat (x - (a + j))" by (simp only:)
  then show "unat j \<le> unat (x - a) \<and> unat (x - a) < unat j + n" using l by simp
next
  assume r: "unat j \<le> unat (x - a) \<and> unat (x - a) < unat j + n"
  have "x - (a + j) = (x - a) - j" by (simp add: algebra_simps)
  then have "unat (x - (a + j)) = unat (x - a) - unat j" using r by (metis unat_sub_no_wrap)
  then show "in_region (a + j) n x" using r by (simp add: in_region_def) linarith
qed

lemma filled_step:
  assumes dev: "block_device rd wr medium ready sectors" and f: "filled tmp buffer (medium d0) off m0 k (fst s)"
    and d: "same_disk ready medium d0 (snd s)" and n: "unat n \<le> 8"
    and lba: "lba * 512 + w = off + j" and o: "unat w + unat len \<le> 512 * unat n"
    and j: "unat j \<le> k" "unat j + unat len \<le> K" and ap: "apart tmp buffer K"
    and range: "0 < n" "unat lba + unat n \<le> sectors"
  shows "filled tmp buffer (medium d0) off m0 (max k (unat j + unat len))
      (fst (copy (buffer + j) (tmp + w) len (rd lba n tmp s)))"
    and "same_disk ready medium d0 (snd (copy (buffer + j) (tmp + w) len (rd lba n tmp s)))"
proof -
  note read = rd_spec [OF dev range(1) n range(2) d, of tmp]
  have K: "K < 2 ^ 64" using ap by (simp add: apart_def)
  have jl: "unat j + unat len < 2 ^ 64" using j(2) K by linarith
  have dst: "in_region buffer K x" if "in_region (buffer + j) (unat len) x" for x
    using that in_region_offset [OF jl, of buffer x] j(2) by (simp add: in_region_def)
  have src: "in_region tmp (512 * unat n) (tmp + w + word_of_nat i)" if "i < unat len" for i
  proof -
    have "unat len < 2 ^ 64" by (rule order_less_le_trans [OF unsigned_less]) simp
    then have iw: "unat (word_of_nat i :: u64) = i" using that by (intro unat_of_nat_u64) linarith
    have "unat (w + word_of_nat i) = unat w + i" using that o n iw by (subst unat_add_no_wrap) simp_all
    then show ?thesis using that o by (simp add: in_region_def add.assoc)
  qed
  have small: "in_region tmp (512 * unat n) x \<Longrightarrow> in_region tmp 4096 x" for x
    using n by (simp add: in_region_def)
  have "copy_safe (buffer + j) (tmp + w) (unat len)"
  proof (rule copy_safe_disjoint)
    show "\<forall>i < unat len. \<not> in_region (buffer + j) (unat len) (tmp + w + word_of_nat i)"
      using src small dst ap unfolding apart_def by blast
    show "unat len \<le> 2 ^ 64" by (rule less_imp_le, rule order_less_le_trans [OF unsigned_less]) simp
  qed
  note mc = memcpy_apply [OF this]
  show "same_disk ready medium d0 (snd (copy (buffer + j) (tmp + w) len (rd lba n tmp s)))"
    using read(2) by (simp add: copy_def)
  show "filled tmp buffer (medium d0) off m0 (max k (unat j + unat len))
      (fst (copy (buffer + j) (tmp + w) len (rd lba n tmp s)))"
    unfolding filled_def
  proof (intro allI impI)
    fix x
    assume x: "\<not> in_region tmp 4096 x"
    let ?r = "fst (rd lba n tmp s)"
    have v: "fst (copy (buffer + j) (tmp + w) len (rd lba n tmp s)) x
      = (if in_region (buffer + j) (unat len) x then ?r (tmp + w + (x - (buffer + j))) else ?r x)"
      by (simp add: copy_def mc)
    show "fst (copy (buffer + j) (tmp + w) len (rd lba n tmp s)) x
      = (if in_region buffer (max k (unat j + unat len)) x then medium d0 (off + (x - buffer)) else m0 x)"
    proof (cases "in_region (buffer + j) (unat len) x")
      case True
      then have i: "unat (x - (buffer + j)) < unat len" by (simp add: in_region_def)
      have t: "in_region tmp (512 * unat n) (tmp + w + (x - (buffer + j)))"
        using src [OF i] by simp
      have "?r (tmp + w + (x - (buffer + j))) = medium d0 (lba * 512 + (tmp + w + (x - (buffer + j)) - tmp))"
        using t unfolding read(1) by (simp only: if_True)
      moreover have "lba * 512 + (tmp + w + (x - (buffer + j)) - tmp) = lba * 512 + w + (x - (buffer + j))"
        by simp
      moreover have "\<dots> = off + (x - buffer)" unfolding lba by simp
      ultimately have "?r (tmp + w + (x - (buffer + j))) = medium d0 (off + (x - buffer))" by (simp only:)
      moreover have "in_region buffer (max k (unat j + unat len)) x"
        using True in_region_offset [OF jl, of buffer x] by (auto simp: in_region_def)
      ultimately show ?thesis using v True by simp
    next
      case False
      have "?r x = fst s x" using x small by (auto simp: read(1))
      moreover have "in_region buffer (max k (unat j + unat len)) x = in_region buffer k x"
        using False in_region_offset [OF jl, of buffer x] j(1) by (auto simp: in_region_def)
      ultimately show ?thesis using v False f x by (simp add: filled_def)
    qed
  qed
qed
section \<open>The buffers and the block loops\<close>

lemma bit_lock: "drop_bit i (l :: u8) AND 1 = 0 \<longleftrightarrow> \<not> bit l i"
  by (simp add: and_one_eq bit_iff_odd_drop_bit even_iff_mod_2_eq_zero)

lemma GetBuffer_cases:
  "(GetBuffer d = (-1, d) \<and> (\<forall>i < 8. bit (bufferLock d) i))
   \<or> (\<exists>i < 8. \<not> bit (bufferLock d) i \<and> GetBuffer d = (int i, d\<lparr>bufferLock := bufferLock d OR push_bit i 1\<rparr>))"
proof (cases "List.find (\<lambda>i. drop_bit i (bufferLock d) AND 1 = 0) [0..<8]")
  case None
  then have "GetBuffer d = (-1, d)" by (simp only: GetBuffer_def option.case)
  moreover have "\<forall>i < 8. bit (bufferLock d) i" using None by (auto simp: find_None_iff bit_lock)
  ultimately show ?thesis by blast
next
  case (Some i)
  then have "i < 8" "\<not> bit (bufferLock d) i" by (auto simp: find_Some_iff bit_lock)
  moreover have "GetBuffer d = (int i, d\<lparr>bufferLock := bufferLock d OR push_bit i 1\<rparr>)"
    using Some by (simp only: GetBuffer_def option.case)
  ultimately show ?thesis by blast
qed

text \<open>Where the blocks of a range lie in memory and on the disk.\<close>

lemma chunk_position:
  fixes lbapos count k :: u64
  assumes "unat lbapos \<le> unat count" and "unat k \<le> unat (count - lbapos)" and "512 * unat count < 2 ^ 64"
    and "unat k \<le> 8"
  shows "unat (lbapos * 512) = 512 * unat lbapos" and "unat (512 * k) = 512 * unat k"
    and "unat (lbapos + k) = unat lbapos + unat k" and "unat lbapos + unat k \<le> unat count"
proof -
  have c: "unat (count - lbapos) = unat count - unat lbapos" using assms(1) by (rule unat_sub_no_wrap)
  show le: "unat lbapos + unat k \<le> unat count" using assms(1,2) c by linarith
  show "unat (lbapos * 512) = 512 * unat lbapos" using le assms(3) by (subst unat_mult_no_wrap) simp_all
  show "unat (512 * k) = 512 * unat k" using assms(4) by (subst unat_mult_no_wrap) simp_all
  show "unat (lbapos + k) = unat lbapos + unat k"
    by (intro unat_add_no_wrap) (rule order_le_less_trans [OF le unsigned_less])
qed

lemma lba_position:
  fixes lba i count :: u64
  assumes "block_device rd wr medium ready sectors" and "unat lba + unat count \<le> sectors"
    and "unat i + n \<le> unat count"
  shows "unat (lba + i) + n \<le> sectors"
proof -
  have "unat lba + unat i < 2 ^ 64" using assms(2,3) block_device.sectors [OF assms(1)] by simp
  then have "unat (lba + i) = unat lba + unat i" by (subst unat_add_no_wrap) simp_all
  then show ?thesis using assms(2,3) by linarith
qed

lemma read_chunks_filled:
  assumes "block_device rd wr medium ready sectors" and "0 < k" and "unat k \<le> 8" and "bs = 512" and "512 * unat count < 2 ^ 64"
    and "apart tmp buffer (512 * unat count)" and "unat lba + unat count \<le> sectors" and "unat lbapos \<le> unat count"
    and "filled tmp buffer (medium dv) (lba * 512) mv (512 * unat lbapos) (fst s)" and "same_disk ready medium dv (snd s)"
  shows "\<exists>p s'. read_chunks rd bs tmp lba count buffer k (lbapos, s) = (p, s') \<and> unat p \<le> unat count
    \<and> unat count - unat p < unat k
    \<and> filled tmp buffer (medium dv) (lba * 512) mv (512 * unat p) (fst s') \<and> same_disk ready medium dv (snd s')"
  using assms
proof (induction rd bs tmp lba count buffer k "(lbapos, s)" arbitrary: lbapos s rule: read_chunks.induct)
  case (1 rd bs tmp lba count buffer k lbapos s)
  show ?case
  proof (cases "0 < k \<and> k \<le> count - lbapos")
    case True
    have "unat k \<le> unat (count - lbapos)" using True by (simp add: word_le_nat_alt)
    note pos = chunk_position [OF "1.prems"(8) this "1.prems"(5) "1.prems"(3)]
    note at = lba_position [OF "1.prems"(1,7) pos(4)]
    let ?s = "copy (buffer + lbapos * 512) tmp (bs * k) (rd (lba + lbapos) k tmp s)"
    have l: "(lba + lbapos) * 512 + 0 = lba * 512 + lbapos * 512" by (simp add: algebra_simps)
    have o: "unat (0 :: u64) + unat (512 * k) \<le> 512 * unat k" using pos(2) by simp
    have j: "unat (lbapos * 512) \<le> 512 * unat lbapos" using pos(1) by simp
    have jK: "unat (lbapos * 512) + unat (512 * k) \<le> 512 * unat count" using pos by simp
    note st = filled_step [OF "1.prems"(1,9,10,3) l o j jK "1.prems"(6,2) at]
    have m: "max (512 * unat lbapos) (unat (lbapos * 512) + unat (512 * k)) = 512 * unat (lbapos + k)"
      using pos by simp
    have f: "filled tmp buffer (medium dv) (lba * 512) mv (512 * unat (lbapos + k)) (fst ?s)"
      "same_disk ready medium dv (snd ?s)"
      using st unfolding m "1.prems"(4) by simp_all
    have "unat (lbapos + k) \<le> unat count" using pos by simp
    from "1.hyps" [OF True "1.prems"(1,2,3,4,5,6,7) this f]
    show ?thesis using True by (subst read_chunks.simps) simp
  next
    case False
    have "unat (count - lbapos) = unat count - unat lbapos" using "1.prems"(8) by (rule unat_sub_no_wrap)
    then have "unat count - unat lbapos < unat k" using False "1.prems"(2) by (simp add: word_le_nat_alt)
    then show ?thesis using False "1.prems" by (subst read_chunks.simps) auto
  qed
qed

lemma four_chunks_filled:
  assumes "block_device rd wr medium ready sectors" and "512 * unat count < 2 ^ 64" and "apart tmp buffer (512 * unat count)"
    and "unat lba + unat count \<le> sectors" and "ready (snd s)"
  shows "\<exists>p s'. read_chunks rd 512 tmp lba count buffer 1 (read_chunks rd 512 tmp lba count buffer 2
       (read_chunks rd 512 tmp lba count buffer 4 (read_chunks rd 512 tmp lba count buffer 8 (0, s)))) = (p, s')
    \<and> filled tmp buffer (medium (snd s)) (lba * 512) (fst s) (512 * unat count) (fst s')
    \<and> same_disk ready medium (snd s) (snd s')"
proof -
  note rc = read_chunks_filled [OF assms(1) _ _ refl assms(2,3,4), where dv = "snd s" and mv = "fst s"]
  have f0: "filled tmp buffer (medium (snd s)) (lba * 512) (fst s) (512 * unat (0 :: u64)) (fst s)"
    "same_disk ready medium (snd s) (snd s)"
    using filled_0 assms(5) by (simp_all add: same_disk_def)
  obtain p8 s8 where 8: "read_chunks rd 512 tmp lba count buffer 8 (0, s) = (p8, s8)" "unat p8 \<le> unat count"
    "filled tmp buffer (medium (snd s)) (lba * 512) (fst s) (512 * unat p8) (fst s8)" "same_disk ready medium (snd s) (snd s8)"
    using rc [of 8 0 s] f0 by auto
  obtain p4 s4 where 4: "read_chunks rd 512 tmp lba count buffer 4 (p8, s8) = (p4, s4)" "unat p4 \<le> unat count"
    "filled tmp buffer (medium (snd s)) (lba * 512) (fst s) (512 * unat p4) (fst s4)" "same_disk ready medium (snd s) (snd s4)"
    using rc [of 4 p8 s8] 8 by auto
  obtain p2 s2 where 2: "read_chunks rd 512 tmp lba count buffer 2 (p4, s4) = (p2, s2)" "unat p2 \<le> unat count"
    "filled tmp buffer (medium (snd s)) (lba * 512) (fst s) (512 * unat p2) (fst s2)" "same_disk ready medium (snd s) (snd s2)"
    using rc [of 2 p4 s4] 4 by auto
  obtain p1 s1 where 1: "read_chunks rd 512 tmp lba count buffer 1 (p2, s2) = (p1, s1)" "unat p1 \<le> unat count"
    "unat count - unat p1 < 1"
    "filled tmp buffer (medium (snd s)) (lba * 512) (fst s) (512 * unat p1) (fst s1)" "same_disk ready medium (snd s) (snd s1)"
    using rc [of 1 p2 s2] 2 by auto
  have "unat p1 = unat count" using 1(2,3) by simp
  then show ?thesis using 8 4 2 1 by auto
qed

lemma set_bit8: "i < 8 \<Longrightarrow> unat (word_of_int (int i) :: u8) = i"
  by (simp add: unat_of_nat)

section \<open>Byte ranges\<close>

text \<open>The transfer of \<open>n\<close> whole blocks inside \<open>Read\<close>, from block \<open>i\<close> of the middle part on.\<close>

lemma middle_filled:
  fixes n F L :: u64
  assumes dev: "block_device rd wr medium ready sectors" and L: "L * 512 = off + F" and n: "unat n \<le> 8"
    and ap: "apart tmp buffer K" and K: "unat F + 512 * (i + unat n) \<le> K"
    and f: "filled tmp buffer (medium dv) off mv k (fst s)" and e: "same_disk ready medium dv (snd s)"
    and k: "unat F + 512 * i \<le> k" and range: "0 < n" "unat L + (i + unat n) \<le> sectors"
  shows "filled tmp buffer (medium dv) off mv (max k (unat F + 512 * (i + unat n)))
      (fst (copy (buffer + F + of_nat i * 512) tmp (512 * n) (rd (L + of_nat i) n tmp s)))"
    and "same_disk ready medium dv (snd (copy (buffer + F + of_nat i * 512) tmp (512 * n) (rd (L + of_nat i) n tmp s)))"
proof -
  have K64: "K < 2 ^ 64" using ap by (simp add: apart_def)
  have i: "unat (of_nat i * 512 :: u64) = 512 * i"
  proof -
    have "unat (of_nat i :: u64) = i" using K K64 by (intro unat_of_nat_u64) simp
    then show ?thesis using K K64 by (subst unat_mult_no_wrap) simp_all
  qed
  have j: "unat (F + of_nat i * 512) = unat F + 512 * i" using i K K64 by (subst unat_add_no_wrap) simp_all
  have len: "unat (512 * n) = 512 * unat n" using n by (subst unat_mult_no_wrap) simp_all
  have l: "(L + of_nat i) * 512 + 0 = off + (F + of_nat i * 512)" using L by (simp add: algebra_simps)
  have o: "unat (0 :: u64) + unat (512 * n) \<le> 512 * unat n" using len by simp
  have jk: "unat (F + of_nat i * 512) \<le> k" using j k by simp
  have jK: "unat (F + of_nat i * 512) + unat (512 * n) \<le> K" using j len K by simp
  have "unat (of_nat i :: u64) = i" using K K64 by (intro unat_of_nat_u64) simp
  moreover have "unat L + i < 2 ^ 64" using range(2) block_device.sectors [OF dev] by simp
  ultimately have "unat (L + of_nat i) = unat L + i" by (simp add: unat_add_no_wrap)
  then have at: "unat (L + of_nat i) + unat n \<le> sectors" using range(2) by simp
  note st = filled_step [OF dev f e n l o jk jK ap range(1) at]
  show "filled tmp buffer (medium dv) off mv (max k (unat F + 512 * (i + unat n)))
      (fst (copy (buffer + F + of_nat i * 512) tmp (512 * n) (rd (L + of_nat i) n tmp s)))"
    using st(1) unfolding j len by (simp add: algebra_simps)
  show "same_disk ready medium dv (snd (copy (buffer + F + of_nat i * 512) tmp (512 * n) (rd (L + of_nat i) n tmp s)))"
    using st(2) by (simp add: algebra_simps)
qed

lemma read_tail_filled:
  fixes F L :: u64
  assumes dev: "block_device rd wr medium ready sectors" and L: "L * 512 = off + F"
    and ap: "apart tmp buffer K" and K: "unat F + 512 * Blocks \<le> K" and i: "i < Blocks"
    and f: "filled tmp buffer (medium dv) off mv k (fst s)" and e: "same_disk ready medium dv (snd s)"
    and k: "unat F + 512 * i \<le> k" "k \<le> unat F + 512 * (i + 1)" and range: "unat L + Blocks \<le> sectors"
  shows "\<exists>i' s'. read_tail rd 512 tmp L (buffer + F) Blocks i s = (i', s') \<and> i \<le> i' \<and> i' < Blocks
    \<and> filled tmp buffer (medium dv) off mv (unat F + 512 * (i' + 1)) (fst s') \<and> same_disk ready medium dv (snd s')"
proof (cases "Blocks - i > 2")
  case True
  have at: "unat F + 512 * (i + unat (2 :: u64)) \<le> K" "unat L + (i + unat (2 :: u64)) \<le> sectors"
    using K range True by simp_all
  note m = middle_filled [OF dev L _ ap at(1) f e k(1) _ at(2)]
  have "max k (unat F + 512 * (i + 2)) = unat F + 512 * (i + 1 + 1)" using k(2) by simp
  then show ?thesis using m True by (simp add: read_tail_def)
next
  case False
  have at: "unat F + 512 * (i + unat (1 :: u64)) \<le> K" "unat L + (i + unat (1 :: u64)) \<le> sectors"
    using K range i by simp_all
  note m = middle_filled [OF dev L _ ap at(1) f e k(1) _ at(2)]
  have "max k (unat F + 512 * (i + 1)) = unat F + 512 * (i + 1)" using k(2) by simp
  then show ?thesis using m False i by (simp add: read_tail_def)
qed

lemma read_step_filled:
  fixes F L :: u64
  assumes dev: "block_device rd wr medium ready sectors" and L: "L * 512 = off + F"
    and ap: "apart tmp buffer K" and K: "unat F + 512 * Blocks \<le> K" and i: "i < Blocks"
    and f: "filled tmp buffer (medium dv) off mv (unat F + 512 * i) (fst s)" and e: "same_disk ready medium dv (snd s)"
    and range: "unat L + Blocks \<le> sectors"
  shows "\<exists>i' s'. read_step rd 512 tmp L (buffer + F) Blocks i s = (i', s') \<and> i \<le> i' \<and> i' < Blocks
    \<and> filled tmp buffer (medium dv) off mv (unat F + 512 * (i' + 1)) (fst s') \<and> same_disk ready medium dv (snd s')"
proof -
  have after: "\<exists>i' s'. read_tail rd 512 tmp L (buffer + F) Blocks (i + (n' - 1))
       (copy (buffer + F + of_nat i * 512) tmp (512 * n) (rd (L + of_nat i) n tmp s)) = (i', s') \<and> i \<le> i' \<and> i' < Blocks
     \<and> filled tmp buffer (medium dv) off mv (unat F + 512 * (i' + 1)) (fst s') \<and> same_disk ready medium dv (snd s')"
    if n: "unat n \<le> 8" "unat n = n'" "n' < Blocks - i" "1 < n'" for n :: u64 and n'
  proof -
    have K': "unat F + 512 * (i + unat n) \<le> K" "unat L + (i + unat n) \<le> sectors" using K n range by simp_all
    have "0 < n" using n(2,4) by (simp add: word_less_nat_alt)
    note m = middle_filled [OF dev L n(1) ap K'(1) f e order.refl this K'(2)]
    have e: "max (unat F + 512 * i) (unat F + 512 * (i + unat n)) = unat F + 512 * (i + n')" using n(2) by simp
    have "i + (n' - 1) < Blocks" "unat F + 512 * (i + (n' - 1)) \<le> unat F + 512 * (i + n')"
      "unat F + 512 * (i + n') \<le> unat F + 512 * (i + (n' - 1) + 1)" using n by simp_all
    from read_tail_filled [OF dev L ap K this(1) m(1) [unfolded e] m(2) this(2,3) range]
    show ?thesis by auto
  qed
  consider (8) "Blocks - i > 8" | (4) "\<not> Blocks - i > 8" "Blocks - i > 4" | (2) "\<not> Blocks - i > 4" by linarith
  then show ?thesis
  proof cases
    case 8
    then show ?thesis using after [of 8 8] by (simp add: read_step_def)
  next
    case 4
    then show ?thesis using after [of 4 4] by (simp add: read_step_def)
  next
    case 2
    then show ?thesis using read_tail_filled [OF dev L ap K i f e _ _ range] by (simp add: read_step_def)
  qed
qed

lemma read_loop_filled:
  fixes F L :: u64
  assumes "block_device rd wr medium ready sectors" and "bs = 512" and "L * 512 = off + F" and "dest = buffer + F"
    and "apart tmp buffer K" and "unat F + 512 * Blocks \<le> K" and "i \<le> Blocks" and "Blocks < 2 ^ 31"
    and "filled tmp buffer (medium dv) off mv (unat F + 512 * i) (fst s)" and "same_disk ready medium dv (snd s)"
    and "unat L + Blocks \<le> sectors"
  shows "\<exists>s'. read_loop rd bs tmp L dest Blocks i s = Some s'
    \<and> filled tmp buffer (medium dv) off mv (unat F + 512 * Blocks) (fst s') \<and> same_disk ready medium dv (snd s')"
  using assms
proof (induction rd bs tmp L dest Blocks i s rule: read_loop.induct)
  case (1 rd bs tmp L dest Blocks i s)
  have i31: "\<not> 2 ^ 31 \<le> i" using "1.prems"(7,8) by linarith
  show ?case
  proof (cases "i < Blocks")
    case True
    obtain i' s' where s': "read_step rd bs tmp L dest Blocks i s = (i', s')" "i' < Blocks"
      "filled tmp buffer (medium dv) off mv (unat F + 512 * (i' + 1)) (fst s')" "same_disk ready medium dv (snd s')"
      using read_step_filled [OF "1.prems"(1,3,5,6) True "1.prems"(9,10,11)] "1.prems"(2,4) by auto
    have "i' + 1 \<le> Blocks" using s'(2) by simp
    from "1.IH" [OF i31 True s'(1) [symmetric] refl "1.prems"(1-6) this "1.prems"(8) s'(3,4) "1.prems"(11)]
    show ?thesis using i31 True s'(1) by (subst read_loop.simps) simp
  next
    case False
    then show ?thesis using i31 "1.prems" by (subst read_loop.simps) auto
  qed
qed

lemma ReadBlocks_spec:
  assumes "block_device rd wr medium ready sectors" and "blocksize d = 512" and "length (Buffer d) = 8"
    and "\<not> bit (bufferLock d) j" and "j < 8" and "\<And>b. b \<in> set (Buffer d) \<Longrightarrow> apart b buffer (512 * unat count)"
    and "ready e" and "unat lba + unat count \<le> sectors"
  shows "\<exists>i m' e'. i < 8 \<and> \<not> bit (bufferLock d) i
    \<and> ReadBlocks rd lba count buffer (d, m, e)
        = Some (d\<lparr>bufferLock := bufferLock d OR push_bit i 1\<rparr>, m', e')
    \<and> same_disk ready medium e e'
    \<and> (\<forall>x. \<not> in_region (Buffer d ! i) 4096 x \<longrightarrow>
         m' x = (if in_region buffer (512 * unat count) x then medium e (lba * 512 + (x - buffer)) else m x))"
proof -
  obtain i where i: "i < 8" "\<not> bit (bufferLock d) i"
    "GetBuffer d = (int i, d\<lparr>bufferLock := bufferLock d OR push_bit i 1\<rparr>)"
    using GetBuffer_cases [of d] assms(4,5) by blast
  have ap: "apart (Buffer d ! i) buffer (512 * unat count)" using assms(3,6) i(1) by simp
  then have c: "512 * unat count < 2 ^ 64" by (simp add: apart_def)
  obtain p s' where r: "read_chunks rd 512 (Buffer d ! i) lba count buffer 1 (read_chunks rd 512 (Buffer d ! i) lba count buffer 2
       (read_chunks rd 512 (Buffer d ! i) lba count buffer 4 (read_chunks rd 512 (Buffer d ! i) lba count buffer 8 (0, m, e)))) = (p, s')"
    "filled (Buffer d ! i) buffer (medium e) (lba * 512) m (512 * unat count) (fst s')" "same_disk ready medium e (snd s')"
    using four_chunks_filled [OF assms(1) c ap assms(8), of "(m, e)"] assms(7) by auto
  have "ReadBlocks rd lba count buffer (d, m, e)
      = Some (d\<lparr>bufferLock := bufferLock d OR push_bit i 1\<rparr>, fst s', snd s')"
    using r(1) i set_bit8 [OF i(1)] assms(2,3) by (simp add: ReadBlocks_def Let_def)
  then show ?thesis using i(1,2) r(2,3) unfolding filled_def by blast
qed

section \<open>Writing blocks\<close>

text \<open>The first \<open>k\<close> bytes of the caller's buffer are on the disk from \<open>off\<close> on; memory has changed in
  the transfer buffer only.\<close>

definition stored ::
  "('d \<Rightarrow> u64 \<Rightarrow> u8) \<Rightarrow> u64 \<Rightarrow> u64 \<Rightarrow> u64 \<Rightarrow> memory \<Rightarrow> (u64 \<Rightarrow> u8) \<Rightarrow> nat \<Rightarrow> 'd machine \<Rightarrow> bool"
where
  "stored medium tmp buffer off m0 img k s \<longleftrightarrow>
     (\<forall>x. \<not> in_region tmp 4096 x \<longrightarrow> fst s x = m0 x)
     \<and> (\<forall>y. medium (snd s) y = (if in_region off k y then m0 (buffer + (y - off)) else img y))"

lemma wr_spec:
  assumes "block_device rd wr medium ready sectors" and "0 < n" and "unat n \<le> 8"
    and "unat lba + unat n \<le> sectors" and "ready (snd s)"
  shows "fst (wr lba n buf s) = fst s" and "ready (snd (wr lba n buf s))"
    and "medium (snd (wr lba n buf s)) =
      (\<lambda>y. if in_region (lba * 512) (512 * unat n) y then fst s (buf + (y - lba * 512)) else medium (snd s) y)"
  using block_device.writes [OF assms(1) _ assms(2-4), of "snd s" buf "fst s"]
    block_device.write_keeps [OF assms(1) _ assms(2-4), of "snd s" buf "fst s"] assms(5)
  by simp_all

lemma stored_step:
  fixes n j lba off :: u64
  assumes dev: "block_device rd wr medium ready sectors" and n: "unat n \<le> 8"
    and f: "stored medium tmp buffer off m0 img (unat j) s"
    and lba: "lba * 512 = off + j" and len: "unat (512 * n) = 512 * unat n"
    and jK: "unat j + 512 * unat n \<le> K" and ap: "apart tmp buffer K"
    and range: "0 < n" "unat lba + unat n \<le> sectors" and rdy: "ready (snd s)"
  shows "stored medium tmp buffer off m0 img (unat j + 512 * unat n)
      (wr lba n tmp (copy tmp (buffer + j) (512 * n) s))"
    and "ready (snd (wr lba n tmp (copy tmp (buffer + j) (512 * n) s)))"
proof -
  have K: "K < 2 ^ 64" using ap by (simp add: apart_def)
  have jl: "unat j + 512 * unat n < 2 ^ 64" using jK K by linarith
  let ?c = "copy tmp (buffer + j) (512 * n) s"
  have src: "\<not> in_region tmp 4096 (buffer + j + word_of_nat i)" if "i < 512 * unat n" for i
  proof -
    have iw: "unat (word_of_nat i :: u64) = i" using that n by (intro unat_of_nat_u64) simp
    have "unat (j + word_of_nat i) = unat j + i" using that iw jl by (subst unat_add_no_wrap) simp_all
    then have "in_region buffer K (buffer + j + word_of_nat i)" using that jK by (simp add: in_region_def add.assoc)
    then show ?thesis using ap by (simp add: apart_def)
  qed
  have small: "in_region tmp (512 * unat n) x \<Longrightarrow> in_region tmp 4096 x" for x using n by (simp add: in_region_def)
  have "copy_safe tmp (buffer + j) (unat (512 * n))"
    unfolding len
  proof (rule copy_safe_disjoint)
    show "\<forall>i < 512 * unat n. \<not> in_region tmp (512 * unat n) (buffer + j + word_of_nat i)"
      using src small by blast
    show "512 * unat n \<le> 2 ^ 64" using n by simp
  qed
  then have c: "fst ?c x = (if in_region tmp (512 * unat n) x then fst s (buffer + j + (x - tmp)) else fst s x)" for x
    using memcpy_apply [of tmp "buffer + j" "512 * n" "fst s" x] by (simp only: copy_def fst_conv len)
  have md: "medium (snd ?c) = medium (snd s)" by (simp add: copy_def)
  have "ready (snd ?c)" using rdy by (simp add: copy_def)
  note stored' = wr_spec [OF dev range(1) n range(2) this, of tmp]
  show "ready (snd (wr lba n tmp ?c))" by (rule stored'(2))
  show "stored medium tmp buffer off m0 img (unat j + 512 * unat n) (wr lba n tmp ?c)"
    unfolding stored_def
  proof (intro conjI allI impI)
    fix x
    assume "\<not> in_region tmp 4096 x"
    then show "fst (wr lba n tmp ?c) x = m0 x"
      using f small unfolding stored'(1) c stored_def by auto
  next
    fix y
    have r: "in_region (off + j) (512 * unat n) y \<longleftrightarrow> unat j \<le> unat (y - off) \<and> unat (y - off) < unat j + 512 * unat n"
      by (rule in_region_offset [OF jl])
    show "medium (snd (wr lba n tmp ?c)) y
        = (if in_region off (unat j + 512 * unat n) y then m0 (buffer + (y - off)) else img y)"
    proof (cases "in_region (off + j) (512 * unat n) y")
      case True
      then have i: "unat (y - (off + j)) < 512 * unat n" by (simp add: in_region_def)
      have "buffer + j + (y - (off + j)) = buffer + (y - off)" by (simp add: algebra_simps)
      moreover have "\<not> in_region tmp 4096 (buffer + j + word_of_nat (unat (y - (off + j))))" by (rule src [OF i])
      ultimately have "fst s (buffer + j + (y - (off + j))) = m0 (buffer + (y - off))"
        using f unfolding stored_def by simp
      moreover have "in_region tmp (512 * unat n) (tmp + (y - (off + j)))" using i by (simp add: in_region_def)
      ultimately have "fst ?c (tmp + (y - (off + j))) = m0 (buffer + (y - off))"
        unfolding c by (simp only: if_True add_diff_cancel_left')
      then show ?thesis using True r unfolding stored'(3) lba by (simp add: in_region_def)
    next
      case False
      then have "in_region off (unat j + 512 * unat n) y = in_region off (unat j) y"
        using r by (auto simp: in_region_def)
      then show ?thesis using False f unfolding stored'(3) lba md stored_def by simp
    qed
  qed
qed

lemma write_chunks_stored:
  assumes "block_device rd wr medium ready sectors" and "0 < k" and "unat k \<le> 8" and "bs = 512" and "512 * unat count < 2 ^ 64"
    and "apart tmp buffer (512 * unat count)" and "unat lba + unat count \<le> sectors" and "unat lbapos \<le> unat count"
    and "stored medium tmp buffer (lba * 512) mv img (512 * unat lbapos) s" and "ready (snd s)"
  shows "\<exists>p s'. write_chunks wr bs tmp lba count buffer k (lbapos, s) = (p, s') \<and> unat p \<le> unat count
    \<and> unat count - unat p < unat k \<and> stored medium tmp buffer (lba * 512) mv img (512 * unat p) s' \<and> ready (snd s')"
  using assms
proof (induction wr bs tmp lba count buffer k "(lbapos, s)" arbitrary: lbapos s rule: write_chunks.induct)
  case (1 wr bs tmp lba count buffer k lbapos s)
  show ?case
  proof (cases "0 < k \<and> k \<le> count - lbapos")
    case True
    have "unat k \<le> unat (count - lbapos)" using True by (simp add: word_le_nat_alt)
    note pos = chunk_position [OF "1.prems"(8) this "1.prems"(5) "1.prems"(3)]
    note at = lba_position [OF "1.prems"(1,7) pos(4)]
    have l: "(lba + lbapos) * 512 = lba * 512 + lbapos * 512" by (simp add: algebra_simps)
    have jK: "unat (lbapos * 512) + 512 * unat k \<le> 512 * unat count" using pos by simp
    let ?s = "wr (lba + lbapos) k tmp (copy tmp (buffer + lbapos * 512) (bs * k) s)"
    note step = stored_step [OF "1.prems"(1,3) "1.prems"(9) [folded pos(1)] l pos(2) jK "1.prems"(6,2) at "1.prems"(10)]
    have st: "stored medium tmp buffer (lba * 512) mv img (512 * unat (lbapos + k)) ?s" "ready (snd ?s)"
      using step pos "1.prems"(4) by (simp_all add: algebra_simps)
    have "unat (lbapos + k) \<le> unat count" using pos by simp
    from "1.hyps" [OF True "1.prems"(1-7) this st]
    show ?thesis using True by (subst write_chunks.simps) simp
  next
    case False
    have "unat (count - lbapos) = unat count - unat lbapos" using "1.prems"(8) by (rule unat_sub_no_wrap)
    then have "unat count - unat lbapos < unat k" using False "1.prems"(2) by (simp add: word_le_nat_alt)
    then show ?thesis using False "1.prems" by (subst write_chunks.simps) auto
  qed
qed

section \<open>Properties\<close>

text \<open>C21. \<open>ReadBlocks\<close> reads exactly the blocks asked for into the caller's buffer, whatever the count,
  and touches nothing else but the transfer buffer it took; that buffer stays locked afterwards.\<close>

theorem ReadBlocks_reads:
  assumes "block_device rd wr medium ready sectors" and "blocksize d = 512" and "length (Buffer d) = 8"
    and "\<not> bit (bufferLock d) j" and "j < 8" and "\<And>b. b \<in> set (Buffer d) \<Longrightarrow> apart b buffer (512 * unat count)"
    and "ready e" and "unat lba + unat count \<le> sectors"
  shows "\<exists>i m' e'. i < 8 \<and> \<not> bit (bufferLock d) i
    \<and> ReadBlocks rd lba count buffer (d, m, e)
        = Some (d\<lparr>bufferLock := bufferLock d OR push_bit i 1\<rparr>, m', e')
    \<and> same_disk ready medium e e'
    \<and> (\<forall>x. \<not> in_region (Buffer d ! i) 4096 x \<longrightarrow>
         m' x = (if in_region buffer (512 * unat count) x then medium e (lba * 512 + (x - buffer)) else m x))"
  by (rule ReadBlocks_spec [OF assms])

text \<open>A disk whose medium is its state, for the witnesses.\<close>

definition ram_rd :: "(u64 \<Rightarrow> u8) block_op" where
  "ram_rd lba n buf s =
     ((\<lambda>x. if in_region buf (512 * unat n) x then snd s (lba * 512 + (x - buf)) else fst s x), snd s)"

definition ram_wr :: "(u64 \<Rightarrow> u8) block_op" where
  "ram_wr lba n buf s =
     (fst s, \<lambda>y. if in_region (lba * 512) (512 * unat n) y then fst s (buf + (y - lba * 512)) else snd s y)"

interpretation ram: block_device ram_rd ram_wr "\<lambda>d. d" "\<lambda>_. True" "2 ^ 54"
  by unfold_locales (simp_all add: ram_rd_def ram_wr_def cong: if_cong)

lemmas ram_block_device = ram.block_device_axioms

definition ram_disk :: "u8 \<Rightarrow> disk" where
  "ram_disk l = \<lparr>Buffer = map (\<lambda>i. of_nat i * 0x1000) [0..<8], bufferLock = l, blocksize = 512\<rparr>"

lemma ram_apart:
  fixes n p :: u64
  assumes "b \<in> set (Buffer (ram_disk l))" and n: "unat n \<le> 3" and p: "0x100000 \<le> unat p" "unat p < 2 ^ 32"
  shows "apart b p (512 * unat n)"
proof -
  obtain i where b: "b = of_nat i * 0x1000" and i: "i < 8" using assms(1) by (auto simp: ram_disk_def same_disk_def)
  have "\<not> in_region b 4096 x" if "in_region p (512 * unat n) x" for x
  proof -
    have ub: "unat b = i * 4096" using i b by (simp add: unat_word_ariths unat_of_nat)
    have o: "unat (x - p) < 1536" using that n by (simp add: in_region_def)
    have "unat (p + (x - p)) = unat p + unat (x - p)" using o p by (subst unat_add_no_wrap) simp_all
    then have ux: "unat x = unat p + unat (x - p)" by simp
    then have "unat (x - b) = unat x - unat b" using ub i p by (intro unat_sub_no_wrap) linarith
    then have "unat (x - b) \<ge> 4096" using ux ub i p by linarith
    then show ?thesis by (simp add: in_region_def)
  qed
  then show ?thesis using n by (simp add: apart_def)
qed

theorem ReadBlocks_reads_witness:
  "\<forall>m e. \<exists>i m' e'. ReadBlocks ram_rd 7 3 0x100000 (ram_disk 0, m, e)
      = Some (ram_disk 0\<lparr>bufferLock := push_bit i 1\<rparr>, m', e') \<and> i < 8 \<and> e' = e"
proof (intro allI)
  fix m e
  show "\<exists>i m' e'. ReadBlocks ram_rd 7 3 0x100000 (ram_disk 0, m, e)
      = Some (ram_disk 0\<lparr>bufferLock := push_bit i 1\<rparr>, m', e') \<and> i < 8 \<and> e' = e"
    using ReadBlocks_reads [OF ram_block_device, of "ram_disk 0" 0 "0x100000" 3 7 m e]
      ram_apart [of _ 0 3 "0x100000"] by (auto simp: ram_disk_def same_disk_def)
qed

text \<open>The buffers leak: none of the eight is ever given back by \<open>ReadBlocks\<close>, and once all are
  taken it indexes the array of buffers with 255.\<close>

theorem ReadBlocks_exhausted:
  assumes "length (Buffer d) = 8" and "\<forall>i < 8. bit (bufferLock d) i"
  shows "ReadBlocks rd lba count buffer (d, s) = None"
proof -
  have "GetBuffer d = (-1, d)" using GetBuffer_cases [of d] assms(2) by blast
  moreover have "unat (word_of_int (-1) :: u8) = 255" by (simp add: unsigned_minus_1_eq_mask mask_eq_exp_minus_1)
  ultimately show ?thesis using assms(1) by (simp add: ReadBlocks_def)
qed

theorem ReadBlocks_exhausted_witness: "ReadBlocks ram_rd 7 3 0x100000 (ram_disk 0xFF, m, e) = None"
proof -
  have m: "(0xFF :: u8) = mask 8" by (simp add: mask_eq_exp_minus_1)
  have "\<forall>i < 8. bit (0xFF :: u8) i" unfolding m bit_mask_iff by simp
  then show ?thesis
    using ReadBlocks_exhausted [of "ram_disk 0xFF" ram_rd 7 3 "0x100000" "(m, e)"]
    by (simp add: ram_disk_def)
qed
lemma relieve_taken:
  assumes "\<not> bit (bufferLock d) i" and "i < 8"
  shows "RelieveBuffer (word_of_int (int i)) (d\<lparr>bufferLock := bufferLock d OR push_bit i 1\<rparr>) = d"
proof -
  have "unat (word_of_int (int i) :: u8) = i" by (rule set_bit8 [OF assms(2)])
  moreover have "(bufferLock d OR push_bit i 1) AND NOT (push_bit i 1) = bufferLock d"
    by (rule bit_word_eqI) (use assms in \<open>auto simp: bit_simps\<close>)
  ultimately show ?thesis by (simp add: RelieveBuffer_def)
qed

lemma block_split:
  fixes off sz :: u64
  defines "F \<equiv> 512 - off mod 512"
  assumes "F \<le> sz"
  shows "(off div 512) * 512 + off mod 512 = off" and "(off div 512 + 1) * 512 = off + F"
    and "unat (off mod 512) + unat F = 512" and "0 < unat F"
    and "unat sz = unat F + 512 * unat ((sz - F) div 512) + unat (sz - F - 512 * ((sz - F) div 512))"
    and "unat (sz - F - 512 * ((sz - F) div 512)) < 512"
    and "unat (512 * ((sz - F) div 512)) = 512 * unat ((sz - F) div 512)"
proof -
  show a: "(off div 512) * 512 + off mod 512 = off" by (rule div_mult_mod_eq)
  then show "(off div 512 + 1) * 512 = off + F" by (simp add: F_def algebra_simps)
  have m: "unat (off mod 512) = unat off mod 512" by (simp add: unat_mod_distrib)
  then have "unat F = 512 - unat off mod 512" unfolding F_def by (subst unat_sub_no_wrap) simp_all
  then show "unat (off mod 512) + unat F = 512" "0 < unat F" using m by simp_all
  have dv: "unat ((sz - F) div 512) = unat (sz - F) div 512" by (simp add: unat_div_distrib)
  have lt: "unat (sz - F) < 2 ^ 64" by (rule order_less_le_trans [OF unsigned_less]) simp
  show mu: "unat (512 * ((sz - F) div 512)) = 512 * unat ((sz - F) div 512)"
  proof -
    have "512 * (unat (sz - F) div 512) \<le> unat (sz - F)" by simp
    then have "512 * (unat (sz - F) div 512) < 2 ^ 64" using lt by linarith
    then show ?thesis using dv by (subst unat_mult_no_wrap) simp_all
  qed
  have "512 * (unat (sz - F) div 512) \<le> unat (sz - F)" by simp
  then have r: "unat (sz - F - 512 * ((sz - F) div 512)) = unat (sz - F) - 512 * (unat (sz - F) div 512)"
    using mu dv by (subst unat_sub_no_wrap) simp_all
  also have "\<dots> = unat (sz - F) mod 512" by (simp add: minus_mult_div_eq_mod)
  finally have r: "unat (sz - F - 512 * ((sz - F) div 512)) = unat (sz - F) mod 512" .
  then show "unat (sz - F - 512 * ((sz - F) div 512)) < 512" by simp
  have "unat (sz - F) = unat sz - unat F" using assms(2) by (intro unat_sub_no_wrap) (simp add: word_le_nat_alt)
  moreover have "unat F \<le> unat sz" using assms(2) by (simp add: word_le_nat_alt)
  moreover have "512 * (unat (sz - F) div 512) + unat (sz - F) mod 512 = unat (sz - F)" by simp
  ultimately show "unat sz = unat F + 512 * unat ((sz - F) div 512) + unat (sz - F - 512 * ((sz - F) div 512))"
    unfolding r dv by linarith
qed

lemma disk_Read_spec:
  assumes dev: "block_device rd wr medium ready sectors" and bs: "blocksize d = 512" "length (Buffer d) = 8"
    and free: "\<not> bit (bufferLock d) j" "j < 8"
    and ap: "\<And>b. b \<in> set (Buffer d) \<Longrightarrow> apart b buffer (unat sz)"
    and F: "512 - off mod 512 \<le> sz" and small: "unat sz < 2 ^ 40"
    and rdy: "ready e" and range: "unat off + unat sz \<le> 512 * sectors"
  shows "\<exists>i m' e'. i < 8 \<and> disk_Read rd off sz buffer (d, m, e) = Some (1, d, m', e')
    \<and> same_disk ready medium e e'
    \<and> (\<forall>x. \<not> in_region (Buffer d ! i) 4096 x \<longrightarrow>
         m' x = (if in_region buffer (unat sz) x then medium e (off + (x - buffer)) else m x))"
proof -
  obtain i where i: "i < 8" "\<not> bit (bufferLock d) i"
    "GetBuffer d = (int i, d\<lparr>bufferLock := bufferLock d OR push_bit i 1\<rparr>)"
    using GetBuffer_cases [of d] free by blast
  define tmp where "tmp = Buffer d ! i"
  define F where "F = 512 - off mod 512"
  define B where "B = (sz - F) div 512"
  define X where "X = sz - F - 512 * B"
  note sp = block_split [of off sz, folded F_def, OF \<open>512 - off mod 512 \<le> sz\<close> [folded F_def], folded B_def, folded X_def]
  define D where "D = unat (off div 512)"
  have "unat off = 512 * D + unat (off mod 512)" by (simp add: D_def unat_div_distrib unat_mod_distrib)
  then have fin: "512 * (D + 1 + unat B) + unat X \<le> 512 * sectors" using range sp(3) unfolding sp(5) by simp
  have s55: "sectors < 2 ^ 55" by (rule block_device.sectors [OF dev])
  have D1: "unat (off div 512 + 1) = D + 1" using fin s55 unfolding D_def by (subst unat_add_no_wrap) simp_all
  have DB: "unat (off div 512 + 1 + B) = D + 1 + unat B" using fin s55 D1 by (subst unat_add_no_wrap) simp_all
  have at0: "unat (off div 512) + unat (1 :: u64) \<le> sectors" using fin unfolding D_def by simp
  have at1: "unat (off div 512 + 1) + unat B \<le> sectors" using fin D1 by simp
  have ap: "apart tmp buffer (unat sz)" using ap bs(2) i(1) by (simp add: tmp_def)
  define s1 where "s1 = copy (buffer + 0) (tmp + off mod 512) F (rd (off div 512) 1 tmp (m, e))"
  have o1: "unat (off mod 512) + unat F \<le> 512 * unat (1 :: u64)" using sp(3) by simp
  have b1: "off div 512 * 512 + off mod 512 = off + 0" using sp(1) by simp
  have f0: "filled tmp buffer (medium e) off m 0 (fst (m, e))" using filled_0 by simp
  have "filled tmp buffer (medium e) off m (max 0 (unat (0 :: u64) + unat F)) (fst s1)" "same_disk ready medium e (snd s1)"
    unfolding s1_def using sp(5) rdy at0
    by (intro filled_step [OF dev f0 _ _ b1 o1 _ _ ap]; simp add: same_disk_def)+
  then have s1: "filled tmp buffer (medium e) off m (unat F + 512 * 0) (fst s1)" "same_disk ready medium e (snd s1)"
    by simp_all
  have K: "unat F + 512 * unat B \<le> unat sz" "unat B < 2 ^ 31" using sp(5) small by simp_all
  obtain s2 where s2: "read_loop rd 512 tmp (off div 512 + 1) (buffer + F) (unat B) 0 s1 = Some s2"
    "filled tmp buffer (medium e) off m (unat F + 512 * unat B) (fst s2)" "same_disk ready medium e (snd s2)"
    using read_loop_filled [OF dev refl sp(2) refl ap K(1) _ K(2) s1 at1] by auto
  define s3 where "s3 = (if X > 0 then copy (buffer + F + (B * 512)) tmp X (rd (off div 512 + 1 + B) 1 tmp s2) else s2)"
  have s3: "filled tmp buffer (medium e) off m (unat sz) (fst s3) \<and> same_disk ready medium e (snd s3)"
  proof (cases "X > 0")
    case True
    have j: "unat (F + B * 512) = unat F + 512 * unat B"
      using sp(5,7) small by (subst unat_add_no_wrap) (simp_all add: mult.commute)
    have l: "(off div 512 + 1 + B) * 512 + 0 = off + (F + B * 512)" using sp(2) by (simp add: algebra_simps)
    have o: "unat (0 :: u64) + unat X \<le> 512 * unat (1 :: u64)" using sp(6) by simp
    have jk: "unat (F + B * 512) \<le> unat F + 512 * unat B" "unat (F + B * 512) + unat X \<le> unat sz"
      using j sp(5) by simp_all
    have n1: "unat (1 :: u64) \<le> 8" by simp
    have "0 < unat X" using True by (simp add: word_less_nat_alt)
    have at2: "unat (off div 512 + 1 + B) + unat (1 :: u64) \<le> sectors"
      using fin \<open>0 < unat X\<close> unfolding DB by simp
    note st = filled_step [OF dev s2(2,3) n1 l o jk ap _ at2]
    have e: "max (unat F + 512 * unat B) (unat (F + B * 512) + unat X) = unat sz" using j sp(5) by simp
    show ?thesis using st True unfolding s3_def e by (simp add: add.assoc)
  next
    case False
    then have "unat X = 0" by (simp add: word_gt_0)
    then show ?thesis using s2(2,3) sp(5) False by (simp add: s3_def)
  qed
  have i1: "int i \<noteq> -1" by simp
  have "disk_Read rd off sz buffer (d, m, e) = Some (1, d, s3)"
    unfolding disk_Read_def
    using s2(1) relieve_taken [OF i(2,1)] bs(1)
    by (simp add: i(3) Let_def tmp_def [symmetric] F_def [symmetric] B_def [symmetric] X_def [symmetric]
        s1_def [simplified, symmetric]) (simp add: s3_def)
  then show ?thesis using s3 i(1) unfolding filled_def tmp_def by (metis prod.collapse)
qed

text \<open>What every driver gives its clients.\<close>

context block_device begin

lemmas reads_blocks = ReadBlocks_spec [OF block_device_axioms]
lemmas reads_bytes = disk_Read_spec [OF block_device_axioms]

end


lemma read_loop_overflow:
  "2 ^ 31 \<le> Blocks \<Longrightarrow> read_loop rd bs tmp L dest Blocks i s = None"
proof (induction rd bs tmp L dest Blocks i s rule: read_loop.induct)
  case (1 rd bs tmp L dest Blocks i s)
  show ?case
  proof (cases "2 ^ 31 \<le> i")
    case True
    then show ?thesis by (subst read_loop.simps) simp
  next
    case False
    then have "i < Blocks" using "1.prems" by linarith
    obtain i' s' where s': "read_step rd bs tmp L dest Blocks i s = (i', s')"
      by (cases "read_step rd bs tmp L dest Blocks i s")
    from "1.IH" [OF False \<open>i < Blocks\<close> s' [symmetric] refl "1.prems"]
    show ?thesis using False \<open>i < Blocks\<close> s' by (subst read_loop.simps) simp
  qed
qed

text \<open>A request that ends inside its first block is not served: the remaining size wraps around,
  and the loop over the whole blocks runs until its \<^verbatim>\<open>int\<close> counter overflows.\<close>

theorem disk_Read_short:
  assumes "blocksize d = 512" and "\<not> bit (bufferLock d) j" and "j < 8" and "sz < 512 - off mod 512"
  shows "disk_Read rd off sz buffer (d, s) = None"
proof -
  obtain i where i: "GetBuffer d = (int i, d\<lparr>bufferLock := bufferLock d OR push_bit i 1\<rparr>)"
    using GetBuffer_cases [of d] assms(2,3) by blast
  define F where "F = 512 - off mod 512"
  have "unat (off mod 512) < 512" by (simp add: unat_mod_distrib)
  then have "unat F \<le> 512" unfolding F_def by (subst unat_sub_no_wrap) simp_all
  moreover have "unat sz < unat F" using assms(4) by (simp add: F_def word_less_nat_alt)
  ultimately have "unat (sz - F) \<ge> 2 ^ 64 - 512"
    using unat_sub_if' [of sz F] by simp
  moreover have "unat ((sz - F) div 512) = unat (sz - F) div 512" by (simp add: unat_div_distrib)
  ultimately have B: "2 ^ 31 \<le> unat ((sz - F) div 512)" by simp
  show ?thesis
    using i assms(1) by (simp add: disk_Read_def Let_def read_loop_overflow [OF B, unfolded F_def])
qed


theorem disk_Read_short_witness:
  "\<forall>m e. disk_Read ram_rd 100 10 0x100000 (ram_disk 0, m, e) = None"
proof (intro allI)
  fix m e
  show "disk_Read ram_rd 100 10 0x100000 (ram_disk 0, m, e) = None"
    using disk_Read_short [of "ram_disk 0" 0 10 100 ram_rd "0x100000" "(m, e)"] by (simp add: ram_disk_def)
qed

text \<open>C20. What \<open>WriteBlocks\<close> writes, \<open>ReadBlocks\<close> reads back: writing a buffer to some blocks and then
  reading those blocks into a second buffer makes the second a copy of the first, whatever the count
  and whichever transfer buffers the two calls take.\<close>

theorem WriteBlocks_ReadBlocks:
  assumes dev: "block_device rd wr medium ready sectors" and bs: "blocksize d = 512" "length (Buffer d) = 8"
    and free: "\<not> bit (bufferLock d) j" "\<not> bit (bufferLock d) j'" "j < 8" "j' < 8" "j \<noteq> j'"
    and ap: "\<And>b. b \<in> set (Buffer d) \<Longrightarrow> apart b src (512 * unat count)"
      "\<And>b. b \<in> set (Buffer d) \<Longrightarrow> apart b dst (512 * unat count)"
    and rdy: "ready e" and range: "unat lba + unat count \<le> sectors"
  shows "\<exists>d1 s1 d2 m2 e2. WriteBlocks wr lba count src (d, m, e) = Some (d1, s1)
    \<and> ReadBlocks rd lba count dst (d1, s1) = Some (d2, m2, e2)
    \<and> (\<forall>k < 512 * unat count. (\<forall>b \<in> set (Buffer d). \<not> in_region b 4096 (dst + word_of_nat k)) \<longrightarrow>
         m2 (dst + word_of_nat k) = m (src + word_of_nat k))"
proof -
  obtain i where i: "i < 8" "\<not> bit (bufferLock d) i"
    "GetBuffer d = (int i, d\<lparr>bufferLock := bufferLock d OR push_bit i 1\<rparr>)"
    using GetBuffer_cases [of d] free(1,3) by blast
  let ?t = "Buffer d ! i"
  have ap1: "apart ?t src (512 * unat count)" using ap(1) bs(2) i(1) by simp
  then have c: "512 * unat count < 2 ^ 64" by (simp add: apart_def)
  note wc = write_chunks_stored [OF dev _ _ refl c ap1 range, where mv = m and img = "medium e"]
  have f0: "stored medium ?t src (lba * 512) m (medium e) (512 * unat (0 :: u64)) (m, e)" "ready (snd (m, e))"
    using rdy by (simp_all add: stored_def in_region_def)
  obtain p8 s8 where 8: "write_chunks wr 512 ?t lba count src 8 (0, m, e) = (p8, s8)" "unat p8 \<le> unat count"
    "stored medium ?t src (lba * 512) m (medium e) (512 * unat p8) s8" "ready (snd s8)"
    using wc [of 8 0 "(m, e)"] f0 by auto
  obtain p4 s4 where 4: "write_chunks wr 512 ?t lba count src 4 (p8, s8) = (p4, s4)" "unat p4 \<le> unat count"
    "stored medium ?t src (lba * 512) m (medium e) (512 * unat p4) s4" "ready (snd s4)"
    using wc [of 4 p8 s8] 8 by auto
  obtain p2 s2 where 2: "write_chunks wr 512 ?t lba count src 2 (p4, s4) = (p2, s2)" "unat p2 \<le> unat count"
    "stored medium ?t src (lba * 512) m (medium e) (512 * unat p2) s2" "ready (snd s2)"
    using wc [of 2 p4 s4] 4 by auto
  obtain p1 s1 where 1: "write_chunks wr 512 ?t lba count src 1 (p2, s2) = (p1, s1)" "unat p1 \<le> unat count"
    "unat count - unat p1 < 1" "stored medium ?t src (lba * 512) m (medium e) (512 * unat p1) s1" "ready (snd s1)"
    using wc [of 1 p2 s2] 2 by auto
  have p1: "unat p1 = unat count" using 1(2,3) by simp
  define d1 where "d1 = d\<lparr>bufferLock := bufferLock d OR push_bit i 1\<rparr>"
  have W: "WriteBlocks wr lba count src (d, m, e) = Some (d1, s1)"
    using 8 4 2 1(1) i set_bit8 [OF i(1)] bs by (simp add: WriteBlocks_def Let_def d1_def)
  have d1: "blocksize d1 = 512" "length (Buffer d1) = 8" "Buffer d1 = Buffer d" using bs by (simp_all add: d1_def)
  obtain j2 where j2: "\<not> bit (bufferLock d1) j2" "j2 < 8"
    using free i(1) by (cases "i = j") (auto simp: d1_def bit_simps)
  obtain m1 e1 where s1: "s1 = (m1, e1)" by (cases s1)
  obtain i2 m2 e2 where R: "i2 < 8"
    "ReadBlocks rd lba count dst (d1, s1) = Some (d1\<lparr>bufferLock := bufferLock d1 OR push_bit i2 1\<rparr>, m2, e2)"
    "\<And>x. \<not> in_region (Buffer d ! i2) 4096 x \<Longrightarrow>
         m2 x = (if in_region dst (512 * unat count) x then medium e1 (lba * 512 + (x - dst)) else m1 x)"
    using ReadBlocks_spec [OF dev d1(1,2) j2, of dst count e1 lba m1] ap(2) d1(3) s1 1(5) range by auto
  have "m2 (dst + word_of_nat k) = m (src + word_of_nat k)"
    if k: "k < 512 * unat count" and out: "\<forall>b \<in> set (Buffer d). \<not> in_region b 4096 (dst + word_of_nat k)" for k
  proof -
    have kw: "unat (word_of_nat k :: u64) = k" using k c by (intro unat_of_nat_u64) linarith
    have "m2 (dst + word_of_nat k) = medium e1 (lba * 512 + word_of_nat k)"
      using R(3) [of "dst + word_of_nat k"] out R(1) bs(2) k kw by (simp add: in_region_def)
    also have "\<dots> = m (src + word_of_nat k)"
      using 1(4) k kw unfolding p1 stored_def s1 snd_conv by (simp add: in_region_def)
    finally show ?thesis .
  qed
  then show ?thesis using W R(2) by blast
qed

theorem WriteBlocks_ReadBlocks_witness:
  "\<forall>m e. \<exists>d1 s1 d2 m2 e2. WriteBlocks ram_wr 7 3 0x100000 (ram_disk 0, m, e) = Some (d1, s1)
     \<and> ReadBlocks ram_rd 7 3 0x200000 (d1, s1) = Some (d2, m2, e2) \<and> m2 0x200005 = m 0x100005"
proof (intro allI)
  fix m e
  show "\<exists>d1 s1 d2 m2 e2. WriteBlocks ram_wr 7 3 0x100000 (ram_disk 0, m, e) = Some (d1, s1)
     \<and> ReadBlocks ram_rd 7 3 0x200000 (d1, s1) = Some (d2, m2, e2) \<and> m2 0x200005 = m 0x100005"
  proof -
    have out: "\<forall>b \<in> set (Buffer (ram_disk 0)). \<not> in_region b 4096 (0x200000 + word_of_nat 5)"
      using ram_apart [of _ 0 3 "0x200000"] by (auto simp: apart_def in_region_def)
    have l: "blocksize (ram_disk 0) = 512" "length (Buffer (ram_disk 0)) = 8"
      "\<not> bit (bufferLock (ram_disk 0)) 0" "\<not> bit (bufferLock (ram_disk 0)) 1"
      by (simp_all add: ram_disk_def)
    have a: "apart b 0x100000 (512 * unat (3 :: u64))" "apart b 0x200000 (512 * unat (3 :: u64))"
      if "b \<in> set (Buffer (ram_disk 0))" for b
      by (rule ram_apart [OF that]; simp)+
    obtain d1 s1 d2 m2 e2 where w: "WriteBlocks ram_wr 7 3 0x100000 (ram_disk 0, m, e) = Some (d1, s1)"
      "ReadBlocks ram_rd 7 3 0x200000 (d1, s1) = Some (d2, m2, e2)"
      and c: "\<forall>k < 512 * unat (3 :: u64). (\<forall>b \<in> set (Buffer (ram_disk 0)). \<not> in_region b 4096 (0x200000 + word_of_nat k)) \<longrightarrow>
           m2 (0x200000 + word_of_nat k) = m (0x100000 + word_of_nat k)"
      using WriteBlocks_ReadBlocks [OF ram_block_device l, of "0x100000" 3 "0x200000" 7 m e] a by auto
    have "m2 (0x200000 + word_of_nat 5) = m (0x100000 + word_of_nat 5)" using c [rule_format, of 5] out by simp
    then have "m2 0x200005 = m 0x100005" by simp
    then show ?thesis using w by blast
  qed
qed

end
