(* ===== verification/Gpt.thy ===== *)
theory Gpt
  imports ByteInteraction
begin

text \<open>
  GUID partition tables: \<^verbatim>\<open>inc/fs/GPT.h\<close> and the boot sector layout of \<^verbatim>\<open>inc/fs/MBR.h\<close>.
  A GUID is held in six integers, the last three in big-endian order; \<open>read_GUID\<close> is the assignment
  operator from the sixteen bytes on the disk. The packed structures are read from a memory at the
  offsets of their fields.
\<close>

section \<open>Headers and entries\<close>

definition GPT_HEADER_SIGNATURE_BIG_ENDIAN :: u64 where
  "GPT_HEADER_SIGNATURE_BIG_ENDIAN = 0x5452415020494645"

record GPTHeader =
  gpt_Signature :: u64
  gpt_Revision :: u32
  gpt_Size :: u32
  Crc32 :: u32
  gpt_Reserved :: u32
  CurrentLBA :: u64
  BackupLBA :: u64
  FirstLBA :: u64
  LastLBA :: u64
  DiskGUID :: "u8 list"
  PartitionTableLBA :: u64
  PartNum :: u32
  PartEntrySize :: u32
  PartEntriesCRC :: u32

record GPTPartitonEntry =
  TypeGUID :: "u8 list"
  PartitionGUID :: "u8 list"
  StartLBA :: u64
  EndLBA :: u64
  gpt_Flags :: u64
  gpt_Name :: "u8 list"

definition read_GPTHeader :: "memory \<Rightarrow> u64 \<Rightarrow> GPTHeader" where
  "read_GPTHeader m p =
     \<lparr>gpt_Signature = load64 m p, gpt_Revision = load32 m (p + 8), gpt_Size = load32 m (p + 12),
      Crc32 = load32 m (p + 16), gpt_Reserved = load32 m (p + 20), CurrentLBA = load64 m (p + 24),
      BackupLBA = load64 m (p + 32), FirstLBA = load64 m (p + 40), LastLBA = load64 m (p + 48),
      DiskGUID = load_bytes m (p + 56) 16, PartitionTableLBA = load64 m (p + 72),
      PartNum = load32 m (p + 80), PartEntrySize = load32 m (p + 84), PartEntriesCRC = load32 m (p + 88)\<rparr>"

definition read_GPTPartitonEntry :: "memory \<Rightarrow> u64 \<Rightarrow> GPTPartitonEntry" where
  "read_GPTPartitonEntry m p =
     \<lparr>TypeGUID = load_bytes m p 16, PartitionGUID = load_bytes m (p + 16) 16,
      StartLBA = load64 m (p + 32), EndLBA = load64 m (p + 40), gpt_Flags = load64 m (p + 48),
      gpt_Name = load_bytes m (p + 56) 72\<rparr>"

section \<open>GUIDs\<close>

datatype GPT_Types =
  UNSUSED_ENTRY
  | MBR_PARTITION_SCHEME
  | EFI_SYSTEM_PARTITION
  | BIOS_BOOT_PARITITON
  | INTEL_FAST_FLASH_PARTITION
  | MICROSOFT_RESERVED_PARITITON
  | BASIC_DATA_PARITITON
  | STORAGE_SPACES_PARTITION
  | LINUX_FILESYSTEM_DATA
  | LINUX_ROOT
  | LINUX_BOOT
  | LINUX_SWAP
  | LINUX_HOME
  | APFS_CONTAINER
  | APFS_RECOVERY

record GUID =
  Entry1 :: u32
  Entry2 :: u16
  Entry3 :: u16
  Entry4 :: u16
  Entry5H :: u16
  Entry5L :: u32

definition guid :: "u32 \<Rightarrow> u16 \<Rightarrow> u16 \<Rightarrow> u16 \<Rightarrow> u16 \<Rightarrow> u32 \<Rightarrow> GUID" where
  "guid a b c d e f = \<lparr>Entry1 = a, Entry2 = b, Entry3 = c, Entry4 = d, Entry5H = e, Entry5L = f\<rparr>"

definition eq_GUID :: "GUID \<Rightarrow> GUID \<Rightarrow> bool" where
  "eq_GUID l r =
     (if Entry1 l \<noteq> Entry1 r then False
      else if Entry2 l \<noteq> Entry2 r then False
      else if Entry3 l \<noteq> Entry3 r then False
      else if Entry4 l \<noteq> Entry4 r then False
      else if Entry5H l \<noteq> Entry5H r then False
      else if Entry5L l \<noteq> Entry5L r then False
      else True)"

definition GetGUIDType :: "GUID \<Rightarrow> GPT_Types" where
  "GetGUIDType this =
     (if eq_GUID this (guid 0x00000000 0x0000 0x0000 0x0000 0x0000 0x00000000) then UNSUSED_ENTRY
      else if eq_GUID this (guid 0x024DEE41 0x33E7 0x11D3 0x9D69 0x0008 0xC781F39F) then MBR_PARTITION_SCHEME
      else if eq_GUID this (guid 0xC12A7328 0xF81F 0x11D2 0xBA4B 0x00A0 0xC93EC93B) then EFI_SYSTEM_PARTITION
      else if eq_GUID this (guid 0x21686148 0x6449 0x6E6F 0x744E 0x6565 0x64454649) then BIOS_BOOT_PARITITON
      else if eq_GUID this (guid 0xD3BFE2DE 0x3DAF 0x11DF 0xBA40 0xE3A5 0x56D89593) then INTEL_FAST_FLASH_PARTITION
      else if eq_GUID this (guid 0xE3C9E316 0x0B5C 0x4DB8 0x817D 0xF92D 0xF00215AE) then MICROSOFT_RESERVED_PARITITON
      else if eq_GUID this (guid 0xEBD0A0A2 0xB9E5 0x4433 0x87C0 0x68B6 0xB72699C7) then BASIC_DATA_PARITITON
      else if eq_GUID this (guid 0xE75CAF8F 0xF680 0x4CEE 0xAFA3 0xB001 0xE56EFC2D) then STORAGE_SPACES_PARTITION
      else if eq_GUID this (guid 0x0FC63DAF 0x8483 0x4772 0x8E79 0x3D69 0xD8477DE4) then LINUX_FILESYSTEM_DATA
      else if eq_GUID this (guid 0x4F68BCE3 0xE8CD 0x4DB1 0x96E7 0xFBCA 0xF984B709) then LINUX_BOOT
      else if eq_GUID this (guid 0xBC13C2FF 0x59E6 0x4262 0xA352 0xB275 0xFD6F7172) then LINUX_ROOT
      else if eq_GUID this (guid 0x0657FD6D 0xA4AB 0x43C4 0x84E5 0x0933 0xC84B4F4F) then LINUX_SWAP
      else if eq_GUID this (guid 0x933AC7E1 0x2EB4 0x4F13 0xB844 0x0E14 0xE2AEF915) then LINUX_HOME
      else if eq_GUID this (guid 0x7C3457EF 0x0000 0x11AA 0xAA11 0x0030 0x6543ECAC) then APFS_CONTAINER
      else if eq_GUID this (guid 0x52637672 0x7900 0x11AA 0xAA11 0x0030 0x6543ECAC) then APFS_RECOVERY
      else UNSUSED_ENTRY)"

definition eq_GUID_type :: "GUID \<Rightarrow> GPT_Types \<Rightarrow> bool" where
  "eq_GUID_type this r = (if GetGUIDType this = r then True else False)"

definition SetGUID :: "GPT_Types \<Rightarrow> GUID" where
  "SetGUID type =
     (if type = UNSUSED_ENTRY then guid 0x00000000 0x0000 0x0000 0x0000 0x0000 0x00000000
      else if type = MBR_PARTITION_SCHEME then guid 0x024DEE41 0x33E7 0x11D3 0x9D69 0x0008 0xC781F39F
      else if type = EFI_SYSTEM_PARTITION then guid 0xC12A7328 0xF81F 0x11D2 0xBA4B 0x00A0 0xC93EC93B
      else if type = BIOS_BOOT_PARITITON then guid 0x21686148 0x6449 0x6E6F 0x744E 0x6565 0x64454649
      else if type = INTEL_FAST_FLASH_PARTITION then guid 0xD3BFE2DE 0x3DAF 0x11DF 0xBA40 0xE3A5 0x56D89593
      else if type = MICROSOFT_RESERVED_PARITITON then guid 0xE3C9E316 0x0B5C 0x4DB8 0x817D 0xF92D 0xF00215AE
      else if type = BASIC_DATA_PARITITON then guid 0xEBD0A0A2 0xB9E5 0x4433 0x87C0 0x68B6 0xB72699C7
      else if type = STORAGE_SPACES_PARTITION then guid 0xE75CAF8F 0xF680 0x4CEE 0xAFA3 0xB001 0xE56EFC2D
      else if type = LINUX_FILESYSTEM_DATA then guid 0x0FC63DAF 0x8483 0x4772 0x8E79 0x3D69 0xD8477DE4
      else if type = LINUX_BOOT then guid 0x4F68BCE3 0xE8CD 0x4DB1 0x96E7 0xFBCA 0xF984B709
      else if type = LINUX_ROOT then guid 0xBC13C2FF 0x59E6 0x4262 0xA352 0xB275 0xFD6F7172
      else if type = LINUX_SWAP then guid 0x0657FD6D 0xA4AB 0x43C4 0x84E5 0x0933 0xC84B4F4F
      else if type = LINUX_HOME then guid 0x933AC7E1 0x2EB4 0x4F13 0xB844 0x0E14 0xE2AEF915
      else if type = APFS_CONTAINER then guid 0x7C3457EF 0x0000 0x11AA 0xAA11 0x0030 0x6543ECAC
      else if type = APFS_RECOVERY then guid 0x52637672 0x7900 0x11AA 0xAA11 0x0030 0x6543ECAC
      else guid 0x00000000 0x0000 0x0000 0x0000 0x0000 0x00000000)"

definition read_GUID :: "memory \<Rightarrow> u64 \<Rightarrow> GUID" where
  "read_GUID m p =
     \<lparr>Entry1 = load32 m p, Entry2 = load16 m (p + 4), Entry3 = load16 m (p + 6),
      Entry4 = BigEndian16 (load16 m (p + 8)), Entry5H = BigEndian16 (load16 m (p + 10)),
      Entry5L = BigEndian32 (load32 m (p + 12))\<rparr>"

section \<open>The boot sector of a FAT32 volume\<close>

record FAT32_MBR =
  JMPInstruction :: "u8 list"
  OEM :: "u8 list"
  BytesPerSector :: u16
  SectorsPerCluster :: u8
  ReservedSectors :: u16
  NumberOfFATs :: u8
  Unused1 :: "u8 list"
  Unused2 :: "u8 list"
  MediaDescriptor :: u8
  Unused3 :: "u8 list"
  SectorsPerTrack :: u16
  NumberOfHeads :: u16
  HiddenSectors :: u32
  TotalSectors :: u32
  SectorsPerFAT :: u32
  ExtendedFlags :: u16
  Version :: u16
  RootCluster :: u32
  SystemInformationSector :: u16
  BackupBootSector :: u16
  Unused4 :: "u8 list"
  PhysicalDrive :: u8
  mbr_Reserved :: u8
  ExtendedSignature :: u8
  SerialNumber :: u32
  VolumeLabel :: "u8 list"
  FileSystem :: u64
  BootstrapCode :: "u8 list"
  mbr_Signature :: u16

definition read_FAT32_MBR :: "memory \<Rightarrow> u64 \<Rightarrow> FAT32_MBR" where
  "read_FAT32_MBR m p =
     \<lparr>JMPInstruction = load_bytes m p 3, OEM = load_bytes m (p + 3) 8,
      BytesPerSector = load16 m (p + 11), SectorsPerCluster = m (p + 13),
      ReservedSectors = load16 m (p + 14), NumberOfFATs = m (p + 16),
      Unused1 = load_bytes m (p + 17) 2, Unused2 = load_bytes m (p + 19) 2,
      MediaDescriptor = m (p + 21), Unused3 = load_bytes m (p + 22) 2,
      SectorsPerTrack = load16 m (p + 24), NumberOfHeads = load16 m (p + 26),
      HiddenSectors = load32 m (p + 28), TotalSectors = load32 m (p + 32),
      SectorsPerFAT = load32 m (p + 36), ExtendedFlags = load16 m (p + 40),
      Version = load16 m (p + 42), RootCluster = load32 m (p + 44),
      SystemInformationSector = load16 m (p + 48), BackupBootSector = load16 m (p + 50),
      Unused4 = load_bytes m (p + 52) 12, PhysicalDrive = m (p + 64),
      mbr_Reserved = m (p + 65), ExtendedSignature = m (p + 66),
      SerialNumber = load32 m (p + 67), VolumeLabel = load_bytes m (p + 71) 11,
      FileSystem = load64 m (p + 82), BootstrapCode = load_bytes m (p + 90) 420,
      mbr_Signature = load16 m (p + 510)\<rparr>"

section \<open>Properties\<close>

lemma eq_GUID_iff: "eq_GUID l r \<longleftrightarrow> l = r"
  by (auto simp: eq_GUID_def)

text \<open>The table of known types is consistent: the GUID \<open>SetGUID\<close> writes for a type is the one
  \<open>GetGUIDType\<close> recognises as that type, for every type.\<close>

theorem GetGUIDType_SetGUID: "GetGUIDType (SetGUID t) = t"
  by (cases t) (simp_all add: SetGUID_def GetGUIDType_def eq_GUID_def guid_def)

text \<open>The names of two Linux types are exchanged: the GUID that GPT.h documents as the one of
  \<open>LINUX_ROOT\<close> is recognised as \<open>LINUX_BOOT\<close>, and the other way round.\<close>

theorem Linux_types_exchanged:
  "GetGUIDType (guid 0x4F68BCE3 0xE8CD 0x4DB1 0x96E7 0xFBCA 0xF984B709) = LINUX_BOOT
   \<and> GetGUIDType (guid 0xBC13C2FF 0x59E6 0x4262 0xA352 0xB275 0xFD6F7172) = LINUX_ROOT"
  by (simp add: GetGUIDType_def eq_GUID_def guid_def)

end
