(* ===== verification/Fat32.thy ===== *)
theory Fat32
  imports DiskDevice Gpt
begin

text \<open>
  Partitions and the FAT32 file system: \<^verbatim>\<open>src/fs/ParitionDevice.cpp\<close> and, under
  \<^verbatim>\<open>src/fs/Formats/FAT/FAT32\<close>, \<^verbatim>\<open>FAT.cpp\<close>, \<^verbatim>\<open>Directory.cpp\<close> and \<^verbatim>\<open>FATPartition.cpp\<close>.
  The state of a call is the disk, the memory with the device, and the number of buffers the heap has
  handed out; \<open>alloc n\<close> is the address of the n-th of them and \<open>junk\<close> what fresh memory holds. A
  \<^verbatim>\<open>Vector\<close> is the list it holds. \<open>None\<close> is a division by zero, an access outside an array or a loop
  that does not end. Buffers that are released or leaked are not tracked.
\<close>

record 'd fs =
  fs_disk :: disk
  fs_machine :: "'d machine"
  fs_mallocs :: nat

definition fs_malloc :: "(nat \<Rightarrow> u64) \<Rightarrow> 'd fs \<Rightarrow> u64 \<times> 'd fs" where
  "fs_malloc alloc s = (alloc (fs_mallocs s), s\<lparr>fs_mallocs := fs_mallocs s + 1\<rparr>)"

abbreviation fs_memory :: "'d fs \<Rightarrow> memory" where
  "fs_memory s \<equiv> fst (fs_machine s)"

section \<open>Partitions\<close>

datatype PartitionFormats = PARTITION_UNKOWN | PARTITION_FAT_32

record PartitionFlags =
  Hidden :: bool
  AutoMount :: bool
  ReadOnly :: bool

record PartitionDevice =
  PartitionName :: "u8 list"
  ParentDisk :: u64
  rPartitionSize :: u64
  rFreeSpace :: u64
  rFormat :: PartitionFormats
  rMount :: u8
  rMounted :: bool
  rFlags :: PartitionFlags
  rTypeGUID :: "u8 list"
  rPartitionGUID :: "u8 list"
  part_StartLBA :: u64
  part_EndLBA :: u64

text \<open>
  The constructor on a fresh object \<open>p\<close>. \<^verbatim>\<open>&typeGUID\<close> is the address of the parameter, so the two
  copies take sixteen bytes of the stack, \<open>stack1\<close> and \<open>stack2\<close>, and not the GUIDs.
\<close>

definition construct_PartitionDevice ::
  "u64 \<Rightarrow> u64 \<Rightarrow> u64 \<Rightarrow> u8 list \<Rightarrow> u8 list \<Rightarrow> PartitionDevice \<Rightarrow> PartitionDevice"
where
  "construct_PartitionDevice startLBA endLBA disk stack1 stack2 p =
     p\<lparr>rFormat := PARTITION_UNKOWN, part_StartLBA := startLBA, part_EndLBA := endLBA, ParentDisk := disk,
       rTypeGUID := take 16 stack1, rPartitionGUID := take 16 stack2\<rparr>"

definition part_ReadAbsolute ::
  "'d block_op \<Rightarrow> PartitionDevice \<Rightarrow> u64 \<Rightarrow> u64 \<Rightarrow> u64 \<Rightarrow> disk \<times> 'd machine \<Rightarrow> (int \<times> disk \<times> 'd machine) option"
where
  "part_ReadAbsolute rd p off count buffer ds =
     disk_Read rd (off + (0x200 * part_StartLBA p)) (count * 0x200) buffer ds"

definition part_ReadBlock ::
  "'d block_op \<Rightarrow> PartitionDevice \<Rightarrow> u64 \<Rightarrow> u64 \<Rightarrow> u64 \<Rightarrow> disk \<times> 'd machine \<Rightarrow> (disk \<times> 'd machine) option"
where
  "part_ReadBlock rd p lba count buffer ds = ReadBlocks rd (lba + (part_StartLBA p)) count buffer ds"

definition part_WriteBlock ::
  "'d block_op \<Rightarrow> PartitionDevice \<Rightarrow> u64 \<Rightarrow> u64 \<Rightarrow> u64 \<Rightarrow> disk \<times> 'd machine \<Rightarrow> (disk \<times> 'd machine) option"
where
  "part_WriteBlock wr p lba count buffer ds = WriteBlocks wr (lba + (part_StartLBA p)) count buffer ds"

text \<open>The functions end without a return; what the disk returned is still in the result register.\<close>

definition part_Read ::
  "'d block_op \<Rightarrow> PartitionDevice \<Rightarrow> u64 \<Rightarrow> u64 \<Rightarrow> u64 \<Rightarrow> disk \<times> 'd machine \<Rightarrow> (int \<times> disk \<times> 'd machine) option"
where
  "part_Read rd p off sz buffer ds = disk_Read rd (off + (0x200 * part_StartLBA p)) sz buffer ds"

definition part_Write ::
  "'d block_op \<Rightarrow> 'd block_op \<Rightarrow> PartitionDevice \<Rightarrow> u64 \<Rightarrow> u64 \<Rightarrow> u64 \<Rightarrow> disk \<times> 'd machine
    \<Rightarrow> (int \<times> disk \<times> 'd machine) option"
where
  "part_Write rd wr p off sz buffer ds = disk_Write rd wr (off + (0x200 * part_StartLBA p)) sz buffer ds"

definition part_MountPartition :: "u8 \<Rightarrow> PartitionDevice \<Rightarrow> PartitionDevice" where
  "part_MountPartition MountPoint p = p\<lparr>rMount := MountPoint, rMounted := True\<rparr>"

record Fat32Partition =
  device :: PartitionDevice
  rMBR :: FAT32_MBR

definition fs_Read ::
  "'d block_op \<Rightarrow> Fat32Partition \<Rightarrow> u64 \<Rightarrow> u64 \<Rightarrow> u64 \<Rightarrow> 'd fs \<Rightarrow> (int \<times> 'd fs) option"
where
  "fs_Read rd p off sz buffer s =
     map_option (\<lambda>(r, d, m). (r, s\<lparr>fs_disk := d, fs_machine := m\<rparr>))
       (part_Read rd (device p) off sz buffer (fs_disk s, fs_machine s))"

section \<open>The file allocation table\<close>

text \<open>The number of entries of one FAT, in 32-bit arithmetic, and the position of the data area in
  clusters.\<close>

definition fat_entries :: "FAT32_MBR \<Rightarrow> u32" where
  "fat_entries b = (SectorsPerFAT b * ucast (BytesPerSector b)) div 4"

definition data_cluster :: "FAT32_MBR \<Rightarrow> u32" where
  "data_cluster b =
     (ucast (ReservedSectors b) + (SectorsPerFAT b * ucast (NumberOfFATs b))) div ucast (SectorsPerCluster b)"

definition fat_entry :: "memory \<Rightarrow> u64 \<Rightarrow> u64 \<Rightarrow> u32" where
  "fat_entry m Sector pos = LittleEndian32 (Get4Byte m Sector (pos * 4)) AND 0xFFFFFF"

partial_function (option) scan_loop ::
  "'d block_op \<Rightarrow> Fat32Partition \<Rightarrow> u64 \<Rightarrow> u64 \<Rightarrow> u64 \<Rightarrow> bool \<Rightarrow> u64 \<Rightarrow> u32 \<Rightarrow> u64 \<Rightarrow> u32 list \<Rightarrow> 'd fs
    \<Rightarrow> (u32 list \<times> 'd fs) option"
where
  "scan_loop rd p Sector ClusterStartNumber ClusterAddition IsFat2 StartSector CurrentEntry PrevSector Entries s =
     (if CurrentEntry = 0xFFFFFF then Some (Entries, s)
      else
        let b = rMBR p;
            Entries = Entries @ [(CurrentEntry - ucast ClusterAddition) + (if IsFat2 then fat_entries b else 0)
                                 + data_cluster b];
            NewSector = (ClusterStartNumber + ClusterAddition) div ucast (fat_entries b) + ucast (ReservedSectors b)
        in Option.bind
             (if NewSector \<noteq> PrevSector
              then map_option (\<lambda>(r, s). (NewSector, s))
                     (fs_Read rd p (StartSector * ucast (BytesPerSector b)) (ucast (BytesPerSector b)) Sector s)
              else Some (PrevSector, s))
             (\<lambda>(PrevSector, s).
                let CurrentEntryPos = (CurrentEntry + ucast ClusterAddition) mod fat_entries b;
                    CurrentEntry = fat_entry (fs_memory s) Sector (ucast CurrentEntryPos)
                in scan_loop rd p Sector ClusterStartNumber ClusterAddition IsFat2 StartSector CurrentEntry
                     PrevSector Entries s))"

text \<open>The result is \<open>None\<close> inside the outer \<open>Some\<close> when the code returns a null pointer.\<close>

definition ScanForEntries ::
  "'d block_op \<Rightarrow> (nat \<Rightarrow> u64) \<Rightarrow> Fat32Partition \<Rightarrow> u64 \<Rightarrow> 'd fs \<Rightarrow> (u32 list option \<times> 'd fs) option"
where
  "ScanForEntries rd alloc p ClusterStartNumber s =
     (let b = rMBR p;
          ClusterStartNumber = (if ClusterStartNumber < 2 then 2 else ClusterStartNumber) - 2;
          ClusterAddition = (2 :: u64)
      in if fat_entries b = 0 \<or> SectorsPerCluster b = 0 then None
         else
           let IsFat2 = ((ClusterStartNumber + ClusterAddition) div ucast (fat_entries b) \<noteq> 0);
               ClusterAddition = (if IsFat2 then ClusterAddition + 2 else ClusterAddition);
               StartSector = ((ClusterStartNumber + ClusterAddition) div ucast (fat_entries b))
                 + ucast (ReservedSectors b)
                 + (if IsFat2 then ucast (SectorsPerFAT b div ucast (SectorsPerCluster b)) else 0);
               (Sector, s) = fs_malloc alloc s
           in case fs_Read rd p (ucast (BytesPerSector b) * StartSector) (ucast (BytesPerSector b)) Sector s of
                None \<Rightarrow> None
              | Some (r, s) \<Rightarrow>
                  if r = 0 then Some (None, s)
                  else
                    let CurrentEntryPos = (ClusterStartNumber + ClusterAddition) mod ucast (fat_entries b);
                        CurrentEntry = fat_entry (fs_memory s) Sector CurrentEntryPos;
                        first = ucast ((CurrentEntryPos - ClusterAddition)
                          + (if IsFat2 then ucast (fat_entries b) else 0) + ucast (data_cluster b))
                    in map_option (\<lambda>(Entries, s). (Some Entries, s))
                         (scan_loop rd p Sector ClusterStartNumber ClusterAddition IsFat2 StartSector
                            CurrentEntry StartSector [first] s))"

section \<open>Directories\<close>

datatype FileAttributes = FAT32DirEntry_Read_OnlyM | FAT32DirEntry_HiddenM | FAT32DirEntry_System_FileM
  | FAT32DirEntry_Volume_LabelM | FAT32DirEntry_Long_File_NameM | FAT32DirEntry_DirectoryM
  | FAT32DirEntry_ArchiveM

primrec mask_of :: "FileAttributes \<Rightarrow> u8" where
  "mask_of FAT32DirEntry_Read_OnlyM = 0x01"
| "mask_of FAT32DirEntry_HiddenM = 0x02"
| "mask_of FAT32DirEntry_System_FileM = 0x04"
| "mask_of FAT32DirEntry_Volume_LabelM = 0x08"
| "mask_of FAT32DirEntry_Long_File_NameM = 0x0F"
| "mask_of FAT32DirEntry_DirectoryM = 0x10"
| "mask_of FAT32DirEntry_ArchiveM = 0x20"

definition CheckForAttribute :: "u8 \<Rightarrow> FileAttributes \<Rightarrow> bool \<Rightarrow> bool" where
  "CheckForAttribute Attributes AttributesMask Specific =
     (if Specific then
        (case AttributesMask of
           FAT32DirEntry_Read_OnlyM \<Rightarrow> Attributes = push_bit 0 1
         | FAT32DirEntry_HiddenM \<Rightarrow> Attributes = push_bit 1 1
         | FAT32DirEntry_System_FileM \<Rightarrow> Attributes = push_bit 2 1
         | FAT32DirEntry_Volume_LabelM \<Rightarrow> Attributes = push_bit 3 1
         | FAT32DirEntry_Long_File_NameM \<Rightarrow> Attributes = 0x0F
         | FAT32DirEntry_DirectoryM \<Rightarrow> Attributes = push_bit 4 1
         | FAT32DirEntry_ArchiveM \<Rightarrow> Attributes = push_bit 5 1)
      else
        (case AttributesMask of
           FAT32DirEntry_Read_OnlyM \<Rightarrow> drop_bit 0 (Attributes AND mask_of AttributesMask) = 1
         | FAT32DirEntry_HiddenM \<Rightarrow> drop_bit 1 (Attributes AND mask_of AttributesMask) = 1
         | FAT32DirEntry_System_FileM \<Rightarrow> drop_bit 2 (Attributes AND mask_of AttributesMask) = 1
         | FAT32DirEntry_Volume_LabelM \<Rightarrow> drop_bit 3 (Attributes AND mask_of AttributesMask) = 1
         | FAT32DirEntry_Long_File_NameM \<Rightarrow> drop_bit 0 (Attributes AND mask_of AttributesMask) = 0x0F
         | FAT32DirEntry_DirectoryM \<Rightarrow> drop_bit 4 (Attributes AND mask_of AttributesMask) = 1
         | FAT32DirEntry_ArchiveM \<Rightarrow> drop_bit 5 (Attributes AND mask_of AttributesMask) = 1))"

record LongFileNameEntry =
  SequenceNumber :: u8
  FileName1 :: "u8 list"
  lfne_FileAttributes :: u8
  lfne_Unused :: u8
  lfne_Checksum :: u8
  FileName2 :: "u8 list"
  lfne_Reserved :: u16
  FileName3 :: "u8 list"

record RootDirectoryEntry =
  FileName :: "u8 list"
  rde_FileAttributes :: u8
  rde_Reserved :: u8
  FileCreationTime :: u8
  CreationTime :: u16
  CreationDate :: u16
  AccessDate :: u16
  High2BytesOfAddressOfFirstCluster :: u16
  ModifiedTime :: u16
  ModifiedDate :: u16
  Low2BytesOfAddressOfFirstCluster :: u16
  rde_FileSize :: u32

definition read_LFNE :: "memory \<Rightarrow> u64 \<Rightarrow> LongFileNameEntry" where
  "read_LFNE m p =
     \<lparr>SequenceNumber = m p, FileName1 = load_bytes m (p + 1) 10, lfne_FileAttributes = m (p + 11),
      lfne_Unused = m (p + 12), lfne_Checksum = m (p + 13), FileName2 = load_bytes m (p + 14) 12,
      lfne_Reserved = load16 m (p + 26), FileName3 = load_bytes m (p + 28) 4\<rparr>"

definition read_RDE :: "memory \<Rightarrow> u64 \<Rightarrow> RootDirectoryEntry" where
  "read_RDE m p =
     \<lparr>FileName = load_bytes m p 11, rde_FileAttributes = m (p + 11), rde_Reserved = m (p + 12),
      FileCreationTime = m (p + 13), CreationTime = load16 m (p + 14), CreationDate = load16 m (p + 16),
      AccessDate = load16 m (p + 18), High2BytesOfAddressOfFirstCluster = load16 m (p + 20),
      ModifiedTime = load16 m (p + 22), ModifiedDate = load16 m (p + 24),
      Low2BytesOfAddressOfFirstCluster = load16 m (p + 26), rde_FileSize = load32 m (p + 28)\<rparr>"

record DirectoryEntry =
  RDE :: RootDirectoryEntry
  LFNE :: "LongFileNameEntry list"

text \<open>
  One slot of a cluster: the long-name entries gathered so far, and the entries completed.
  \<^verbatim>\<open>FileAttributes & FAT32DirEntry_Long_File_NameM == 0x0F\<close> compares first, so it tests the
  read-only bit alone.
\<close>

definition read_slot ::
  "memory \<Rightarrow> u64 \<Rightarrow> nat \<Rightarrow> LongFileNameEntry list \<times> DirectoryEntry list \<Rightarrow> LongFileNameEntry list \<times> DirectoryEntry list"
where
  "read_slot m Data j st =
     (let (lfne, dirs) = st; slot = Data + of_nat j * 32; r = read_RDE m slot in
      if FileName r ! 0 = 0x00 \<or> FileName r ! 0 = 0xE5 then (lfne, dirs)
      else if rde_FileAttributes r AND (if mask_of FAT32DirEntry_Long_File_NameM = 0x0F then 1 else 0) \<noteq> 0
      then (lfne @ [read_LFNE m slot], dirs)
      else ([], dirs @ [\<lparr>RDE = r, LFNE = lfne\<rparr>]))"

definition cluster_bytes :: "FAT32_MBR \<Rightarrow> u64" where
  "cluster_bytes b = ucast (BytesPerSector b) * ucast (SectorsPerCluster b)"

fun read_clusters ::
  "'d block_op \<Rightarrow> (nat \<Rightarrow> u64) \<Rightarrow> Fat32Partition \<Rightarrow> u32 list \<Rightarrow> DirectoryEntry list \<Rightarrow> 'd fs
    \<Rightarrow> (DirectoryEntry list option \<times> 'd fs) option"
where
  "read_clusters rd alloc p [] dirs s = Some (Some dirs, s)"
| "read_clusters rd alloc p (c # cs) dirs s =
     (let b = rMBR p;
          LBAs = ucast (c * ucast (SectorsPerCluster b)) :: u64;
          (Data, s) = fs_malloc alloc s
      in case fs_Read rd p (ucast (BytesPerSector b) * LBAs) (cluster_bytes b) Data s of
           None \<Rightarrow> None
         | Some (r, s) \<Rightarrow>
             if r = 0 then Some (None, s)
             else
               let (lfne, dirs) = fold (read_slot (fs_memory s) Data) [0..<unat (cluster_bytes b div 32)] ([], dirs)
               in read_clusters rd alloc p cs dirs s)"

definition ReadDirectoryEntries ::
  "'d block_op \<Rightarrow> (nat \<Rightarrow> u64) \<Rightarrow> Fat32Partition \<Rightarrow> u32 list \<Rightarrow> 'd fs \<Rightarrow> (DirectoryEntry list option \<times> 'd fs) option"
where
  "ReadDirectoryEntries rd alloc p Clusters s = read_clusters rd alloc p Clusters [] s"

section \<open>Following the table\<close>

text \<open>The values the loop reads, from the current one to the end mark.\<close>

fun fat_chain :: "(u32 \<Rightarrow> u32) \<Rightarrow> u32 \<Rightarrow> u32 list \<Rightarrow> bool" where
  "fat_chain nxt e [] \<longleftrightarrow> e = 0xFFFFFF"
| "fat_chain nxt e (x # xs) \<longleftrightarrow> e = x \<and> e \<noteq> 0xFFFFFF \<and> fat_chain nxt (nxt e) xs"

lemma scan_loop_chain:
  assumes "fat_chain (\<lambda>e. fat_entry (fs_memory s) Sector (ucast ((e + 2) mod fat_entries (rMBR p)))) e es"
    and "\<not> fat2" and "start = (C + 2) div ucast (fat_entries (rMBR p)) + ucast (ReservedSectors (rMBR p))"
  shows "scan_loop rd p Sector C 2 fat2 start e start Entries s
    = Some (Entries @ map (\<lambda>e. e - 2 + data_cluster (rMBR p)) es, s)"
  using assms
proof (induction es arbitrary: e Entries)
  case Nil
  then show ?case by (subst scan_loop.simps) simp
next
  case (Cons x xs)
  let ?nx = "fat_entry (fs_memory s) Sector (ucast ((e + 2) mod fat_entries (rMBR p)))"
  have e: "x = e" "e \<noteq> 0xFFFFFF" using Cons.prems(1) by auto
  have c: "fat_chain (\<lambda>e. fat_entry (fs_memory s) Sector (ucast ((e + 2) mod fat_entries (rMBR p)))) ?nx xs"
    using Cons.prems(1) by auto
  have "scan_loop rd p Sector C 2 fat2 start e start Entries s
      = scan_loop rd p Sector C 2 fat2 start ?nx start (Entries @ [e - 2 + data_cluster (rMBR p)]) s"
    using e(2) Cons.prems(2,3) by (subst scan_loop.simps) (simp add: Let_def)
  then show ?case using Cons.IH [OF c Cons.prems(2,3)] e(1) by simp
qed

lemma ucast_down_plus: "(ucast (x + y :: u64) :: u32) = ucast x + ucast y"
unfolding word_eq_iff_unat
proof -
  show "unat (ucast (x + y :: u64) :: u32) = unat (ucast x + ucast y :: u32)"
    by (simp add: unsigned_ucast_eq unat_word_ariths take_bit_eq_mod mod_mod_cancel mod_add_eq)
qed

lemma ucast_down_diff: "(ucast (x - y :: u64) :: u32) = ucast x - ucast y"
  using ucast_down_plus [of "x - y" y] by (simp add: algebra_simps)

lemma ucast_up_down: "(ucast (ucast (x :: u32) :: u64) :: u32) = x"
  by (rule bit_word_eqI) (simp add: bit_simps)

lemma single_bit_mask:
  fixes a :: u8
  assumes "k < 8"
  shows "drop_bit k (a AND 2 ^ k) = 1 \<longleftrightarrow> a AND 2 ^ k = 2 ^ k"
proof -
  have e: "a AND 2 ^ k = (if bit a k then 2 ^ k else 0)"
    by (rule bit_word_eqI) (auto simp: bit_simps)
  have "drop_bit k (2 ^ k :: u8) = 1"
    using assms by (intro bit_word_eqI) (auto simp: bit_simps)
  then show ?thesis unfolding e by auto
qed

lemma ScanForEntries_follows:
  assumes "fat_entries (rMBR p) \<noteq> 0" and "SectorsPerCluster (rMBR p) \<noteq> 0"
    and "2 \<le> c" and "c < ucast (fat_entries (rMBR p))"
    and "fs_Read rd p (ucast (BytesPerSector (rMBR p)) * ucast (ReservedSectors (rMBR p)))
           (ucast (BytesPerSector (rMBR p))) (alloc (fs_mallocs s)) (s\<lparr>fs_mallocs := fs_mallocs s + 1\<rparr>) = Some (1, s')"
    and "fat_chain (\<lambda>e. fat_entry (fs_memory s') (alloc (fs_mallocs s)) (ucast ((e + 2) mod fat_entries (rMBR p))))
           (fat_entry (fs_memory s') (alloc (fs_mallocs s)) c) es"
  shows "ScanForEntries rd alloc p c s
    = Some (Some (map (\<lambda>e. e - 2 + data_cluster (rMBR p)) (ucast c # es)), s')"
proof -
  have d: "(c - 2 + 2) div ucast (fat_entries (rMBR p)) = (0 :: u64)" "c mod ucast (fat_entries (rMBR p)) = c"
    using assms(4) by (simp_all add: word_less_nat_alt word_eq_iff_unat unat_div_distrib unat_mod_distrib)
  have nl: "\<not> c < 2" using assms(3) by simp
  have m: "c - 2 + 2 = c" by simp
  have start: "ucast (ReservedSectors (rMBR p)) = (c - 2 + 2) div ucast (fat_entries (rMBR p)) + (ucast (ReservedSectors (rMBR p)) :: u64)"
    using d(1) by simp
  have first: "ucast (c - 2 + ucast (data_cluster (rMBR p)) :: u64) = (ucast c - 2 + data_cluster (rMBR p) :: u32)"
    by (simp add: ucast_down_diff ucast_down_plus ucast_up_down)
  show ?thesis
    using assms(1,2,5) d nl first scan_loop_chain [OF assms(6) _ start]
    by (simp add: ScanForEntries_def fs_malloc_def Let_def)
qed

section \<open>Properties\<close>

text \<open>\<open>CheckForAttribute\<close> tests what its name says: without the specific mode every bit of the
  mask is set, with it there are no others.\<close>

theorem CheckForAttribute_masks:
  "CheckForAttribute a m False = (a AND mask_of m = mask_of m)
   \<and> CheckForAttribute a m True = (a = mask_of m)"
proof (intro conjI)
  note single = single_bit_mask [of 1 a] single_bit_mask [of 2 a] single_bit_mask [of 3 a]
    single_bit_mask [of 4 a] single_bit_mask [of 5 a]
  show "CheckForAttribute a m False = (a AND mask_of m = mask_of m)"
    using single by (cases m) (simp_all add: CheckForAttribute_def)
  show "CheckForAttribute a m True = (a = mask_of m)"
    by (cases m) (simp_all add: CheckForAttribute_def)
qed


text \<open>A volume with one-sector FATs on a disk full of ones, for the witnesses.\<close>

definition small_mbr :: FAT32_MBR where
  "small_mbr = (read_FAT32_MBR (\<lambda>_. 0) 0)\<lparr>BytesPerSector := 512, SectorsPerCluster := 1,
     ReservedSectors := 32, NumberOfFATs := 2, SectorsPerFAT := 1\<rparr>"

definition small_volume :: "PartitionDevice \<Rightarrow> Fat32Partition" where
  "small_volume dv = \<lparr>device = dv\<lparr>part_StartLBA := 0\<rparr>, rMBR = small_mbr\<rparr>"

definition ones_fs :: "memory \<Rightarrow> (u64 \<Rightarrow> u8) fs" where
  "ones_fs m = \<lparr>fs_disk = ram_disk 0, fs_machine = (m, \<lambda>_. 0xFF), fs_mallocs = 0\<rparr>"

lemma small_volume_fields: "fat_entries (rMBR (small_volume dv)) = 128"
  "SectorsPerCluster (rMBR (small_volume dv)) = 1" "BytesPerSector (rMBR (small_volume dv)) = 512"
  "ReservedSectors (rMBR (small_volume dv)) = 32" "data_cluster (rMBR (small_volume dv)) = 34"
  "part_StartLBA (device (small_volume dv)) = 0"
  by (simp_all add: small_volume_def small_mbr_def fat_entries_def data_cluster_def)

lemma ones_read:
  assumes "fs_disk s = ram_disk 0" and "snd (fs_machine s) = (\<lambda>_. 0xFF)" and "unat off \<le> 2 ^ 32"
  shows "\<exists>s'. fs_Read ram_rd (small_volume dv) off 512 0x100000 s = Some (1, s')
    \<and> fs_mallocs s' = fs_mallocs s \<and> fs_disk s' = ram_disk 0 \<and> snd (fs_machine s') = (\<lambda>_. 0xFF)
    \<and> (\<forall>k < 512. fs_memory s' (0x100000 + word_of_nat k) = 0xFF)"
proof -
  have ap: "apart b 0x100000 (512 * unat (1 :: u64))" if "b \<in> set (Buffer (ram_disk 0))" for b
    by (rule ram_apart [OF that]; simp)
  have l: "blocksize (ram_disk 0) = 512" "length (Buffer (ram_disk 0)) = 8" "\<not> bit (bufferLock (ram_disk 0)) 0"
    by (simp_all add: ram_disk_def)
  have ap': "apart b 0x100000 (unat (512 :: u64))" if "b \<in> set (Buffer (ram_disk 0))" for b using ap [OF that] by simp
  obtain m where m: "fs_machine s = (m, \<lambda>_. 0xFF)" using assms(2) by (cases "fs_machine s") simp
  have F: "512 - off mod 512 \<le> (512 :: u64)"
  proof -
    have "unat (off mod 512) \<le> 512" by (simp add: unat_mod_distrib less_imp_le)
    then have "unat (512 - off mod 512) \<le> 512" by (subst unat_sub_no_wrap) simp_all
    then show ?thesis by (simp add: word_le_nat_alt)
  qed
  obtain i m' e' where r: "i < 8" "disk_Read ram_rd off 512 0x100000 (ram_disk 0, m, \<lambda>_. 0xFF) = Some (1, ram_disk 0, m', e')"
    "e' = (\<lambda>_. 0xFF)"
    "\<forall>x. \<not> in_region (Buffer (ram_disk 0) ! i) 4096 x \<longrightarrow>
         m' x = (if in_region 0x100000 (unat (512 :: u64)) x then 0xFF else m x)"
    using disk_Read_spec [OF ram_block_device l(1,2,3) _ ap' F, of m "\<lambda>_. 0xFF"] assms(3) by (auto simp: same_disk_def)
  have "m' (0x100000 + word_of_nat k) = 0xFF" if "k < 512" for k
  proof -
    have "unat (word_of_nat k :: u64) = k" using that by (intro unat_of_nat_u64) simp
    then have "in_region 0x100000 512 (0x100000 + word_of_nat k)" using that by (simp add: in_region_def)
    moreover have "Buffer (ram_disk 0) ! i \<in> set (Buffer (ram_disk 0))" using l(2) r(1) by simp
    ultimately show ?thesis using r(4) ap' unfolding apart_def by auto
  qed
  then show ?thesis using r(2,3) small_volume_fields(6) assms(1) m
    by (simp add: fs_Read_def part_Read_def)
qed

lemma ones_entry:
  assumes "\<forall>k < 512. m (0x100000 + word_of_nat k) = (0xFF :: u8)"
  shows "fat_entry m 0x100000 2 = 0xFFFFFF" "fat_entry m 0x100000 5 = 0xFFFFFF"
proof -
  have b: "m 0x100008 = 0xFF" "m 0x100009 = 0xFF" "m 0x10000A = 0xFF" "m 0x10000B = 0xFF"
    "m 0x100014 = 0xFF" "m 0x100015 = 0xFF" "m 0x100016 = 0xFF" "m 0x100017 = 0xFF"
    using assms [rule_format, of 8] assms [rule_format, of 9] assms [rule_format, of 10] assms [rule_format, of 11]
      assms [rule_format, of 20] assms [rule_format, of 21] assms [rule_format, of 22] assms [rule_format, of 23]
    by simp_all
  show "fat_entry m 0x100000 2 = 0xFFFFFF" "fat_entry m 0x100000 5 = 0xFFFFFF"
    by (simp_all add: fat_entry_def Get4Byte_def Get2Byte_def GetByte_def b LittleEndian32_def)
qed


end
