(* ===== verification/FatResolve.thy ===== *)
theory FatResolve
  imports Fat32
begin

text \<open>
  Opening a FAT32 volume and resolving a path on it: the constructor and \<^verbatim>\<open>ResolveFile\<close> of
  \<^verbatim>\<open>src/fs/Formats/FAT/FAT32/FATPartition.cpp\<close>. A path is its list of bytes, without the
  terminating zero. \<open>junk\<close> is what the memory of a new name buffer holds.
\<close>

section \<open>Files\<close>

record GeneralAttributes =
  ga_Hidden :: bool
  ga_Directory :: bool
  ga_ReadOnly :: bool
  ga_Archive :: bool

record GeneralFile =
  gf_Name :: "u8 list"
  Extention :: "u8 list"
  FullPath :: "u8 list"
  gf_FileSize :: u64
  Sectors :: "u64 list"
  SectorCount :: u64
  Attributes :: GeneralAttributes
  Disk :: "Fat32Partition option"
  Found :: bool

definition empty_file :: GeneralFile where
  "empty_file = \<lparr>gf_Name = [], Extention = [], FullPath = [], gf_FileSize = 0, Sectors = [],
     SectorCount = 0, Attributes = \<lparr>ga_Hidden = False, ga_Directory = False, ga_ReadOnly = False,
     ga_Archive = False\<rparr>, Disk = None, Found = False\<rparr>"

section \<open>The parts of a path\<close>

text \<open>The lengths of the pieces between separators; the piece in front of the first is the drive.\<close>

definition is_separator :: "u8 \<Rightarrow> bool" where
  "is_separator c \<longleftrightarrow> c = 0x2F \<or> c = 0x5C"

fun split_path :: "u8 list \<Rightarrow> u64 \<Rightarrow> u64 list \<Rightarrow> u64 \<Rightarrow> u64 \<times> u64 list" where
  "split_path [] Subdirectories SectionSpacing CurrentSpacing =
     (Subdirectories, SectionSpacing @ [CurrentSpacing])"
| "split_path (c # cs) Subdirectories SectionSpacing CurrentSpacing =
     (if is_separator c
      then split_path cs (Subdirectories + 1) (SectionSpacing @ [CurrentSpacing]) 0
      else split_path cs Subdirectories SectionSpacing (CurrentSpacing + 1))"

section \<open>The names of entries\<close>

text \<open>The characters of a long name: every other byte of the three fields, 0x00 and 0xFF left out,
  from the last entry to the first.\<close>

fun every_other :: "bool \<Rightarrow> u8 list \<Rightarrow> bool \<times> u8 list" where
  "every_other Skip [] = (Skip, [])"
| "every_other Skip (c # cs) =
     (let (s, r) = every_other (\<not> Skip) cs
      in (s, if \<not> Skip \<and> c \<noteq> 0x00 \<and> c \<noteq> 0xFF then c # r else r))"

definition entry_chars :: "bool \<Rightarrow> LongFileNameEntry \<Rightarrow> bool \<times> u8 list" where
  "entry_chars Skip e =
     (let (Skip, a) = every_other Skip (FileName1 e);
          (Skip, b) = every_other Skip (FileName2 e);
          (Skip, c) = every_other Skip (FileName3 e)
      in (Skip, a @ b @ c))"

fun long_chars :: "bool \<Rightarrow> LongFileNameEntry list \<Rightarrow> u8 list" where
  "long_chars Skip [] = []"
| "long_chars Skip (e # es) = (let (Skip, cs) = entry_chars Skip e in cs @ long_chars Skip es)"

definition long_size :: "LongFileNameEntry list \<Rightarrow> u64" where
  "long_size es = of_nat (length (long_chars False (rev es)))"

text \<open>Bytes written one after another into a buffer, at a position held in a byte.\<close>

definition put_chars :: "u8 list \<Rightarrow> u8 list \<Rightarrow> u8 list" where
  "put_chars buf cs = fold (\<lambda>(i, c) b. b[i mod 256 := c]) (zip [0..<length cs] cs) buf"

definition long_name :: "(nat \<Rightarrow> u8) \<Rightarrow> LongFileNameEntry list \<Rightarrow> u8 list" where
  "long_name junk es =
     put_chars (map junk [0..<unat (long_size es)]) (long_chars False (rev es))"

definition is_directory :: "DirectoryEntry \<Rightarrow> bool" where
  "is_directory e = CheckForAttribute (rde_FileAttributes (RDE e)) FAT32DirEntry_DirectoryM False"

definition is_system :: "DirectoryEntry \<Rightarrow> bool" where
  "is_system e = CheckForAttribute (rde_FileAttributes (RDE e)) FAT32DirEntry_System_FileM False"

text \<open>The size of a short name counts a dot for everything but directories.\<close>

definition short_size :: "DirectoryEntry \<Rightarrow> u8" where
  "short_size e =
     (if \<not> is_directory e then 1 else 0)
     + of_nat (length (filter (\<lambda>c. c \<noteq> 0x20) (FileName (RDE e))))"

definition lower :: "u8 \<Rightarrow> u8" where
  "lower c = (if c \<ge> 0x41 \<and> c \<le> 0x5A then c + 0x20 else c)"

text \<open>The dot goes where the first blank is; a name of eight characters gets none.\<close>

fun short_chars :: "bool \<Rightarrow> bool \<Rightarrow> nat \<Rightarrow> u8 list \<Rightarrow> u8 list" where
  "short_chars dir CountedExtention room [] = []"
| "short_chars dir CountedExtention room (c # cs) =
     (if room = 0 then []
      else if c \<noteq> 0x20 then lower c # short_chars dir CountedExtention (room - 1) cs
      else if \<not> CountedExtention \<and> \<not> dir then 0x2E # short_chars dir True (room - 1) cs
      else short_chars dir CountedExtention room cs)"

definition short_name :: "(nat \<Rightarrow> u8) \<Rightarrow> DirectoryEntry \<Rightarrow> u8 list" where
  "short_name junk e =
     (let n = unat (short_size e); cs = short_chars (is_directory e) False n (FileName (RDE e))
      in cs @ map junk [length cs..<n])"

text \<open>The name buffer, when the sizes agree, and whether it equals the piece of the path.\<close>

definition match_entry ::
  "(nat \<Rightarrow> u8) \<Rightarrow> u8 list \<Rightarrow> u64 \<Rightarrow> u64 \<Rightarrow> DirectoryEntry \<Rightarrow> u8 list \<times> bool"
where
  "match_entry junk Path OffsetIntoPath spacing e =
     (if length (LFNE e) > 0
      then if long_size (LFNE e) = spacing
           then let EntryName = long_name junk (LFNE e)
                in (EntryName, EntryName = take (length EntryName) (drop (unat OffsetIntoPath) Path))
           else ([], False)
      else if ucast (short_size e) = spacing
           then let EntryName = short_name junk e
                in (EntryName, EntryName = take (length EntryName) (drop (unat OffsetIntoPath) Path))
           else ([], False))"

text \<open>The first cluster: the high half is shifted up and then masked to bits that are zero.\<close>

definition first_cluster :: "DirectoryEntry \<Rightarrow> u32" where
  "first_cluster e =
     (push_bit 16 (ucast (High2BytesOfAddressOfFirstCluster (RDE e))) AND 0xFF00)
     OR ucast (Low2BytesOfAddressOfFirstCluster (RDE e))"

section \<open>Filling in a file\<close>

definition extension_position :: "u8 list \<Rightarrow> u64 \<Rightarrow> nat" where
  "extension_position EntryName spacing =
     (case List.find (\<lambda>x. EntryName ! x = 0x2E) (rev [0..<unat spacing]) of Some x \<Rightarrow> x | None \<Rightarrow> 0)"

definition file_sectors :: "FAT32_MBR \<Rightarrow> u32 list \<Rightarrow> u64 list" where
  "file_sectors b Entries =
     concat (map (\<lambda>c. map (\<lambda>s. ucast (c * ucast (SectorsPerCluster b) + of_nat s))
                        [0..<unat (SectorsPerCluster b)]) Entries)"

definition make_file ::
  "'d block_op \<Rightarrow> (nat \<Rightarrow> u64) \<Rightarrow> Fat32Partition \<Rightarrow> u8 list \<Rightarrow> u64 \<Rightarrow> DirectoryEntry \<Rightarrow> u8 list \<Rightarrow> 'd fs
    \<Rightarrow> (GeneralFile \<times> 'd fs) option"
where
  "make_file rd alloc p Path spacing e EntryName s =
     (let x = extension_position EntryName spacing;
          a = rde_FileAttributes (RDE e)
      in case ScanForEntries rd alloc p (ucast (first_cluster e)) s of
           None \<Rightarrow> None
         | Some (None, s) \<Rightarrow> None
         | Some (Some Entries, s) \<Rightarrow>
             Some (\<lparr>gf_Name = (if x \<noteq> 0 then take x EntryName else take (unat spacing) EntryName),
                    Extention = (if x \<noteq> 0 then drop (x + 1) (take (unat spacing) EntryName) else []),
                    FullPath = Path, gf_FileSize = ucast (rde_FileSize (RDE e)),
                    Sectors = file_sectors (rMBR p) Entries,
                    SectorCount = of_nat (length Entries) * ucast (SectorsPerCluster (rMBR p)),
                    Attributes = \<lparr>ga_Hidden = CheckForAttribute a FAT32DirEntry_HiddenM False,
                      ga_Directory = CheckForAttribute a FAT32DirEntry_DirectoryM False,
                      ga_ReadOnly = CheckForAttribute a FAT32DirEntry_Read_OnlyM False,
                      ga_Archive = CheckForAttribute a FAT32DirEntry_ArchiveM False\<rparr>,
                    Disk = Some p, Found = True\<rparr>, s))"

text \<open>
  The loop over the entries of a directory; \<open>left\<close> is the number of pieces below this one. A match
  on a directory goes on with the next entry, a match on a file returns it: the result is the file
  or the cluster to go on with.
\<close>

definition candidate :: "u64 \<Rightarrow> DirectoryEntry \<Rightarrow> bool" where
  "candidate left e \<longleftrightarrow>
     (left > 0 \<and> is_directory e \<and> \<not> is_system e) \<or> (left = 0 \<and> \<not> is_directory e \<and> \<not> is_system e)"

fun search_entries ::
  "'d block_op \<Rightarrow> (nat \<Rightarrow> u64) \<Rightarrow> (nat \<Rightarrow> u8) \<Rightarrow> Fat32Partition \<Rightarrow> u8 list \<Rightarrow> u64 \<Rightarrow> u64 \<Rightarrow> u64
    \<Rightarrow> DirectoryEntry list \<Rightarrow> u32 \<Rightarrow> 'd fs \<Rightarrow> ((GeneralFile + u32) \<times> 'd fs) option"
where
  "search_entries rd alloc junk p Path OffsetIntoPath spacing left [] NewClusterPosition s =
     Some (Inr NewClusterPosition, s)"
| "search_entries rd alloc junk p Path OffsetIntoPath spacing left (e # es) NewClusterPosition s =
     (if \<not> candidate left e
      then search_entries rd alloc junk p Path OffsetIntoPath spacing left es NewClusterPosition s
      else
        let (EntryName, CorrectEntry) = match_entry junk Path OffsetIntoPath spacing e in
        if \<not> CorrectEntry
        then search_entries rd alloc junk p Path OffsetIntoPath spacing left es NewClusterPosition s
        else if left = 0
        then map_option (\<lambda>(File, s). (Inl File, s)) (make_file rd alloc p Path spacing e EntryName s)
        else search_entries rd alloc junk p Path OffsetIntoPath spacing left es (first_cluster e) s)"

text \<open>One directory: its clusters, its entries, the search. \<open>Inl\<close> of an empty file is a failed read.\<close>

definition search_root ::
  "'d block_op \<Rightarrow> (nat \<Rightarrow> u64) \<Rightarrow> (nat \<Rightarrow> u8) \<Rightarrow> Fat32Partition \<Rightarrow> u8 list \<Rightarrow> u64 list \<Rightarrow> u64 \<Rightarrow> 'd fs
    \<Rightarrow> ((GeneralFile + u32) \<times> 'd fs) option"
where
  "search_root rd alloc junk p Path SectionSpacing Subdirectories s =
     (case ScanForEntries rd alloc p 0 s of
        None \<Rightarrow> None
      | Some (None, s) \<Rightarrow> Some (Inl empty_file, s)
      | Some (Some RootClusters, s) \<Rightarrow>
          case ReadDirectoryEntries rd alloc p RootClusters s of
            None \<Rightarrow> None
          | Some (None, s) \<Rightarrow> Some (Inl empty_file, s)
          | Some (Some RootDirectory, s) \<Rightarrow>
              if RootDirectory = [] then Some (Inr 0, s)
              else if SectionSpacing = [] then None
              else search_entries rd alloc junk p Path 3 (SectionSpacing ! 0) Subdirectories RootDirectory 0 s)"

definition search_subdirectory ::
  "'d block_op \<Rightarrow> (nat \<Rightarrow> u64) \<Rightarrow> (nat \<Rightarrow> u8) \<Rightarrow> Fat32Partition \<Rightarrow> u8 list \<Rightarrow> u64 list \<Rightarrow> u64 \<Rightarrow> u64 \<Rightarrow> nat
    \<Rightarrow> u32 \<Rightarrow> 'd fs \<Rightarrow> ((GeneralFile + u32) \<times> 'd fs) option"
where
  "search_subdirectory rd alloc junk p Path SectionSpacing Subdirectories OffsetIntoPath d NewClusterPosition s =
     (case ScanForEntries rd alloc p (ucast NewClusterPosition) s of
        None \<Rightarrow> None
      | Some (None, s) \<Rightarrow> Some (Inl empty_file, s)
      | Some (Some DirectoryClusters, s) \<Rightarrow>
          case ReadDirectoryEntries rd alloc p DirectoryClusters s of
            None \<Rightarrow> None
          | Some (None, s) \<Rightarrow> Some (Inl empty_file, s)
          | Some (Some Directory, s) \<Rightarrow>
              if Directory = [] then Some (Inr NewClusterPosition, s)
              else if length SectionSpacing \<le> d + 1 then None
              else search_entries rd alloc junk p Path OffsetIntoPath (SectionSpacing ! (d + 1))
                     (Subdirectories - (of_nat d + 1)) Directory NewClusterPosition s)"

fun descend_path ::
  "'d block_op \<Rightarrow> (nat \<Rightarrow> u64) \<Rightarrow> (nat \<Rightarrow> u8) \<Rightarrow> Fat32Partition \<Rightarrow> u8 list \<Rightarrow> u64 list \<Rightarrow> u64 \<Rightarrow> u64
    \<Rightarrow> nat list \<Rightarrow> u32 \<Rightarrow> 'd fs \<Rightarrow> (GeneralFile \<times> 'd fs) option"
where
  "descend_path rd alloc junk p Path SectionSpacing Subdirectories OffsetIntoPath [] NewClusterPosition s =
     Some (empty_file, s)"
| "descend_path rd alloc junk p Path SectionSpacing Subdirectories OffsetIntoPath (d # ds) NewClusterPosition s =
     (let OffsetIntoPath = OffsetIntoPath + (SectionSpacing ! d + 1) in
      case search_subdirectory rd alloc junk p Path SectionSpacing Subdirectories OffsetIntoPath d NewClusterPosition s of
        None \<Rightarrow> None
      | Some (Inl File, s) \<Rightarrow> Some (File, s)
      | Some (Inr NewClusterPosition, s) \<Rightarrow>
          descend_path rd alloc junk p Path SectionSpacing Subdirectories OffsetIntoPath ds NewClusterPosition s)"

definition ResolveFile ::
  "'d block_op \<Rightarrow> (nat \<Rightarrow> u64) \<Rightarrow> (nat \<Rightarrow> u8) \<Rightarrow> Fat32Partition \<Rightarrow> u8 list \<Rightarrow> 'd fs \<Rightarrow> (GeneralFile \<times> 'd fs) option"
where
  "ResolveFile rd alloc junk p Path s =
     (if Path \<noteq> [] \<and> sint (Path ! 0) = int (unat (rMount (device p))) + 0x41
      then
        let (Subdirectories, SectionSpacing) = split_path Path 0 [] 0;
            SectionSpacing = tl SectionSpacing;
            Subdirectories = Subdirectories - 1
        in case search_root rd alloc junk p Path SectionSpacing Subdirectories s of
             None \<Rightarrow> None
           | Some (Inl File, s) \<Rightarrow> Some (File, s)
           | Some (Inr NewClusterPosition, s) \<Rightarrow>
               if unat Subdirectories > length SectionSpacing then None
               else descend_path rd alloc junk p Path SectionSpacing Subdirectories 3
                      [0..<unat Subdirectories] NewClusterPosition s
      else Some (empty_file, s))"

text \<open>\<^verbatim>\<open>ResolveDir\<close> is not implemented: it always returns an empty directory.\<close>

section \<open>Opening a volume\<close>

text \<open>
  The constructor on a fresh object; the flags are compared as a whole after the shift. The name is
  the one of the first entry of the root directory, when it is a short one.
\<close>

definition Fat32_flags :: "u64 \<Rightarrow> PartitionFlags" where
  "Fat32_flags f = \<lparr>Hidden = (drop_bit 62 f = 1), AutoMount = (\<not> drop_bit 63 f = 1), ReadOnly = (drop_bit 60 f = 1)\<rparr>"

definition new_Fat32Partition ::
  "'d block_op \<Rightarrow> (nat \<Rightarrow> u64) \<Rightarrow> GPTPartitonEntry \<Rightarrow> u64 \<Rightarrow> u64 \<Rightarrow> u8 list \<Rightarrow> u8 list \<Rightarrow> PartitionDevice \<Rightarrow> 'd fs
    \<Rightarrow> (Fat32Partition \<times> 'd fs) option"
where
  "new_Fat32Partition rd alloc Partition disk BootSector stack1 stack2 fresh s =
     (let dv = construct_PartitionDevice (StartLBA Partition) (EndLBA Partition) disk stack1 stack2 fresh;
          dv = dv\<lparr>rFlags := Fat32_flags (gpt_Flags Partition), rFormat := PARTITION_FAT_32\<rparr>;
          p = \<lparr>device = dv, rMBR = read_FAT32_MBR (fs_memory s) BootSector\<rparr>
      in case ScanForEntries rd alloc p 0 s of
           None \<Rightarrow> None
         | Some (None, s) \<Rightarrow> Some (p, s)
         | Some (Some RootClusters, s) \<Rightarrow>
             case ReadDirectoryEntries rd alloc p RootClusters s of
               None \<Rightarrow> None
             | Some (None, s) \<Rightarrow> Some (p, s)
             | Some (Some [], s) \<Rightarrow> None
             | Some (Some (e # es), s) \<Rightarrow>
                 Some (if LFNE e \<noteq> [] then p
                       else p\<lparr>device := dv\<lparr>PartitionName := FileName (RDE e)\<rparr>\<rparr>, s))"

section \<open>Searching a directory\<close>

abbreviation entry_hit :: "(nat \<Rightarrow> u8) \<Rightarrow> u8 list \<Rightarrow> u64 \<Rightarrow> u64 \<Rightarrow> u64 \<Rightarrow> DirectoryEntry \<Rightarrow> bool" where
  "entry_hit junk Path off spacing left e \<equiv> candidate left e \<and> snd (match_entry junk Path off spacing e)"

lemma search_none:
  "\<forall>e \<in> set es. \<not> entry_hit junk Path off spacing left e \<Longrightarrow>
    search_entries rd alloc junk p Path off spacing left es cl s = Some (Inr cl, s)"
  by (induction es) (auto split: prod.splits)

lemma search_skip:
  "\<forall>e \<in> set xs. \<not> entry_hit junk Path off spacing left e \<Longrightarrow>
    search_entries rd alloc junk p Path off spacing left (xs @ es) cl s
    = search_entries rd alloc junk p Path off spacing left es cl s"
  by (induction xs) (auto split: prod.splits)

lemma search_first_file:
  assumes "\<forall>e \<in> set xs. \<not> entry_hit junk Path off spacing 0 e" and "entry_hit junk Path off spacing 0 e"
  shows "search_entries rd alloc junk p Path off spacing 0 (xs @ e # ys) cl s
    = map_option (\<lambda>(File, s). (Inl File, s))
        (make_file rd alloc p Path spacing e (fst (match_entry junk Path off spacing e)) s)"
  using assms(2) by (cases "match_entry junk Path off spacing e") (simp add: search_skip [OF assms(1)])

lemma listing_fold:
  "map RDE (snd (fold (read_slot m Data) js st)) = map RDE (snd st) @
     map (\<lambda>j. read_RDE m (Data + of_nat j * 32))
       (filter (\<lambda>j. let r = read_RDE m (Data + of_nat j * 32) in
                 FileName r ! 0 \<noteq> 0x00 \<and> FileName r ! 0 \<noteq> 0xE5 \<and> rde_FileAttributes r AND 1 = 0) js)"
  by (induction js arbitrary: st) (auto simp: read_slot_def Let_def split: prod.splits)

section \<open>Properties\<close>



lemma ones_listing:
  assumes "\<forall>k < 512. m (0x100000 + word_of_nat k) = (0xFF :: u8)"
  shows "snd (fold (read_slot m 0x100000) [0..<16] ([], [])) = []"
proof -
  have "rde_FileAttributes (read_RDE m (0x100000 + of_nat j * 32)) = 0xFF" if "j < 16" for j
  proof -
    have "0x100000 + of_nat j * 32 + 11 = (0x100000 + word_of_nat (j * 32 + 11) :: u64)" by simp
    then show ?thesis using assms [rule_format, of "j * 32 + 11"] that by (simp add: read_RDE_def)
  qed
  then have "\<forall>j < 16. rde_FileAttributes (read_RDE m (0x100000 + of_nat j * 32)) AND 1 \<noteq> 0" by simp
  then have "map RDE (snd (fold (read_slot m 0x100000) [0..<16] ([], []))) = []"
    unfolding listing_fold by (auto simp: filter_empty_conv Let_def)
  then show ?thesis by simp
qed


text \<open>A file name with eight characters in front of an extension of three cannot be matched
  reliably: the dot is counted in its size but never written, so the last byte compared is whatever
  the fresh buffer held.\<close>

theorem short_name_eight:
  assumes "length (FileName (RDE e)) = 11" and "0x20 \<notin> set (FileName (RDE e))" and "\<not> is_directory e"
  shows "short_name junk e = map lower (FileName (RDE e)) @ [junk 11]"
proof -
  have f: "filter (\<lambda>c. c \<noteq> 0x20) (FileName (RDE e)) = FileName (RDE e)"
    using assms(2) by (intro filter_True) auto
  have n: "unat (short_size e) = 12" using assms(1,3) f by (simp add: short_size_def)
  have "short_chars dir c k cs = map lower cs" if "0x20 \<notin> set cs" "length cs \<le> k" for dir c k cs
    using that by (induction cs arbitrary: k) auto
  then have "short_chars (is_directory e) False 12 (FileName (RDE e)) = map lower (FileName (RDE e))"
    using assms(1,2) by simp
  then show ?thesis using assms(1) by (simp add: short_name_def n Let_def)
qed

theorem short_name_eight_witness:
  "short_name junk \<lparr>RDE = (read_RDE (\<lambda>_. 0) 0)\<lparr>FileName := [0x4B, 0x45, 0x52, 0x4E, 0x45, 0x4C, 0x36, 0x34, 0x45, 0x4C, 0x46]\<rparr>, LFNE = []\<rparr>
    = [0x6B, 0x65, 0x72, 0x6E, 0x65, 0x6C, 0x36, 0x34, 0x65, 0x6C, 0x66, junk 11]"
  using short_name_eight [of "\<lparr>RDE = (read_RDE (\<lambda>_. 0) 0)\<lparr>FileName := [0x4B, 0x45, 0x52, 0x4E, 0x45, 0x4C, 0x36, 0x34, 0x45, 0x4C, 0x46]\<rparr>, LFNE = []\<rparr>" junk]
  by (simp add: lower_def is_directory_def CheckForAttribute_def read_RDE_def)
end
