(* ===== verification/Volumes.thy ===== *)
theory Volumes
  imports FatResolve
begin

text \<open>
  The volume manager and the discovery of partitions: \<^verbatim>\<open>src/fs/VolumeManager.cpp\<close> with
  \<^verbatim>\<open>GPTCreatePartition\<close> and \<^verbatim>\<open>InitializePartitions\<close> of \<^verbatim>\<open>src/fs/DiskDevice.cpp\<close>. Disks and
  partitions are objects in stores, by their addresses; 0 is the null pointer. \<open>rd a\<close> reads the disk
  at \<open>a\<close>.
\<close>

section \<open>State\<close>

record Volume =
  Mounted :: bool
  MountPoint :: u8
  vol_Disk :: u64

definition new_Volume :: Volume where
  "new_Volume = \<lparr>Mounted = False, MountPoint = 0xFF, vol_Disk = 0\<rparr>"

definition Volume_Mount :: "u8 \<Rightarrow> u64 \<Rightarrow> Volume \<Rightarrow> Volume" where
  "Volume_Mount MountP disk v = v\<lparr>Mounted := True, MountPoint := MountP, vol_Disk := disk\<rparr>"

record 'd files =
  disks :: "u64 \<Rightarrow> disk"
  disk_partitions :: "u64 \<Rightarrow> u64 list"
  parts :: "u64 \<Rightarrow> Fat32Partition"
  the_machine :: "'d machine"
  mallocs :: nat
  VM_Volumes :: "nat \<Rightarrow> Volume option"
  VM_Partitions :: "nat \<Rightarrow> u64"
  NextFreeDiskMount :: u8
  NextFreePartitionMount :: u8

text \<open>A call on one disk, and its effects put back.\<close>

definition to_fs :: "u64 \<Rightarrow> 'd files \<Rightarrow> 'd fs" where
  "to_fs dk s = \<lparr>fs_disk = disks s dk, fs_machine = the_machine s, fs_mallocs = mallocs s\<rparr>"

definition from_fs :: "u64 \<Rightarrow> 'd fs \<Rightarrow> 'd files \<Rightarrow> 'd files" where
  "from_fs dk f s = s\<lparr>disks := (disks s)(dk := fs_disk f), the_machine := fs_machine f, mallocs := fs_mallocs f\<rparr>"

section \<open>Mount points\<close>

definition wrap26 :: "u8 \<Rightarrow> u8" where
  "wrap26 n = (if n \<ge> 26 then n - 26 else n)"

definition IsDiskMountFree :: "'d files \<Rightarrow> u8 \<Rightarrow> bool" where
  "IsDiskMountFree s m \<longleftrightarrow> VM_Volumes s (unat m) = None"

definition IsPartitionMountFree :: "'d files \<Rightarrow> u8 \<Rightarrow> bool" where
  "IsPartitionMountFree s m \<longleftrightarrow> VM_Partitions s (unat m) = 0"

text \<open>The loop over 26 mount points from the next one; the result and the new next one.\<close>

primrec scan_mounts :: "nat \<Rightarrow> (u8 \<Rightarrow> bool) \<Rightarrow> u8 \<Rightarrow> u8 \<times> u8" where
  "scan_mounts 0 is_free nxt = (0xFF, nxt)"
| "scan_mounts (Suc k) is_free nxt =
     (let nxt = wrap26 nxt in if is_free nxt then (nxt, nxt) else scan_mounts k is_free (nxt + 1))"

definition next_free :: "(u8 \<Rightarrow> bool) \<Rightarrow> u8 \<Rightarrow> u8 \<times> u8" where
  "next_free is_free nxt =
     (let nxt = wrap26 nxt in
      if is_free nxt then (let nxt = nxt + 1 in (nxt - 1, nxt)) else scan_mounts 26 is_free nxt)"

definition GetNextFreeDiskMount :: "'d files \<Rightarrow> u8 \<times> 'd files" where
  "GetNextFreeDiskMount s =
     (let (m, n) = next_free (IsDiskMountFree s) (NextFreeDiskMount s) in (m, s\<lparr>NextFreeDiskMount := n\<rparr>))"

definition GetNextFreePartitonMount :: "'d files \<Rightarrow> u8 \<times> 'd files" where
  "GetNextFreePartitonMount s =
     (let (m, n) = next_free (IsPartitionMountFree s) (NextFreePartitionMount s)
      in (m, s\<lparr>NextFreePartitionMount := n\<rparr>))"

section \<open>Mounting\<close>

definition MountPartition :: "u64 \<Rightarrow> u8 \<Rightarrow> 'd files \<Rightarrow> bool \<times> 'd files" where
  "MountPartition ptr MPoint s =
     (if MPoint = 0xFF then
        let (M, s) = GetNextFreePartitonMount s in
        if M \<noteq> 0xFF \<and> M < 26 then
          let s = s\<lparr>VM_Partitions := (VM_Partitions s)(unat M := ptr)\<rparr>;
              p = parts s ptr
          in (True, s\<lparr>parts := (parts s)(ptr := p\<lparr>device := part_MountPartition M (device p)\<rparr>)\<rparr>)
        else (False, s)
      else if MPoint > 25 then (False, s)
      else if IsPartitionMountFree s MPoint
      then (True, s\<lparr>VM_Partitions := (VM_Partitions s)(unat MPoint := ptr)\<rparr>)
      else (False, s))"

text \<open>
  The partition behind a table entry: 0 when its type or its file system is not known. \<open>fresh\<close> is
  the object's memory before it is constructed.
\<close>

definition GPTCreatePartition ::
  "(u64 \<Rightarrow> 'd block_op) \<Rightarrow> (nat \<Rightarrow> u64) \<Rightarrow> u8 list \<Rightarrow> u8 list \<Rightarrow> PartitionDevice \<Rightarrow> GPTPartitonEntry \<Rightarrow> u64 \<Rightarrow> 'd files
    \<Rightarrow> (u64 \<times> 'd files) option"
where
  "GPTCreatePartition rd alloc stack1 stack2 fresh Entry diskDev s =
     (let Guid = read_GUID (\<lambda>i. TypeGUID Entry ! unat i) 0; PartType = GetGUIDType Guid in
      if PartType = BASIC_DATA_PARITITON then
        let f = to_fs diskDev s; (BootSector, f) = fs_malloc alloc f in
        case ReadBlocks (rd diskDev) (StartLBA Entry) 1 BootSector (fs_disk f, fs_machine f) of
          None \<Rightarrow> None
        | Some (d, m) \<Rightarrow>
            let f = f\<lparr>fs_disk := d, fs_machine := m\<rparr> in
            if Get8Byte (fst m) BootSector 82 = 0x4641543332202020
            then
              let (this, f) = fs_malloc alloc f in
              case new_Fat32Partition (rd diskDev) alloc Entry diskDev BootSector stack1 stack2 fresh f of
                None \<Rightarrow> None
              | Some (p, f) \<Rightarrow> Some (this, (from_fs diskDev f s)\<lparr>parts := (parts s)(this := p)\<rparr>)
            else Some (0, from_fs diskDev f s)
      else Some (0, s))"

fun init_entries ::
  "(u64 \<Rightarrow> 'd block_op) \<Rightarrow> (nat \<Rightarrow> u64) \<Rightarrow> u8 list \<Rightarrow> u8 list \<Rightarrow> PartitionDevice \<Rightarrow> u64 \<Rightarrow> u64 \<Rightarrow> nat list
    \<Rightarrow> 'd files \<Rightarrow> 'd files option"
where
  "init_entries rd alloc stack1 stack2 fresh this Partitions [] s = Some s"
| "init_entries rd alloc stack1 stack2 fresh this Partitions (i # is) s =
     (let e = read_GPTPartitonEntry (fst (the_machine s)) (Partitions + of_nat i * 128) in
      if TypeGUID e ! 0 \<noteq> 0x00 then
        case GPTCreatePartition rd alloc stack1 stack2 fresh e this s of
          None \<Rightarrow> None
        | Some (partitionOut, s) \<Rightarrow>
            if partitionOut = 0 then init_entries rd alloc stack1 stack2 fresh this Partitions is s
            else
              let s = s\<lparr>disk_partitions := (disk_partitions s)(this := disk_partitions s this @ [partitionOut])\<rparr>;
                  fl = rFlags (device (parts s partitionOut));
                  s = (if AutoMount fl \<and> \<not> Hidden fl then snd (MountPartition partitionOut 0xFF s) else s)
              in init_entries rd alloc stack1 stack2 fresh this Partitions is s
      else init_entries rd alloc stack1 stack2 fresh this Partitions is s)"

text \<open>The entries are read a whole number of blocks at a time, and indexed in steps of 128 bytes.\<close>

definition InitializePartitions ::
  "(u64 \<Rightarrow> 'd block_op) \<Rightarrow> (nat \<Rightarrow> u64) \<Rightarrow> u8 list \<Rightarrow> u8 list \<Rightarrow> PartitionDevice \<Rightarrow> u64 \<Rightarrow> 'd files \<Rightarrow> 'd files option"
where
  "InitializePartitions rd alloc stack1 stack2 fresh this s =
     (let f = to_fs this s; (Header, f) = fs_malloc alloc f in
      case ReadBlocks (rd this) 1 1 Header (fs_disk f, fs_machine f) of
        None \<Rightarrow> None
      | Some (d, m) \<Rightarrow>
          let f = f\<lparr>fs_disk := d, fs_machine := m\<rparr>; h = read_GPTHeader (fst m) Header in
          if gpt_Signature h = GPT_HEADER_SIGNATURE_BIG_ENDIAN then
            let (Partitions, f) = fs_malloc alloc f in
            case ReadBlocks (rd this) (PartitionTableLBA h)
                   (ucast ((PartNum h * PartEntrySize h) div ucast (blocksize (fs_disk f)))) Partitions
                   (fs_disk f, fs_machine f) of
              None \<Rightarrow> None
            | Some (d, m) \<Rightarrow>
                let s = from_fs this (f\<lparr>fs_disk := d, fs_machine := m\<rparr>) s
                in init_entries rd alloc stack1 stack2 fresh this Partitions [0..<unat (PartNum h)] s
          else Some (from_fs this f s))"

definition MountVolume ::
  "(u64 \<Rightarrow> 'd block_op) \<Rightarrow> (nat \<Rightarrow> u64) \<Rightarrow> u8 list \<Rightarrow> u8 list \<Rightarrow> PartitionDevice \<Rightarrow> u64 \<Rightarrow> 'd files
    \<Rightarrow> (bool \<times> 'd files) option"
where
  "MountVolume rd alloc stack1 stack2 fresh disk s =
     (let (M, s) = GetNextFreeDiskMount s in
      if M \<noteq> 0xFF then
        let s = s\<lparr>VM_Volumes := (VM_Volumes s)(unat M := Some (Volume_Mount M disk new_Volume))\<rparr>
        in map_option (\<lambda>s. (True, s)) (InitializePartitions rd alloc stack1 stack2 fresh disk s)
      else Some (False, s))"

section \<open>Resolving paths\<close>

text \<open>The drive letter is a signed difference, checked from above only.\<close>

definition drive_index :: "u8 list \<Rightarrow> int" where
  "drive_index Path = (if Path = [] then 0 else sint (Path ! 0)) - 0x41"

definition VolumeManager_ResolveFile ::
  "(u64 \<Rightarrow> 'd block_op) \<Rightarrow> (nat \<Rightarrow> u64) \<Rightarrow> (nat \<Rightarrow> u8) \<Rightarrow> u8 list \<Rightarrow> 'd files \<Rightarrow> (GeneralFile \<times> 'd files) option"
where
  "VolumeManager_ResolveFile rd alloc junk Path s =
     (if drive_index Path < 0x1A then
        if drive_index Path < 0 then None
        else
          let q = VM_Partitions s (nat (drive_index Path)) in
          if q \<noteq> 0 then
            let dk = ParentDisk (device (parts s q))
            in map_option (\<lambda>(File, f). (File, from_fs dk f s))
                 (ResolveFile (rd dk) alloc junk (parts s q) Path (to_fs dk s))
          else Some (empty_file, s)
      else Some (empty_file, s))"

text \<open>\<^verbatim>\<open>ResolveDir\<close> indexes the table with the letter itself; its result is always an empty directory.\<close>

definition VolumeManager_ResolveDir :: "u8 list \<Rightarrow> unit option" where
  "VolumeManager_ResolveDir Path =
     (if drive_index Path < 0x1A then
        if 0 \<le> drive_index Path + 0x41 \<and> drive_index Path + 0x41 < 26 then Some () else None
      else Some ())"

section \<open>Free mount points\<close>

lemma wrap26_less: "nxt \<le> 26 \<Longrightarrow> wrap26 nxt < 26"
proof -
  assume "nxt \<le> 26"
  then have u: "unat nxt \<le> 26" by (simp add: word_le_nat_alt)
  show ?thesis
  proof (cases "nxt \<ge> 26")
    case True
    then have "unat nxt = 26" using u by (simp add: word_le_nat_alt)
    then have "nxt = 26" by (simp add: word_eq_iff_unat)
    then show ?thesis by (simp add: wrap26_def)
  next
    case False
    then show ?thesis by (simp add: wrap26_def)
  qed
qed

lemma wrap26_id: "x < 26 \<Longrightarrow> wrap26 x = x"
  by (auto simp: wrap26_def dest: leD)

text \<open>The mount points the loop visits in \<open>k\<close> steps from \<open>nxt\<close>.\<close>

lemma scan_mounts_result:
  assumes "nxt \<le> 26"
  shows "snd (scan_mounts k is_free nxt) \<le> 26
    \<and> (fst (scan_mounts k is_free nxt) = 0xFF \<and> (\<forall>i < k. \<not> is_free (of_nat ((unat (wrap26 nxt) + i) mod 26)))
       \<or> fst (scan_mounts k is_free nxt) < 26 \<and> is_free (fst (scan_mounts k is_free nxt)))"
  using assms
proof (induction k arbitrary: nxt)
  case 0
  then show ?case by simp
next
  case (Suc k)
  define w where "w = wrap26 nxt"
  have w: "w < 26" using wrap26_less [OF Suc.prems] by (simp add: w_def)
  then have wu: "unat w < 26" by (simp add: word_less_nat_alt)
  show ?case
  proof (cases "is_free w")
    case True
    then show ?thesis using w by (simp add: w_def [symmetric] Let_def less_imp_le)
  next
    case False
    have s: "unat (w + 1) = unat w + 1" using wu by (subst unat_add_no_wrap) simp_all
    then have le: "w + 1 \<le> 26" using wu by (simp add: word_le_nat_alt)
    have ww: "unat (wrap26 (w + 1)) = (unat w + 1) mod 26"
    proof (cases "unat w = 25")
      case True
      then have "w = 25" by (simp add: word_eq_iff_unat)
      then show ?thesis by (simp add: wrap26_def)
    next
      case False
      then show ?thesis using s wu by (simp add: wrap26_def word_le_nat_alt)
    qed
    have r: "scan_mounts (Suc k) is_free nxt = scan_mounts k is_free (w + 1)"
      using False by (simp add: w_def Let_def)
    have "\<forall>i < Suc k. \<not> is_free (of_nat ((unat w + i) mod 26))"
      if "\<forall>i < k. \<not> is_free (of_nat ((unat (wrap26 (w + 1)) + i) mod 26))"
    proof (intro allI impI)
      fix i
      assume "i < Suc k"
      show "\<not> is_free (of_nat ((unat w + i) mod 26))"
      proof (cases i)
        case 0
        then show ?thesis using False wu by simp
      next
        case (Suc i')
        have "(unat w + i) mod 26 = (unat (wrap26 (w + 1)) + i') mod 26"
          unfolding ww Suc by (simp add: mod_simps)
        then show ?thesis using that [rule_format, of i'] \<open>i < Suc k\<close> Suc by simp
      qed
    qed
    then show ?thesis using Suc.IH [OF le] unfolding r w_def [symmetric] by blast
  qed
qed

lemma next_free_result:
  assumes "nxt \<le> 26"
  shows "snd (next_free is_free nxt) \<le> 26
    \<and> (if \<exists>m < 26. is_free m then fst (next_free is_free nxt) < 26 \<and> is_free (fst (next_free is_free nxt))
       else fst (next_free is_free nxt) = 0xFF)"
proof (cases "is_free (wrap26 nxt)")
  case True
  have "wrap26 nxt < 26" by (rule wrap26_less [OF assms])
  moreover have "wrap26 nxt + 1 \<le> 26"
  proof -
    have "unat (wrap26 nxt) < 26" using calculation by (simp add: word_less_nat_alt)
    moreover from this have "unat (wrap26 nxt + 1) = unat (wrap26 nxt) + 1" by (subst unat_add_no_wrap) simp_all
    ultimately show ?thesis by (simp add: word_le_nat_alt)
  qed
  ultimately show ?thesis using True by (auto simp: next_free_def Let_def)
next
  case False
  have w: "wrap26 nxt < 26" by (rule wrap26_less [OF assms])
  then have ww: "wrap26 (wrap26 nxt) = wrap26 nxt" by (rule wrap26_id)
  have nf: "next_free is_free nxt = scan_mounts 26 is_free (wrap26 nxt)" using False by (simp add: next_free_def Let_def)
  note r = scan_mounts_result [of "wrap26 nxt" 26 is_free, OF less_imp_le [OF w], unfolded ww]
  show ?thesis
  proof (cases "\<exists>m < 26. is_free m")
    case True
    then obtain m where m: "m < 26" "is_free m" by blast
    have mu: "unat m < 26" "unat (wrap26 nxt) < 26" using m w by (simp_all add: word_less_nat_alt)
    define i where "i = (unat m + 26 - unat (wrap26 nxt)) mod 26"
    have "i < 26" by (simp add: i_def)
    moreover have "(unat (wrap26 nxt) + i) mod 26 = unat m" using mu by (simp add: i_def mod_add_right_eq)
    then have "of_nat ((unat (wrap26 nxt) + i) mod 26) = m" by simp
    ultimately show ?thesis using r m True unfolding nf by metis
  next
    case none: False
    have "(0xFF :: u8) \<noteq> x" if "x < 26" for x using that by auto
    then show ?thesis using r none unfolding nf by auto
  qed
qed

section \<open>Properties\<close>

text \<open>C11. Mounting is sound: while a drive letter is free, a partition that is mounted without a letter
  gets one nobody has, no other mount changes, and the path starting with that letter is resolved by
  that partition; with all 26 taken it is refused and nothing changes but the next candidate.\<close>

theorem MountPartition_resolves:
  assumes "NextFreePartitionMount s \<le> 26" and "q \<noteq> 0"
    and "MountPartition q 0xFF s = (r, s')"
  shows "NextFreePartitionMount s' \<le> 26
    \<and> (if \<exists>m < 26. IsPartitionMountFree s m
       then r \<and> (\<exists>M < 26. IsPartitionMountFree s M \<and> VM_Partitions s' = (VM_Partitions s)(unat M := q)
         \<and> rMount (device (parts s' q)) = M
         \<and> (\<forall>rest rd alloc junk. VolumeManager_ResolveFile rd alloc junk ((M + 0x41) # rest) s'
              = map_option (\<lambda>(File, f). (File, from_fs (ParentDisk (device (parts s' q))) f s'))
                  (ResolveFile (rd (ParentDisk (device (parts s' q)))) alloc junk (parts s' q) ((M + 0x41) # rest)
                     (to_fs (ParentDisk (device (parts s' q))) s'))))
       else \<not> r \<and> VM_Partitions s' = VM_Partitions s \<and> parts s' = parts s)"
proof -
  obtain M n where nf: "next_free (IsPartitionMountFree s) (NextFreePartitionMount s) = (M, n)" by fastforce
  note res = next_free_result [OF assms(1), of "IsPartitionMountFree s", unfolded nf fst_conv snd_conv]
  show ?thesis
  proof (cases "\<exists>m < 26. IsPartitionMountFree s m")
    case True
    then have M: "M < 26" "IsPartitionMountFree s M" "n \<le> 26" using res by simp_all
    then have "M \<noteq> 0xFF" by auto
    then have mp: "r" "s' = s\<lparr>NextFreePartitionMount := n, VM_Partitions := (VM_Partitions s)(unat M := q),
        parts := (parts s)(q := (parts s q)\<lparr>device := part_MountPartition M (device (parts s q))\<rparr>)\<rparr>"
      using assms(3) M(1) nf by (simp_all add: MountPartition_def GetNextFreePartitonMount_def Let_def)
    have Mu: "unat M < 26" using M(1) by (simp add: word_less_nat_alt)
    then have u: "unat (M + 0x41) = unat M + 0x41" by (subst unat_add_no_wrap) simp_all
    have uM: "uint M < 26" using M(1) by (simp add: word_less_def)
    have ui: "uint (M + 0x41) = int (unat M + 0x41)" using u by (metis uint_nat)
    then have "sint (M + 0x41) = uint (M + 0x41)"
      using uM by (simp only: sint_uint ui) (subst signed_take_bit_int_eq_self; simp)
    with ui have di: "drive_index ((M + 0x41) # rest) = int (unat M)" for rest by (simp add: drive_index_def)
    show ?thesis
      using True M mp Mu uM assms(2)
      by (auto simp: di VolumeManager_ResolveFile_def Let_def part_MountPartition_def intro!: exI [of _ M])
  next
    case False
    then have "M = 0xFF" "n \<le> 26" using res by simp_all
    then show ?thesis using assms(3) nf False
      by (auto simp: MountPartition_def GetNextFreePartitonMount_def Let_def)
  qed
qed

definition no_files :: "'d machine \<Rightarrow> 'd files" where
  "no_files m = \<lparr>disks = (\<lambda>_. ram_disk 0), disk_partitions = (\<lambda>_. []), parts = (\<lambda>_. undefined),
     the_machine = m, mallocs = 0, VM_Volumes = (\<lambda>_. None), VM_Partitions = (\<lambda>_. 0),
     NextFreeDiskMount = 0, NextFreePartitionMount = 0\<rparr>"

text \<open>The first partition mounted after boot is A.\<close>

theorem MountPartition_resolves_witness:
  "\<forall>m :: nat machine. \<exists>s'. MountPartition 0x1000 0xFF (no_files m) = (True, s') \<and> NextFreePartitionMount s' \<le> 26"
proof (intro allI)
  fix m :: "nat machine"
  show "\<exists>s'. MountPartition 0x1000 0xFF (no_files m) = (True, s') \<and> NextFreePartitionMount s' \<le> 26"
  proof -
    obtain r s' where s': "MountPartition 0x1000 0xFF (no_files m) = (r, s')" by fastforce
    moreover have "\<exists>k < 26. IsPartitionMountFree (no_files m) k"
      by (rule exI [of _ 0]) (simp add: IsPartitionMountFree_def no_files_def)
    ultimately show ?thesis
      using MountPartition_resolves [of "no_files m" "0x1000" r s'] by (cases r) (auto simp: no_files_def)
  qed
qed

text \<open>Mounting at a letter that is asked for registers the partition but never tells it: its own
  mount letter, which \<open>ResolveFile\<close> compares with the path, stays what it was.\<close>

theorem MountPartition_explicit:
  assumes "MPoint \<noteq> 0xFF" and "MountPartition q MPoint s = (True, s')"
  shows "MPoint \<le> 25 \<and> IsPartitionMountFree s MPoint \<and> VM_Partitions s' (unat MPoint) = q \<and> parts s' = parts s"
  using assms by (auto simp: MountPartition_def split: if_splits)

theorem MountPartition_explicit_witness:
  "\<exists>s'. MountPartition 0x1000 3 (no_files m) = (True, s') \<and> VM_Partitions s' 3 = 0x1000 \<and> parts s' = parts (no_files m)"
proof -
  have "MountPartition 0x1000 3 (no_files m) =
      (True, (no_files m)\<lparr>VM_Partitions := (VM_Partitions (no_files m))(unat (3 :: u8) := 0x1000)\<rparr>)"
    by (simp add: MountPartition_def IsPartitionMountFree_def no_files_def)
  then show ?thesis using MountPartition_explicit [of 3 "0x1000" "no_files m"] by simp
qed

end
