(* ===== verification/Ports.thy ===== *)
theory Ports
  imports Kernel_Prelude
begin

text \<open>
  I/O ports: \<^verbatim>\<open>src/IO/port.cpp\<close> and \<^verbatim>\<open>inc/IO/port.h\<close>. The writes that have gone to the bus are a
  list in the order they were issued, and reads are answered by a function of the port and of what
  was written before, the parameter \<open>dev\<close>. The slow ports write a zero to port 0x80 after each byte.
\<close>

datatype port_write = Out8 u16 u8 | Out16 u16 u16 | Out32 u16 u32

type_synonym bus = "port_write list"

record Port =
  portnumber :: u16

definition new_Port :: "u16 \<Rightarrow> Port" where
  "new_Port n = \<lparr>portnumber = n\<rparr>"

definition Port8Bit :: "u16 \<Rightarrow> Port" where
  "Port8Bit n = new_Port n"

definition Read8 :: "(bus \<Rightarrow> u16 \<Rightarrow> u8) \<Rightarrow> u16 \<Rightarrow> bus \<Rightarrow> u8" where
  "Read8 dev port b = dev b port"

definition Write8 :: "u16 \<Rightarrow> u8 \<Rightarrow> bus \<Rightarrow> bus" where
  "Write8 port dat b = b @ [Out8 port dat]"

definition Port8Bit_Write :: "Port \<Rightarrow> u8 \<Rightarrow> bus \<Rightarrow> bus" where
  "Port8Bit_Write p dat b = Write8 (portnumber p) dat b"

definition Port8Bit_Read :: "(bus \<Rightarrow> u16 \<Rightarrow> u8) \<Rightarrow> Port \<Rightarrow> bus \<Rightarrow> u8" where
  "Port8Bit_Read dev p b = Read8 dev (portnumber p) b"

definition Port8BitSlow :: "u16 \<Rightarrow> Port" where
  "Port8BitSlow n = Port8Bit n"

definition Write8Slow :: "u16 \<Rightarrow> u8 \<Rightarrow> bus \<Rightarrow> bus" where
  "Write8Slow port dat b = b @ [Out8 port dat, Out8 0x80 0]"

definition Port8BitSlow_Write :: "Port \<Rightarrow> u8 \<Rightarrow> bus \<Rightarrow> bus" where
  "Port8BitSlow_Write p dat b = Write8Slow (portnumber p) dat b"

definition Port16Bit :: "u16 \<Rightarrow> Port" where
  "Port16Bit n = new_Port n"

definition Read16 :: "(bus \<Rightarrow> u16 \<Rightarrow> u16) \<Rightarrow> u16 \<Rightarrow> bus \<Rightarrow> u16" where
  "Read16 dev port b = dev b port"

definition Write16 :: "u16 \<Rightarrow> u16 \<Rightarrow> bus \<Rightarrow> bus" where
  "Write16 port dat b = b @ [Out16 port dat]"

definition Port16Bit_Write :: "Port \<Rightarrow> u16 \<Rightarrow> bus \<Rightarrow> bus" where
  "Port16Bit_Write p dat b = Write16 (portnumber p) dat b"

definition Port16Bit_Read :: "(bus \<Rightarrow> u16 \<Rightarrow> u16) \<Rightarrow> Port \<Rightarrow> bus \<Rightarrow> u16" where
  "Port16Bit_Read dev p b = Read16 dev (portnumber p) b"

definition Port32Bit :: "u16 \<Rightarrow> Port" where
  "Port32Bit n = new_Port n"

definition Read32 :: "(bus \<Rightarrow> u16 \<Rightarrow> u32) \<Rightarrow> u16 \<Rightarrow> bus \<Rightarrow> u32" where
  "Read32 dev port b = dev b port"

definition Write32 :: "u16 \<Rightarrow> u32 \<Rightarrow> bus \<Rightarrow> bus" where
  "Write32 port dat b = b @ [Out32 port dat]"

definition Port32Bit_Write :: "Port \<Rightarrow> u32 \<Rightarrow> bus \<Rightarrow> bus" where
  "Port32Bit_Write p dat b = Write32 (portnumber p) dat b"

definition Port32Bit_Read :: "(bus \<Rightarrow> u16 \<Rightarrow> u32) \<Rightarrow> Port \<Rightarrow> bus \<Rightarrow> u32" where
  "Port32Bit_Read dev p b = Read32 dev (portnumber p) b"

end
