(* ===== verification/Ahci.thy ===== *)
theory Ahci
  imports DiskDevice PageTables
begin

text \<open>
  The AHCI driver: \<^verbatim>\<open>src/drivers/Intel/AHCI/AHCIPort.cpp\<close> and \<^verbatim>\<open>AHCIController.cpp\<close>. The registers of
  a port, the command headers and the command tables are typed objects apart from the byte memory:
  the headers and tables lie in frames the port has requested for itself. The controller is the
  parameter \<open>hba\<close>: \<open>hba n s\<close> is what the driver finds at its \<open>n\<close>-th look at the registers after it
  has left the machine as \<open>s\<close>. \<open>None\<close> is a wait for the controller that never ends.
\<close>

section \<open>Structures\<close>

text \<open>Without the reserved and the vendor fields, which nothing uses.\<close>

record HBAPort =
  commandListBase :: u32
  commandListBaseUpper :: u32
  fisBaseAddress :: u32
  fisBaseAddressUpper :: u32
  interruptStatus :: u32
  interruptEnable :: u32
  cmdSts :: u32
  taskFileData :: u32
  signature :: u32
  sataStatus :: u32
  sataControl :: u32
  sataError :: u32
  sataActive :: u32
  commandIssue :: u32
  sataNotification :: u32
  fisSwitchControl :: u32

record HBACommandHeader =
  commandFISLength :: u8
  atapi :: bool
  write_cmd :: bool
  prefetchable :: bool
  reset :: bool
  bist :: bool
  clearBusy :: bool
  portMultiplier :: u8
  prdtLength :: u16
  prdbCount :: u32
  commandTableBaseAddress :: u32
  commandTableBaseAddressUpper :: u32

record HBAPRDTEntry =
  dataBaseAddress :: u32
  dataBaseAddressUpper :: u32
  byteCount :: u32
  interruptOnCompletion :: bool

record FIS_REG_H2D =
  fisType :: u8
  fis_portMultiplier :: u8
  commandControl :: bool
  fis_command :: u8
  featureLow :: u8
  fis_lba0 :: u8
  fis_lba1 :: u8
  fis_lba2 :: u8
  deviceRegister :: u8
  fis_lba3 :: u8
  fis_lba4 :: u8
  fis_lba5 :: u8
  featureHigh :: u8
  countLow :: u8
  countHigh :: u8
  isoCommandCompletion :: u8
  fis_control :: u8

text \<open>The table with its first entry, the only one that is used.\<close>

record HBACommandTable =
  commandFIS :: FIS_REG_H2D
  atapiCommand :: "u8 list"
  prdtEntry :: HBAPRDTEntry

definition zero_FIS :: FIS_REG_H2D where
  "zero_FIS = \<lparr>fisType = 0, fis_portMultiplier = 0, commandControl = False, fis_command = 0, featureLow = 0,
     fis_lba0 = 0, fis_lba1 = 0, fis_lba2 = 0, deviceRegister = 0, fis_lba3 = 0, fis_lba4 = 0, fis_lba5 = 0,
     featureHigh = 0, countLow = 0, countHigh = 0, isoCommandCompletion = 0, fis_control = 0\<rparr>"

datatype PortType = NoType | SATA | SEMB | PM | SATAPI

text \<open>A port: its registers, the headers and tables by their addresses, and the drive behind it.\<close>

record 'd ahci =
  regs :: HBAPort
  headers :: "u64 \<Rightarrow> HBACommandHeader"
  cmd_tables :: "u64 \<Rightarrow> HBACommandTable"
  drive :: 'd

type_synonym 'd hba = "nat \<Rightarrow> 'd ahci machine \<Rightarrow> 'd ahci machine"

definition ATA_DEV_BUSY :: u32 where "ATA_DEV_BUSY = 0x80"
definition ATA_DEV_DRQ :: u32 where "ATA_DEV_DRQ = 0x08"
definition ATA_CMD_READ_DMA_EX :: u8 where "ATA_CMD_READ_DMA_EX = 0x25"
definition ATA_CMD_WRITE_DMA_EX :: u8 where "ATA_CMD_WRITE_DMA_EX = 0x35"
definition HBA_PxIS_TFES :: u32 where "HBA_PxIS_TFES = push_bit 30 1"
definition HBA_PORT_DEV_PRESENT :: u8 where "HBA_PORT_DEV_PRESENT = 0x3"
definition HBA_PORT_IPM_ACTIVE :: u8 where "HBA_PORT_IPM_ACTIVE = 0x1"
definition SATA_SIG_ATAPI :: u32 where "SATA_SIG_ATAPI = 0xEB140101"
definition SATA_SIG_ATA :: u32 where "SATA_SIG_ATA = 0x00000101"
definition SATA_SIG_SEMB :: u32 where "SATA_SIG_SEMB = 0xC33C0101"
definition SATA_SIG_PM :: u32 where "SATA_SIG_PM = 0x96690101"
definition HBA_PxCMD_CR :: u32 where "HBA_PxCMD_CR = 0x8000"
definition HBA_PxCMD_FRE :: u32 where "HBA_PxCMD_FRE = 0x0010"
definition HBA_PxCMD_ST :: u32 where "HBA_PxCMD_ST = 0x0001"
definition HBA_PxCMD_FR :: u32 where "HBA_PxCMD_FR = 0x4000"

text \<open>An assignment to the registers of the port.\<close>

definition set_regs :: "(HBAPort \<Rightarrow> HBAPort) \<Rightarrow> 'd ahci machine \<Rightarrow> 'd ahci machine" where
  "set_regs f s = (fst s, (snd s)\<lparr>regs := f (regs (snd s))\<rparr>)"

section \<open>Reading and writing blocks\<close>

text \<open>
  The command FIS. The sector number is split into two halves of 32 bits, but each goes to three
  bytes: the byte of bits 24 to 31 is left out.
\<close>

definition command_fis :: "u8 \<Rightarrow> u64 \<Rightarrow> u64 \<Rightarrow> FIS_REG_H2D" where
  "command_fis cmd lba n =
     (let sectorL = (ucast lba :: u32); sectorH = (ucast (drop_bit 32 lba) :: u32) in
      zero_FIS\<lparr>fisType := 0x27, commandControl := True, fis_command := cmd,
        fis_lba0 := ucast sectorL, fis_lba1 := ucast (drop_bit 8 sectorL), fis_lba2 := ucast (drop_bit 16 sectorL),
        fis_lba3 := ucast sectorH, fis_lba4 := ucast (drop_bit 8 sectorH), fis_lba5 := ucast (drop_bit 16 sectorH),
        deviceRegister := push_bit 6 1,
        countLow := ucast (n AND 0xFF), countHigh := ucast (drop_bit 8 n AND 0xFF)\<rparr>)"

text \<open>
  Filling in the command in slot 0. The upper halves of the addresses of the list and of the table
  are not read; the byte count is a field of 22 bits. Clearing the table leaves its entries as they are.
\<close>

definition setup_command :: "bool \<Rightarrow> u8 \<Rightarrow> u64 \<Rightarrow> u64 \<Rightarrow> u64 \<Rightarrow> 'd ahci machine \<Rightarrow> 'd ahci machine" where
  "setup_command wr cmd lba n buffer s =
     (let p = snd s;
          cmdHeader = ucast (commandListBase (regs p)) :: u64;
          h = (headers p cmdHeader)\<lparr>commandFISLength := 5, write_cmd := wr, prdtLength := 1\<rparr>;
          commandTable = ucast (commandTableBaseAddress h) :: u64;
          e = (prdtEntry (cmd_tables p commandTable))
                \<lparr>dataBaseAddress := ucast buffer, dataBaseAddressUpper := ucast (drop_bit 32 buffer),
                 byteCount := ucast (push_bit 9 n - 1) AND 0x3FFFFF, interruptOnCompletion := True\<rparr>;
          t = \<lparr>commandFIS = command_fis cmd lba n, atapiCommand = replicate 16 0, prdtEntry = e\<rparr>
      in (fst s, p\<lparr>headers := (headers p)(cmdHeader := h), cmd_tables := (cmd_tables p)(commandTable := t)\<rparr>))"

text \<open>Waiting for an idle device, at most a million looks.\<close>

function wait_ready :: "'d hba \<Rightarrow> nat \<Rightarrow> 'd ahci machine \<Rightarrow> nat \<times> 'd ahci machine" where
  "wait_ready hba spin s =
     (if taskFileData (regs (snd (hba spin s))) AND (ATA_DEV_BUSY OR ATA_DEV_DRQ) \<noteq> 0 \<and> spin < 1000000
      then wait_ready hba (spin + 1) s else (spin, hba spin s))"
  by pat_completeness auto
termination
  by (relation "measure (\<lambda>(hba, spin, s). 1000000 - spin)") auto

declare wait_ready.simps [simp del]

partial_function (option) poll :: "'d hba \<Rightarrow> nat \<Rightarrow> 'd ahci machine \<Rightarrow> (bool \<times> 'd ahci machine) option" where
  "poll hba n s =
     (if commandIssue (regs (snd (hba n s))) = 0 then Some (True, hba n s)
      else if interruptStatus (regs (snd (hba n s))) AND HBA_PxIS_TFES \<noteq> 0 then Some (False, hba n s)
      else poll hba (n + 1) s)"

definition AHCI_ReadDiskBlock ::
  "'d hba \<Rightarrow> u64 \<Rightarrow> u64 \<Rightarrow> u64 \<Rightarrow> 'd ahci machine \<Rightarrow> (bool \<times> 'd ahci machine) option"
where
  "AHCI_ReadDiskBlock hba lba n buffer s =
     (let s = set_regs (\<lambda>r. r\<lparr>interruptStatus := - 1\<rparr>) s;
          s = setup_command False ATA_CMD_READ_DMA_EX lba n buffer s;
          (spin, s) = wait_ready hba 0 s
      in if spin = 1000000 then Some (False, s)
         else poll hba 0 (set_regs (\<lambda>r. r\<lparr>commandIssue := 1\<rparr>) s))"

definition AHCI_WriteDiskBlock ::
  "'d hba \<Rightarrow> u64 \<Rightarrow> u64 \<Rightarrow> u64 \<Rightarrow> 'd ahci machine \<Rightarrow> (bool \<times> 'd ahci machine) option"
where
  "AHCI_WriteDiskBlock hba lba n buffer s =
     (let s = set_regs (\<lambda>r. r\<lparr>interruptStatus := - 1\<rparr>) s;
          s = setup_command True ATA_CMD_WRITE_DMA_EX lba n buffer s;
          (spin, s) = wait_ready hba 0 s
      in if spin = 1000000 then Some (False, s)
         else poll hba 0 (set_regs (\<lambda>r. r\<lparr>commandIssue := 1\<rparr>) s))"

section \<open>Starting a port\<close>

partial_function (option) wait_stopped :: "'d hba \<Rightarrow> nat \<Rightarrow> 'd ahci machine \<Rightarrow> 'd ahci machine option" where
  "wait_stopped hba n s =
     (let c = cmdSts (regs (snd (hba n s))) in
      if c AND HBA_PxCMD_FR \<noteq> 0 then wait_stopped hba (n + 1) s
      else if c AND HBA_PxCMD_CR \<noteq> 0 then wait_stopped hba (n + 1) s
      else Some (hba n s))"

definition StopCMD :: "'d hba \<Rightarrow> 'd ahci machine \<Rightarrow> 'd ahci machine option" where
  "StopCMD hba s =
     (let s = set_regs (\<lambda>r. r\<lparr>cmdSts := cmdSts r AND NOT HBA_PxCMD_ST\<rparr>) s;
          s = set_regs (\<lambda>r. r\<lparr>cmdSts := cmdSts r AND NOT HBA_PxCMD_FRE\<rparr>) s
      in wait_stopped hba 0 s)"

partial_function (option) wait_idle :: "'d hba \<Rightarrow> nat \<Rightarrow> 'd ahci machine \<Rightarrow> 'd ahci machine option" where
  "wait_idle hba n s =
     (if cmdSts (regs (snd (hba n s))) AND HBA_PxCMD_CR \<noteq> 0 then wait_idle hba (n + 1) s else Some (hba n s))"

definition StartCMD :: "'d hba \<Rightarrow> 'd ahci machine \<Rightarrow> 'd ahci machine option" where
  "StartCMD hba s =
     map_option (\<lambda>s.
       let s = set_regs (\<lambda>r. r\<lparr>cmdSts := cmdSts r OR HBA_PxCMD_FRE\<rparr>) s
       in set_regs (\<lambda>r. r\<lparr>cmdSts := cmdSts r OR HBA_PxCMD_ST\<rparr>) s) (wait_idle hba 0 s)"

definition zero_header :: HBACommandHeader where
  "zero_header = \<lparr>commandFISLength = 0, atapi = False, write_cmd = False, prefetchable = False, reset = False,
     bist = False, clearBusy = False, portMultiplier = 0, prdtLength = 0, prdbCount = 0,
     commandTableBaseAddress = 0, commandTableBaseAddressUpper = 0\<rparr>"

definition zero_command_table :: HBACommandTable where
  "zero_command_table = \<lparr>commandFIS = zero_FIS, atapiCommand = replicate 16 0,
     prdtEntry = \<lparr>dataBaseAddress = 0, dataBaseAddressUpper = 0, byteCount = 0, interruptOnCompletion = False\<rparr>\<rparr>"

definition full_address :: "u32 \<Rightarrow> u32 \<Rightarrow> u64" where
  "full_address lo hi = ucast lo + push_bit 32 (ucast hi)"

text \<open>One slot: its table is put \<open>i * 256\<close> bytes behind the start of the frame it gets.\<close>

definition configure_slot :: "u64 \<Rightarrow> nat \<Rightarrow> 'd ahci \<times> pfa \<Rightarrow> 'd ahci \<times> pfa" where
  "configure_slot cmdHeader i st =
     (let (p, f) = st; a = cmdHeader + of_nat i * 32;
          p = p\<lparr>headers := (headers p)(a := (headers p a)\<lparr>prdtLength := 8\<rparr>)\<rparr>;
          (cmdTableAddress, f) = RequestPage f;
          address = cmdTableAddress + push_bit 8 (of_nat i);
          p = p\<lparr>headers := (headers p)(a := (headers p a)
                 \<lparr>commandTableBaseAddress := ucast address, commandTableBaseAddressUpper := ucast (drop_bit 32 address)\<rparr>),
                cmd_tables := (\<lambda>x. if in_region cmdTableAddress 256 x then zero_command_table else cmd_tables p x)\<rparr>
      in (p, f))"

definition Configure :: "'d hba \<Rightarrow> 'd ahci machine \<Rightarrow> pfa \<Rightarrow> ('d ahci machine \<times> pfa) option" where
  "Configure hba s f =
     (case StopCMD hba s of
        None \<Rightarrow> None
      | Some s \<Rightarrow>
          let (newBase, f) = RequestPage f;
              s = set_regs (\<lambda>r. r\<lparr>commandListBase := ucast newBase, commandListBaseUpper := ucast (drop_bit 32 newBase)\<rparr>) s;
              base = ucast (commandListBase (regs (snd s))) :: u64;
              s = (fst s, (snd s)\<lparr>headers := (\<lambda>x. if in_region base 1024 x then zero_header else headers (snd s) x)\<rparr>);
              (fisBase, f) = RequestPage f;
              s = set_regs (\<lambda>r. r\<lparr>fisBaseAddress := ucast fisBase, fisBaseAddressUpper := ucast (drop_bit 32 fisBase)\<rparr>) s;
              m = memset fisBase 0 256 (fst s);
              cmdHeader = full_address (commandListBase (regs (snd s))) (commandListBaseUpper (regs (snd s)));
              (p, f) = fold (configure_slot cmdHeader) [0..<32] (snd s, f)
          in map_option (\<lambda>s. (s, f)) (StartCMD hba (m, p)))"

section \<open>Ports and the controller\<close>

datatype AHCIStatus = Uninitialized | StatusError | Active

record 'd AHCIPort =
  port_disk :: disk
  port_ahci :: "'d ahci"
  portType :: PortType
  portNumber :: nat
  port_status :: AHCIStatus
  DeviceName :: string

definition new_AHCIPort ::
  "'d hba \<Rightarrow> nat \<Rightarrow> 'd ahci \<Rightarrow> PortType \<Rightarrow> memory \<Rightarrow> pfa \<Rightarrow> ('d AHCIPort \<times> memory \<times> pfa) option"
where
  "new_AHCIPort hba num portStructure port m f =
     (let (dk, f, m) = new_DiskDevice f m;
          s = (m, portStructure);
          s = set_regs (\<lambda>r. r\<lparr>cmdSts := cmdSts r AND NOT HBA_PxCMD_ST\<rparr>) s;
          s = set_regs (\<lambda>r. r\<lparr>cmdSts := cmdSts r AND NOT HBA_PxCMD_FRE\<rparr>) s
      in map_option (\<lambda>((m, p), f). (\<lparr>port_disk = dk, port_ahci = p, portType = port, portNumber = num,
             port_status = Active, DeviceName = ''SATA Hard Disk''\<rparr>, m, f)) (Configure hba s f))"

text \<open>An unknown signature reaches the end of the function; \<open>junk\<close> is what it returns then.\<close>

definition CheckPortType :: "PortType \<Rightarrow> HBAPort \<Rightarrow> PortType" where
  "CheckPortType junk port =
     (let interfacePowerManagement = (ucast (drop_bit 8 (sataStatus port) AND 7) :: u8);
          deviceDetection = (ucast (sataStatus port AND 7) :: u8)
      in if deviceDetection \<noteq> HBA_PORT_DEV_PRESENT then NoType
         else if interfacePowerManagement \<noteq> HBA_PORT_IPM_ACTIVE then NoType
         else if signature port = SATA_SIG_ATAPI then SATAPI
         else if signature port = SATA_SIG_ATA then SATA
         else if signature port = SATA_SIG_PM then PM
         else if signature port = SATA_SIG_SEMB then SEMB
         else junk)"

record 'd HBAMemory =
  hostCapability :: u32
  globalHostControl :: u32
  hba_interruptStatus :: u32
  portsImplemented :: u32
  hba_ports :: "nat \<Rightarrow> 'd ahci"

record 'd AHCIDriver =
  PCIBaseAddress :: u64
  driver_name :: string
  ABAR :: u64
  Ports :: "'d AHCIPort list"
  portCount :: u8

definition new_AHCIDriver :: "u64 \<Rightarrow> 'd AHCIDriver" where
  "new_AHCIDriver pciBaseAddress =
     \<lparr>PCIBaseAddress = pciBaseAddress, driver_name = ''ACPI 1.0 Driver'', ABAR = 0, Ports = [], portCount = 0\<rparr>"

definition probe_port ::
  "(nat \<Rightarrow> 'd hba) \<Rightarrow> PortType \<Rightarrow> 'd HBAMemory \<Rightarrow> nat \<Rightarrow> ('d AHCIDriver \<times> memory \<times> pfa) option
    \<Rightarrow> ('d AHCIDriver \<times> memory \<times> pfa) option"
where
  "probe_port hba junk bar i st =
     (case st of
        None \<Rightarrow> None
      | Some (d, m, f) \<Rightarrow>
          if portsImplemented bar AND push_bit i 1 \<noteq> 0
          then
            let type = CheckPortType junk (regs (hba_ports bar i)) in
            if type = SATA
            then map_option (\<lambda>(p, m, f). (d\<lparr>Ports := Ports d @ [p\<lparr>portType := type\<rparr>], portCount := portCount d + 1\<rparr>, m, f))
                   (new_AHCIPort (hba i) (unat (portCount d)) (hba_ports bar i) type m f)
            else Some (d, m, f)
          else Some (d, m, f))"

definition ProbePorts ::
  "(nat \<Rightarrow> 'd hba) \<Rightarrow> PortType \<Rightarrow> 'd HBAMemory \<Rightarrow> 'd AHCIDriver \<Rightarrow> memory \<Rightarrow> pfa \<Rightarrow> ('d AHCIDriver \<times> memory \<times> pfa) option"
where
  "ProbePorts hba junk bar d m f = fold (probe_port hba junk bar) [0..<32] (Some (d, m, f))"

text \<open>The registers of the controller are mapped where BAR5 says; \<open>bars\<close> finds them there.\<close>

definition AHCI_Activate ::
  "(nat \<Rightarrow> 'd hba) \<Rightarrow> PortType \<Rightarrow> (u64 \<Rightarrow> 'd HBAMemory) \<Rightarrow> 'd AHCIDriver \<Rightarrow> memory \<Rightarrow> vm
    \<Rightarrow> ('d AHCIDriver \<times> memory \<times> vm) option"
where
  "AHCI_Activate hba junk bars d m vm =
     (let BAR5 = load32 m (PCIBaseAddress d + 0x24);
          d = d\<lparr>ABAR := ucast BAR5\<rparr>;
          vm = MapMemory (ABAR d) (ABAR d) vm
      in map_option (\<lambda>(d, m, f). (d, m, vm\<lparr>frames := f\<rparr>))
           (ProbePorts hba junk (bars (ABAR d)) d m (frames vm)))"

section \<open>What the controller promises\<close>

text \<open>The command in slot 0 as the controller reads it, with the full addresses.\<close>

definition slot0 :: "'d ahci \<Rightarrow> HBACommandHeader" where
  "slot0 p = headers p (full_address (commandListBase (regs p)) (commandListBaseUpper (regs p)))"

definition slot0_table :: "'d ahci \<Rightarrow> HBACommandTable" where
  "slot0_table p =
     cmd_tables p (full_address (commandTableBaseAddress (slot0 p)) (commandTableBaseAddressUpper (slot0 p)))"

definition fis_sector :: "FIS_REG_H2D \<Rightarrow> u64" where
  "fis_sector c =
     ucast (fis_lba0 c) OR push_bit 8 (ucast (fis_lba1 c)) OR push_bit 16 (ucast (fis_lba2 c))
     OR push_bit 24 (ucast (fis_lba3 c)) OR push_bit 32 (ucast (fis_lba4 c)) OR push_bit 40 (ucast (fis_lba5 c))"

definition fis_count :: "FIS_REG_H2D \<Rightarrow> nat" where
  "fis_count c = (let n = unat (countLow c) + 256 * unat (countHigh c) in if n = 0 then 65536 else n)"

definition dma_buffer :: "'d ahci \<Rightarrow> u64" where
  "dma_buffer p = (let e = prdtEntry (slot0_table p) in full_address (dataBaseAddress e) (dataBaseAddressUpper e))"

definition dma_command :: "u8 \<Rightarrow> bool \<Rightarrow> nat \<Rightarrow> 'd ahci \<Rightarrow> bool" where
  "dma_command cmd wr capacity p \<longleftrightarrow>
     (let h = slot0 p; c = commandFIS (slot0_table p) in
      commandIssue (regs p) = 1 \<and> commandFISLength h = 5 \<and> write_cmd h = wr \<and> prdtLength h = 1
      \<and> fisType c = 0x27 \<and> commandControl c \<and> fis_command c = cmd
      \<and> unat (byteCount (prdtEntry (slot0_table p))) + 1 = 512 * fis_count c
      \<and> unat (fis_sector c) + fis_count c \<le> capacity)"

text \<open>The controller writes the byte count of the header back, and nothing else of the command.\<close>

definition same_setup :: "'d ahci \<Rightarrow> 'd ahci \<Rightarrow> bool" where
  "same_setup p q \<longleftrightarrow>
     commandListBase (regs q) = commandListBase (regs p)
     \<and> commandListBaseUpper (regs q) = commandListBaseUpper (regs p)
     \<and> (\<forall>a. (headers q a)\<lparr>prdbCount := 0\<rparr> = (headers p a)\<lparr>prdbCount := 0\<rparr>)
     \<and> cmd_tables q = cmd_tables p"

text \<open>The machine \<open>t\<close> is reached at some look, before which the command is pending without an error.\<close>

definition completes :: "'d hba \<Rightarrow> 'd ahci machine \<Rightarrow> ('d ahci machine \<Rightarrow> bool) \<Rightarrow> bool" where
  "completes hba s P \<longleftrightarrow>
     (\<exists>k. (\<forall>n < k. commandIssue (regs (snd (hba n s))) \<noteq> 0
             \<and> interruptStatus (regs (snd (hba n s))) AND HBA_PxIS_TFES = 0)
        \<and> commandIssue (regs (snd (hba k s))) = 0 \<and> P (hba k s))"

locale ahci_controller =
  fixes hba :: "'d hba" and medium :: "'d \<Rightarrow> u64 \<Rightarrow> u8" and capacity :: nat
  assumes capacity: "capacity < 2 ^ 48"
    and idle: "commandIssue (regs p) = 0 \<Longrightarrow>
      fst (hba n (m, p)) = m \<and> same_setup p (snd (hba n (m, p)))
      \<and> medium (drive (snd (hba n (m, p)))) = medium (drive p) \<and> commandIssue (regs (snd (hba n (m, p)))) = 0"
    and keeps_running: "commandIssue (regs p) = 0 \<Longrightarrow>
      cmdSts (regs (snd (hba n (m, p)))) AND (HBA_PxCMD_ST OR HBA_PxCMD_FRE)
        = cmdSts (regs p) AND (HBA_PxCMD_ST OR HBA_PxCMD_FRE)"
    and stops: "commandIssue (regs p) = 0 \<Longrightarrow> cmdSts (regs p) AND (HBA_PxCMD_ST OR HBA_PxCMD_FRE) = 0 \<Longrightarrow>
      \<exists>n. cmdSts (regs (snd (hba n (m, p)))) AND (HBA_PxCMD_FR OR HBA_PxCMD_CR) = 0"
    and gets_ready: "commandIssue (regs p) = 0 \<Longrightarrow>
      \<exists>n < 1000000. taskFileData (regs (snd (hba n (m, p)))) AND (ATA_DEV_BUSY OR ATA_DEV_DRQ) = 0"
    and dma_read: "dma_command ATA_CMD_READ_DMA_EX False capacity p \<Longrightarrow>
      completes hba (m, p) (\<lambda>(m', q). same_setup p q \<and> medium (drive q) = medium (drive p)
        \<and> m' = (let c = commandFIS (slot0_table p) in
             (\<lambda>x. if in_region (dma_buffer p) (512 * fis_count c) x
                  then medium (drive p) (fis_sector c * 512 + (x - dma_buffer p)) else m x)))"
    and dma_write: "dma_command ATA_CMD_WRITE_DMA_EX True capacity p \<Longrightarrow>
      completes hba (m, p) (\<lambda>(m', q). same_setup p q \<and> m' = m
        \<and> medium (drive q) = (let c = commandFIS (slot0_table p) in
             (\<lambda>y. if in_region (fis_sector c * 512) (512 * fis_count c) y
                  then m (dma_buffer p + (y - fis_sector c * 512)) else medium (drive p) y)))"

section \<open>The command the driver builds\<close>

lemma full_address_split: "full_address (ucast b) (ucast (drop_bit 32 b)) = b"
proof -
  have "(ucast (ucast b :: u32) :: u64) = take_bit 32 b" by (rule bit_word_eqI) (simp add: bit_simps)
  moreover have "(ucast (ucast (drop_bit 32 b) :: u32) :: u64) = drop_bit 32 b"
    by (rule bit_word_eqI) (auto simp: bit_simps dest: bit_imp_le_length)
  ultimately show ?thesis by (simp add: full_address_def add.commute [of "take_bit 32 b"] bits_ident)
qed

lemma full_address_low: "full_address lo 0 = ucast lo"
  by (simp add: full_address_def)

lemma fis_sector_command:
  "fis_sector (command_fis cmd lba n) = (lba AND 0xFFFFFF) OR (drop_bit 8 lba AND 0xFFFFFF000000)"
proof -
  have m: "(0xFFFFFF :: u64) = mask 24" "(0xFFFFFF000000 :: u64) = push_bit 24 (mask 24)"
    by (simp_all add: mask_eq_exp_minus_1)
  show ?thesis
    unfolding m
  proof (rule bit_word_eqI)
    fix i
    assume "i < LENGTH(64)"
    then consider "i < 8" | "8 \<le> i" "i < 16" | "16 \<le> i" "i < 24" | "24 \<le> i" "i < 32" | "32 \<le> i" "i < 40"
      | "40 \<le> i" "i < 48" | "48 \<le> i" "i < 64" by fastforce
    then show "bit (fis_sector (command_fis cmd lba n)) i
        = bit ((lba AND mask 24) OR (drop_bit 8 lba AND push_bit 24 (mask 24))) i"
      by cases (auto simp: fis_sector_def command_fis_def Let_def bit_simps)
  qed
qed

lemma fis_sector_small:
  assumes "unat lba < 2 ^ 24"
  shows "fis_sector (command_fis cmd lba n) = lba"
proof -
  have "take_bit 24 lba = lba"
    using assms by (simp add: word_eq_iff_unat unsigned_take_bit_eq take_bit_nat_eq_self)
  then have b: "i < 24" if "bit lba i" for i using that bit_take_bit_iff [of 24 lba i] by simp
  have m: "(0xFFFFFF :: u64) = mask 24" "(0xFFFFFF000000 :: u64) = push_bit 24 (mask 24)"
    by (simp_all add: mask_eq_exp_minus_1)
  show ?thesis
    unfolding fis_sector_command m by (rule bit_word_eqI) (auto simp: bit_simps dest: b)
qed

lemma small_count:
  fixes n :: u64
  assumes "0 < n" and "unat n \<le> 8"
  shows "fis_count (command_fis cmd lba n) = unat n"
    and "unat (ucast (push_bit 9 n - 1) AND 0x3FFFFF :: u32) + 1 = 512 * unat n"
proof -
  have "unat n \<in> {1..8}" using assms by (simp add: word_less_nat_alt)
  then have "unat n = 1 \<or> unat n = 2 \<or> unat n = 3 \<or> unat n = 4 \<or> unat n = 5 \<or> unat n = 6 \<or> unat n = 7 \<or> unat n = 8"
    by auto
  then have "n \<in> {1, 2, 3, 4, 5, 6, 7, 8}" by (auto simp: word_eq_iff_unat)
  then show "fis_count (command_fis cmd lba n) = unat n"
    "unat (ucast (push_bit 9 n - 1) AND 0x3FFFFF :: u32) + 1 = 512 * unat n"
    by (auto simp: fis_count_def command_fis_def Let_def)
qed

text \<open>A port that has no command pending and whose list and table lie below 4 GiB.\<close>

definition port_ready :: "'d ahci \<Rightarrow> bool" where
  "port_ready p \<longleftrightarrow>
     commandIssue (regs p) = 0 \<and> commandListBaseUpper (regs p) = 0
     \<and> commandTableBaseAddressUpper (headers p (ucast (commandListBase (regs p)))) = 0"

lemma setup_slot0:
  fixes s :: "'d ahci machine" and wr cmd lba n buffer
  assumes "port_ready (snd s)"
  defines "q \<equiv> snd (setup_command wr cmd lba n buffer s)"
  shows "fst (setup_command wr cmd lba n buffer s) = fst s"
    and "port_ready q" and "regs q = regs (snd s)" and "drive q = drive (snd s)"
    and "commandFISLength (slot0 q) = 5" and "write_cmd (slot0 q) = wr" and "prdtLength (slot0 q) = 1"
    and "commandFIS (slot0_table q) = command_fis cmd lba n" and "dma_buffer q = buffer"
    and "byteCount (prdtEntry (slot0_table q)) = ucast (push_bit 9 n - 1) AND 0x3FFFFF"
  using assms
  by (simp_all add: setup_command_def Let_def port_ready_def slot0_def slot0_table_def dma_buffer_def
      full_address_low full_address_split)

lemma same_setup_slot0:
  assumes "same_setup p q"
  shows "commandFISLength (slot0 q) = commandFISLength (slot0 p)" and "write_cmd (slot0 q) = write_cmd (slot0 p)"
    and "prdtLength (slot0 q) = prdtLength (slot0 p)" and "slot0_table q = slot0_table p"
    and "dma_buffer q = dma_buffer p"
    and "commandIssue (regs q) = 0 \<Longrightarrow> commandIssue (regs p) = 0 \<Longrightarrow> port_ready p \<Longrightarrow> port_ready q"
proof -
  have h: "(headers q a)\<lparr>prdbCount := 0\<rparr> = (headers p a)\<lparr>prdbCount := 0\<rparr>" for a
    using assms by (simp add: same_setup_def)
  have f: "commandFISLength (headers q a) = commandFISLength (headers p a)"
    "write_cmd (headers q a) = write_cmd (headers p a)" "prdtLength (headers q a) = prdtLength (headers p a)"
    "commandTableBaseAddress (headers q a) = commandTableBaseAddress (headers p a)"
    "commandTableBaseAddressUpper (headers q a) = commandTableBaseAddressUpper (headers p a)" for a
    using arg_cong [OF h [of a], of commandFISLength] arg_cong [OF h [of a], of write_cmd]
      arg_cong [OF h [of a], of prdtLength] arg_cong [OF h [of a], of commandTableBaseAddress]
      arg_cong [OF h [of a], of commandTableBaseAddressUpper] by simp_all
  show "commandFISLength (slot0 q) = commandFISLength (slot0 p)" "write_cmd (slot0 q) = write_cmd (slot0 p)"
    "prdtLength (slot0 q) = prdtLength (slot0 p)" "slot0_table q = slot0_table p" "dma_buffer q = dma_buffer p"
    "commandIssue (regs q) = 0 \<Longrightarrow> commandIssue (regs p) = 0 \<Longrightarrow> port_ready p \<Longrightarrow> port_ready q"
    using assms f by (simp_all add: same_setup_def slot0_def slot0_table_def dma_buffer_def port_ready_def)
qed

section \<open>The loops come to an end\<close>

lemma wait_ready_returns:
  assumes "taskFileData (regs (snd (hba n s))) AND (ATA_DEV_BUSY OR ATA_DEV_DRQ) = 0" and "spin \<le> n" and "n < 1000000"
  shows "\<exists>k < 1000000. wait_ready hba spin s = (k, hba k s)"
  using assms
proof (induction hba spin s rule: wait_ready.induct)
  case (1 hba spin s)
  show ?case
  proof (cases "taskFileData (regs (snd (hba spin s))) AND (ATA_DEV_BUSY OR ATA_DEV_DRQ) \<noteq> 0")
    case True
    with 1 have "spin < n" by (cases "spin = n") auto
    with 1 True show ?thesis by (subst wait_ready.simps) simp
  next
    case False
    with 1 show ?thesis by (subst wait_ready.simps) auto
  qed
qed

lemma poll_returns:
  assumes "\<forall>i < k. commandIssue (regs (snd (hba i s))) \<noteq> 0
             \<and> interruptStatus (regs (snd (hba i s))) AND HBA_PxIS_TFES = 0"
    and "commandIssue (regs (snd (hba k s))) = 0" and "n \<le> k"
  shows "poll hba n s = Some (True, hba k s)"
  using assms(3)
proof (induction n rule: inc_induct)
  case base
  then show ?case using assms(2) by (simp add: poll.simps)
next
  case (step n)
  then show ?case using assms(1) by (subst poll.simps) simp
qed

lemma completes_poll:
  assumes "completes hba s P"
  shows "\<exists>s'. poll hba 0 s = Some (True, s') \<and> commandIssue (regs (snd s')) = 0 \<and> P s'"
  using assms unfolding completes_def by (metis poll_returns le0)

text \<open>The command as it stands when the controller is told to start.\<close>

definition issued :: "'d hba \<Rightarrow> bool \<Rightarrow> u8 \<Rightarrow> u64 \<Rightarrow> u64 \<Rightarrow> u64 \<Rightarrow> 'd ahci machine \<Rightarrow> nat \<times> 'd ahci machine" where
  "issued hba wr cmd lba n buffer s =
     (let (spin, s) = wait_ready hba 0 (setup_command wr cmd lba n buffer (set_regs (\<lambda>r. r\<lparr>interruptStatus := - 1\<rparr>) s))
      in (spin, set_regs (\<lambda>r. r\<lparr>commandIssue := 1\<rparr>) s))"

lemma port_ready_interruptStatus: "port_ready (snd (set_regs (\<lambda>r. r\<lparr>interruptStatus := x\<rparr>) s)) = port_ready (snd s)"
  by (simp add: port_ready_def set_regs_def)

context ahci_controller begin

lemma issued_command:
  assumes "port_ready p" and n: "0 < n" "unat n \<le> 8" and lba: "unat lba + unat n \<le> min (2 ^ 24) capacity"
  shows "\<exists>k q. k < 1000000 \<and> issued hba wr cmd lba n buf (m, p) = (k, (m, q))
    \<and> dma_command cmd wr capacity q \<and> dma_buffer q = buf
    \<and> commandFIS (slot0_table q) = command_fis cmd lba n \<and> medium (drive q) = medium (drive p)
    \<and> port_ready (q\<lparr>regs := (regs q)\<lparr>commandIssue := 0\<rparr>\<rparr>)"
proof -
  define s where "s = setup_command wr cmd lba n buf (set_regs (\<lambda>r. r\<lparr>interruptStatus := - 1\<rparr>) (m, p))"
  define u where "u = snd s"
  have ready: "port_ready (snd (set_regs (\<lambda>r. r\<lparr>interruptStatus := - 1\<rparr>) (m, p)))"
    using assms(1) by (simp add: port_ready_interruptStatus)
  note set_up = setup_slot0 [OF ready, of wr cmd lba n buf, folded s_def, folded u_def]
  have s: "s = (m, u)" using set_up(1) by (simp add: u_def set_regs_def prod_eq_iff)
  have idle_u: "commandIssue (regs u) = 0" using set_up(2) by (simp add: port_ready_def)
  obtain j where j: "j < 1000000"
    "taskFileData (regs (snd (hba j (m, u)))) AND (ATA_DEV_BUSY OR ATA_DEV_DRQ) = 0"
    using gets_ready [OF idle_u] by blast
  obtain k where k: "k < 1000000" "wait_ready hba 0 s = (k, hba k s)"
    using wait_ready_returns [of hba j "(m, u)" 0] j s by auto
  define v where "v = snd (hba k (m, u))"
  have v: "hba k s = (m, v)" "same_setup u v" "medium (drive v) = medium (drive u)" "commandIssue (regs v) = 0"
    using idle [OF idle_u, of k m] by (simp_all add: v_def s prod_eq_iff)
  define q where "q = v\<lparr>regs := (regs v)\<lparr>commandIssue := 1\<rparr>\<rparr>"
  have q: "slot0 q = slot0 v" "slot0_table q = slot0_table v" "dma_buffer q = dma_buffer v" "drive q = drive v"
    "commandIssue (regs q) = 1"
    by (simp_all add: q_def slot0_def slot0_table_def dma_buffer_def)
  note same = same_setup_slot0 [OF v(2)]
  have small: "unat lba < 2 ^ 24" using lba n by (simp add: word_less_nat_alt)
  have "issued hba wr cmd lba n buf (m, p) = (k, (m, q))"
    unfolding issued_def s_def [symmetric] k(2) v(1) by (simp add: set_regs_def q_def)
  moreover have "dma_command cmd wr capacity q"
    using lba small_count(2) [OF n]
    by (simp add: dma_command_def Let_def q same set_up fis_sector_small [OF small] small_count(1) [OF n])
      (simp add: command_fis_def Let_def zero_FIS_def)
  moreover have "medium (drive q) = medium (drive p)"
    using q(4) v(3) set_up(4) by (simp add: set_regs_def)
  moreover have "port_ready (q\<lparr>regs := (regs q)\<lparr>commandIssue := 0\<rparr>\<rparr>)"
    using same(6) [OF v(4) idle_u set_up(2)] by (simp add: q_def port_ready_def)
  ultimately show ?thesis using k(1) q same set_up(8,9) by auto
qed


end

lemma issued_Read:
  assumes "issued hba False ATA_CMD_READ_DMA_EX lba n buf s = (k, s')" and "k < 1000000"
  shows "AHCI_ReadDiskBlock hba lba n buf s = poll hba 0 s'"
  using assms by (auto simp: issued_def AHCI_ReadDiskBlock_def Let_def split: prod.splits)

lemma issued_Write:
  assumes "issued hba True ATA_CMD_WRITE_DMA_EX lba n buf s = (k, s')" and "k < 1000000"
  shows "AHCI_WriteDiskBlock hba lba n buf s = poll hba 0 s'"
  using assms by (auto simp: issued_def AHCI_WriteDiskBlock_def Let_def split: prod.splits)

context ahci_controller begin

lemma finished_ready:
  assumes "same_setup q q'" and "commandIssue (regs q') = 0" and "port_ready (q\<lparr>regs := (regs q)\<lparr>commandIssue := 0\<rparr>\<rparr>)"
  shows "port_ready q'"
proof -
  have "same_setup (q\<lparr>regs := (regs q)\<lparr>commandIssue := 0\<rparr>\<rparr>) q'" using assms(1) by (simp add: same_setup_def)
  from same_setup_slot0(6) [OF this assms(2) _ assms(3)] show ?thesis by simp
qed

lemma reads_sectors:
  assumes "port_ready p" and "0 < n" "unat n \<le> 8" and "unat lba + unat n \<le> min (2 ^ 24) capacity"
  shows "\<exists>p'. AHCI_ReadDiskBlock hba lba n buf (m, p) = Some (True,
      (\<lambda>x. if in_region buf (512 * unat n) x then medium (drive p) (lba * 512 + (x - buf)) else m x), p')
    \<and> port_ready p' \<and> medium (drive p') = medium (drive p)"
proof -
  obtain k q where q: "k < 1000000" "issued hba False ATA_CMD_READ_DMA_EX lba n buf (m, p) = (k, (m, q))"
    "dma_command ATA_CMD_READ_DMA_EX False capacity q" "dma_buffer q = buf"
    "commandFIS (slot0_table q) = command_fis ATA_CMD_READ_DMA_EX lba n" "medium (drive q) = medium (drive p)"
    "port_ready (q\<lparr>regs := (regs q)\<lparr>commandIssue := 0\<rparr>\<rparr>)"
    using issued_command [OF assms] by blast
  obtain s' where s': "poll hba 0 (m, q) = Some (True, s')" "commandIssue (regs (snd s')) = 0"
    "case s' of (m', q') \<Rightarrow> same_setup q q' \<and> medium (drive q') = medium (drive q)
        \<and> m' = (let c = commandFIS (slot0_table q) in
             (\<lambda>x. if in_region (dma_buffer q) (512 * fis_count c) x
                  then medium (drive q) (fis_sector c * 512 + (x - dma_buffer q)) else m x))"
    using completes_poll [OF dma_read [OF q(3), of m]] by blast
  have small: "unat lba < 2 ^ 24" using assms(2,4) by (simp add: word_less_nat_alt)
  show ?thesis
    using s' q(4-6) finished_ready [OF _ s'(2) q(7)] issued_Read [OF q(2,1)]
    by (cases s') (auto simp: Let_def fis_sector_small [OF small] small_count(1) [OF assms(2,3)])
qed

lemma writes_sectors:
  assumes "port_ready p" and "0 < n" "unat n \<le> 8" and "unat lba + unat n \<le> min (2 ^ 24) capacity"
  shows "\<exists>p'. AHCI_WriteDiskBlock hba lba n buf (m, p) = Some (True, m, p') \<and> port_ready p'
    \<and> medium (drive p') = (\<lambda>y. if in_region (lba * 512) (512 * unat n) y
         then m (buf + (y - lba * 512)) else medium (drive p) y)"
proof -
  obtain k q where q: "k < 1000000" "issued hba True ATA_CMD_WRITE_DMA_EX lba n buf (m, p) = (k, (m, q))"
    "dma_command ATA_CMD_WRITE_DMA_EX True capacity q" "dma_buffer q = buf"
    "commandFIS (slot0_table q) = command_fis ATA_CMD_WRITE_DMA_EX lba n" "medium (drive q) = medium (drive p)"
    "port_ready (q\<lparr>regs := (regs q)\<lparr>commandIssue := 0\<rparr>\<rparr>)"
    using issued_command [OF assms] by blast
  obtain s' where s': "poll hba 0 (m, q) = Some (True, s')" "commandIssue (regs (snd s')) = 0"
    "case s' of (m', q') \<Rightarrow> same_setup q q' \<and> m' = m
        \<and> medium (drive q') = (let c = commandFIS (slot0_table q) in
             (\<lambda>y. if in_region (fis_sector c * 512) (512 * fis_count c) y
                  then m (dma_buffer q + (y - fis_sector c * 512)) else medium (drive q) y))"
    using completes_poll [OF dma_write [OF q(3), of m]] by blast
  have small: "unat lba < 2 ^ 24" using assms(2,4) by (simp add: word_less_nat_alt)
  show ?thesis
    using s' q(4-6) finished_ready [OF _ s'(2) q(7)] issued_Write [OF q(2,1)]
    by (cases s') (auto simp: Let_def fis_sector_small [OF small] small_count(1) [OF assms(2,3)])
qed

end

text \<open>The driver as a disk: the state a command leaves behind, whatever it reports.\<close>

definition ahci_rd :: "'d hba \<Rightarrow> 'd ahci block_op" where
  "ahci_rd hba lba n buf s = (case AHCI_ReadDiskBlock hba lba n buf s of Some (_, s') \<Rightarrow> s' | None \<Rightarrow> s)"

definition ahci_wr :: "'d hba \<Rightarrow> 'd ahci block_op" where
  "ahci_wr hba lba n buf s = (case AHCI_WriteDiskBlock hba lba n buf s of Some (_, s') \<Rightarrow> s' | None \<Rightarrow> s)"

sublocale ahci_controller \<subseteq> dev: block_device "ahci_rd hba" "ahci_wr hba" "\<lambda>p. medium (drive p)" port_ready "min (2 ^ 24) capacity"
proof
  show "min (2 ^ 24) capacity < 2 ^ 55" using capacity by simp
next
  fix p :: "'d ahci" and n lba buf :: u64 and m
  assume a: "port_ready p" "0 < n" "unat n \<le> 8" "unat lba + unat n \<le> min (2 ^ 24) capacity"
  show "fst (ahci_rd hba lba n buf (m, p)) =
      (\<lambda>x. if in_region buf (512 * unat n) x then medium (drive p) (lba * 512 + (x - buf)) else m x)"
    "port_ready (snd (ahci_rd hba lba n buf (m, p))) \<and>
     medium (drive (snd (ahci_rd hba lba n buf (m, p)))) = medium (drive p)"
    using reads_sectors [OF a, of buf m] by (auto simp: ahci_rd_def)
  show "medium (drive (snd (ahci_wr hba lba n buf (m, p)))) =
      (\<lambda>y. if in_region (lba * 512) (512 * unat n) y then m (buf + (y - lba * 512)) else medium (drive p) y)"
    "port_ready (snd (ahci_wr hba lba n buf (m, p))) \<and> fst (ahci_wr hba lba n buf (m, p)) = m"
    using writes_sectors [OF a, of buf m] by (auto simp: ahci_wr_def)
qed

section \<open>A configured port\<close>

lemma RequestPage_low:
  assumes "unat (Size (PageBitmap s)) * 8 \<le> 2 ^ 20"
  shows "fst (RequestPage s) < 2 ^ 32" and "Size (PageBitmap (snd (RequestPage s))) = Size (PageBitmap s)"
proof -
  have "fst (RequestPage s) < 2 ^ 32 \<and> Size (PageBitmap (snd (RequestPage s))) = Size (PageBitmap s)"
    using assms
  proof (induction s rule: RequestPage.induct)
    case (1 s)
    let ?i = "pageBitmapIndex s"
    have bits: "unat (Size (PageBitmap s) * 8) = unat (Size (PageBitmap s)) * 8"
      using 1(2) by (subst unat_mult_lem [THEN iffD1]) simp_all
    show ?case
    proof (cases "?i < Size (PageBitmap s) * 8")
      case True
      then have "unat ?i < 2 ^ 20" using 1(2) bits by (simp add: word_less_nat_alt)
      then have "unat (?i * 4096) < 2 ^ 32" by (subst unat_mult_lem [THEN iffD1]) simp_all
      then have "?i * 4096 < 2 ^ 32" by (simp add: word_less_nat_alt)
      with 1 True show ?thesis
        by (subst (1 2) RequestPage.simps) (simp add: LockPage_eq Let_def)
    next
      case False
      then show ?thesis by (subst (1 2) RequestPage.simps) simp
    qed
  qed
  then show "fst (RequestPage s) < 2 ^ 32" "Size (PageBitmap (snd (RequestPage s))) = Size (PageBitmap s)"
    by blast+
qed

lemma low_halves:
  fixes b :: u64
  assumes "b < 2 ^ 32"
  shows "(ucast (drop_bit 32 b) :: u32) = 0" and "(ucast (ucast b :: u32) :: u64) = b"
proof -
  have "drop_bit 32 b = 0" using assms by (simp add: word_eq_iff_unat unsigned_drop_bit_eq drop_bit_eq_div word_less_nat_alt unat_div_distrib)
  then show "(ucast (drop_bit 32 b) :: u32) = 0" by simp
  then show "(ucast (ucast b :: u32) :: u64) = b"
    using full_address_split [of b] by (simp add: full_address_low)
qed

text \<open>Only its own step touches the header of a slot.\<close>

lemma configure_slot_other:
  assumes "a \<noteq> cmdHeader + of_nat i * 32"
  shows "headers (fst (configure_slot cmdHeader i st)) a = headers (fst st) a"
    and "regs (fst (configure_slot cmdHeader i st)) = regs (fst st)"
    and "drive (fst (configure_slot cmdHeader i st)) = drive (fst st)"
  using assms by (auto simp: configure_slot_def Let_def split: prod.splits)

lemma configure_slot_first:
  assumes "unat (Size (PageBitmap (snd st))) * 8 \<le> 2 ^ 20"
  shows "commandTableBaseAddressUpper (headers (fst (configure_slot cmdHeader 0 st)) cmdHeader) = 0"
    and "regs (fst (configure_slot cmdHeader 0 st)) = regs (fst st)"
    and "drive (fst (configure_slot cmdHeader 0 st)) = drive (fst st)"
  using low_halves(1) [OF RequestPage_low(1) [OF assms]]
  by (auto simp: configure_slot_def Let_def split: prod.splits)

lemma configure_later_slots:
  assumes "\<forall>i \<in> set is. 0 < i \<and> i < 32"
  shows "headers (fst (fold (configure_slot b) is st)) b = headers (fst st) b
    \<and> regs (fst (fold (configure_slot b) is st)) = regs (fst st)
    \<and> drive (fst (fold (configure_slot b) is st)) = drive (fst st)"
  using assms
proof (induction "is" arbitrary: st)
  case (Cons i xs)
  have "unat (of_nat i * 32 :: u64) = i * 32"
    using Cons.prems by (simp add: unat_word_ariths unat_of_nat)
  then have "b \<noteq> b + of_nat i * 32" using Cons.prems by auto
  from configure_slot_other [OF this, of st] Cons show ?case by simp
qed simp

lemma configure_slots:
  assumes "unat (Size (PageBitmap (snd st))) * 8 \<le> 2 ^ 20"
  shows "commandTableBaseAddressUpper (headers (fst (fold (configure_slot b) [0..<32] st)) b) = 0"
    and "regs (fst (fold (configure_slot b) [0..<32] st)) = regs (fst st)"
    and "drive (fst (fold (configure_slot b) [0..<32] st)) = drive (fst st)"
proof -
  have "[0..<32] = 0 # [1..<32]" by (simp add: upt_conv_Cons)
  then have "fold (configure_slot b) [0..<32] st = fold (configure_slot b) [1..<32] (configure_slot b 0 st)" by simp
  with configure_later_slots [of "[1..<32]" b "configure_slot b 0 st"] configure_slot_first [OF assms, of b]
  show "commandTableBaseAddressUpper (headers (fst (fold (configure_slot b) [0..<32] st)) b) = 0"
    "regs (fst (fold (configure_slot b) [0..<32] st)) = regs (fst st)"
    "drive (fst (fold (configure_slot b) [0..<32] st)) = drive (fst st)" by simp_all
qed

lemma wait_stopped_returns:
  assumes "cmdSts (regs (snd (hba k s))) AND (HBA_PxCMD_FR OR HBA_PxCMD_CR) = 0" and "n \<le> k"
  shows "\<exists>j. wait_stopped hba n s = Some (hba j s)"
  using assms(2)
proof (induction n rule: inc_induct)
  case base
  have "cmdSts (regs (snd (hba k s))) AND HBA_PxCMD_FR = 0" "cmdSts (regs (snd (hba k s))) AND HBA_PxCMD_CR = 0"
    using assms(1) by (simp_all add: bit.conj_disj_distrib or_eq_0_iff)
  then show ?case by (subst wait_stopped.simps) (auto simp: Let_def)
next
  case (step n)
  then show ?case by (subst wait_stopped.simps) (auto simp: Let_def)
qed

lemma wait_idle_returns:
  assumes "cmdSts (regs (snd (hba k s))) AND (HBA_PxCMD_FR OR HBA_PxCMD_CR) = 0" and "n \<le> k"
  shows "\<exists>j. wait_idle hba n s = Some (hba j s)"
  using assms(2)
proof (induction n rule: inc_induct)
  case base
  have "cmdSts (regs (snd (hba k s))) AND HBA_PxCMD_CR = 0"
    using assms(1) by (simp add: bit.conj_disj_distrib or_eq_0_iff)
  then show ?case by (subst wait_idle.simps) auto
next
  case (step n)
  then show ?case by (subst wait_idle.simps) auto
qed


context ahci_controller begin

lemma kept_by_looking:
  assumes "commandIssue (regs p) = 0"
  shows "\<exists>q. hba n (m, p) = (m, q) \<and> commandIssue (regs q) = 0 \<and> medium (drive q) = medium (drive p)
    \<and> cmdSts (regs q) AND (HBA_PxCMD_ST OR HBA_PxCMD_FRE) = cmdSts (regs p) AND (HBA_PxCMD_ST OR HBA_PxCMD_FRE)
    \<and> (port_ready p \<longrightarrow> port_ready q) \<and> same_setup p q"
  using idle [OF assms, of n m] keeps_running [OF assms, of n m] assms
    same_setup_slot0(6) [of p "snd (hba n (m, p))"]
  by (auto simp: prod_eq_iff)

lemma StopCMD_stops:
  assumes "commandIssue (regs p) = 0"
  shows "\<exists>q. StopCMD hba (m, p) = Some (m, q) \<and> commandIssue (regs q) = 0 \<and> medium (drive q) = medium (drive p)
    \<and> cmdSts (regs q) AND (HBA_PxCMD_ST OR HBA_PxCMD_FRE) = 0"
proof -
  define u where "u = p\<lparr>regs := (regs p)\<lparr>cmdSts := (cmdSts (regs p) AND NOT HBA_PxCMD_ST) AND NOT HBA_PxCMD_FRE\<rparr>\<rparr>"
  have u: "commandIssue (regs u) = 0" "cmdSts (regs u) AND (HBA_PxCMD_ST OR HBA_PxCMD_FRE) = 0" "drive u = drive p"
    using assms by (simp_all add: u_def) (rule bit_word_eqI, auto simp: bit_simps)
  obtain k where "cmdSts (regs (snd (hba k (m, u)))) AND (HBA_PxCMD_FR OR HBA_PxCMD_CR) = 0"
    using stops [OF u(1,2)] by blast
  from wait_stopped_returns [where n = 0 and s = "(m, u)" and hba = hba, OF this le0] obtain j where "wait_stopped hba 0 (m, u) = Some (hba j (m, u))" by blast
  then have "StopCMD hba (m, p) = Some (hba j (m, u))" by (simp add: StopCMD_def set_regs_def u_def Let_def)
  with kept_by_looking [OF u(1), of j m] u(2,3) show ?thesis by auto
qed

lemma StartCMD_starts:
  assumes "port_ready p" and "cmdSts (regs p) AND (HBA_PxCMD_ST OR HBA_PxCMD_FRE) = 0"
  shows "\<exists>q. StartCMD hba (m, p) = Some (m, q) \<and> port_ready q \<and> medium (drive q) = medium (drive p)
    \<and> cmdSts (regs q) AND (HBA_PxCMD_ST OR HBA_PxCMD_FRE) = HBA_PxCMD_ST OR HBA_PxCMD_FRE
    \<and> commandListBase (regs q) = commandListBase (regs p)"
proof -
  have p: "commandIssue (regs p) = 0" using assms(1) by (simp add: port_ready_def)
  obtain k where "cmdSts (regs (snd (hba k (m, p)))) AND (HBA_PxCMD_FR OR HBA_PxCMD_CR) = 0"
    using stops [OF p assms(2)] by blast
  from wait_idle_returns [where n = 0 and s = "(m, p)" and hba = hba, OF this le0] obtain j where j: "wait_idle hba 0 (m, p) = Some (hba j (m, p))" by blast
  obtain u where u: "hba j (m, p) = (m, u)" "port_ready u" "medium (drive u) = medium (drive p)" "same_setup p u"
    using kept_by_looking [OF p, of j m] assms(1) by blast
  define q where "q = u\<lparr>regs := (regs u)\<lparr>cmdSts := (cmdSts (regs u) OR HBA_PxCMD_FRE) OR HBA_PxCMD_ST\<rparr>\<rparr>"
  have "StartCMD hba (m, p) = Some (m, q)" by (simp add: StartCMD_def j u(1) set_regs_def q_def Let_def)
  moreover have "cmdSts (regs q) AND (HBA_PxCMD_ST OR HBA_PxCMD_FRE) = HBA_PxCMD_ST OR HBA_PxCMD_FRE"
    by (rule bit_word_eqI) (auto simp: q_def bit_simps)
  ultimately show ?thesis using u(2-4) by (auto simp: q_def port_ready_def same_setup_def)
qed

lemma Configure_starts:
  assumes "commandIssue (regs p) = 0" and "unat (Size (PageBitmap f)) * 8 \<le> 2 ^ 20"
  shows "\<exists>q f'. Configure hba (m, p) f
      = Some ((memset (fst (RequestPage (snd (RequestPage f)))) 0 256 m, q), f')
    \<and> port_ready q \<and> medium (drive q) = medium (drive p)
    \<and> cmdSts (regs q) AND (HBA_PxCMD_ST OR HBA_PxCMD_FRE) = HBA_PxCMD_ST OR HBA_PxCMD_FRE
    \<and> ucast (commandListBase (regs q)) = fst (RequestPage f)"
proof -
  obtain u where u: "StopCMD hba (m, p) = Some (m, u)" "commandIssue (regs u) = 0" "medium (drive u) = medium (drive p)"
    "cmdSts (regs u) AND (HBA_PxCMD_ST OR HBA_PxCMD_FRE) = 0"
    using StopCMD_stops [OF assms(1)] by blast
  obtain newBase f1 where f1: "RequestPage f = (newBase, f1)" by fastforce
  obtain fisBase f2 where f2: "RequestPage f1 = (fisBase, f2)" by fastforce
  have small1: "unat (Size (PageBitmap f1)) * 8 \<le> 2 ^ 20" "newBase < 2 ^ 32"
    using RequestPage_low [OF assms(2)] assms(2) f1 by simp_all
  have small2: "unat (Size (PageBitmap f2)) * 8 \<le> 2 ^ 20"
    using RequestPage_low [OF small1(1)] small1(1) f2 by simp
  note low = low_halves [OF small1(2)]
  define v where "v = u\<lparr>headers := (\<lambda>x. if in_region newBase 1024 x then zero_header else headers u x),
      regs := (regs u)\<lparr>commandListBase := ucast newBase, commandListBaseUpper := 0,
        fisBaseAddress := ucast fisBase, fisBaseAddressUpper := ucast (drop_bit 32 fisBase)\<rparr>\<rparr>"
  obtain w f3 where w: "fold (configure_slot newBase) [0..<32] (v, f2) = (w, f3)" by fastforce
  have wr: "regs w = regs v" "drive w = drive v" "commandTableBaseAddressUpper (headers w newBase) = 0"
    using configure_slots [of "(v, f2)" newBase] small2 w by simp_all
  have "port_ready w" using u(2) by (simp add: port_ready_def wr v_def low)
  moreover have "cmdSts (regs w) AND (HBA_PxCMD_ST OR HBA_PxCMD_FRE) = 0" using u(4) by (simp add: wr v_def)
  ultimately obtain q where q: "StartCMD hba (memset fisBase 0 256 m, w) = Some (memset fisBase 0 256 m, q)"
    "port_ready q" "medium (drive q) = medium (drive w)"
    "cmdSts (regs q) AND (HBA_PxCMD_ST OR HBA_PxCMD_FRE) = HBA_PxCMD_ST OR HBA_PxCMD_FRE"
    "commandListBase (regs q) = commandListBase (regs w)"
    using StartCMD_starts by blast
  have "Configure hba (m, p) f = Some ((memset fisBase 0 256 m, q), f3)"
    using w by (simp add: Configure_def u(1) f1 f2 set_regs_def low full_address_low q(1) v_def cong: if_cong)
  then show ?thesis using q wr u(3) by (simp add: v_def f1 f2 low)
qed

end

lemma clear_pages:
  assumes "unat (Size (PageBitmap f)) * 8 \<le> 2 ^ 20" and "fold clear_page is (bs, f, m) = (bs', f', m')"
  shows "length bs' = length bs + length is \<and> unat (Size (PageBitmap f')) * 8 \<le> 2 ^ 20"
  using assms
proof (induction "is" arbitrary: bs f m)
  case (Cons i xs)
  obtain b g where g: "RequestPage f = (b, g)" by fastforce
  have "unat (Size (PageBitmap g)) * 8 \<le> 2 ^ 20" using RequestPage_low [OF Cons.prems(1)] Cons.prems(1) g by simp
  from Cons.IH [OF this] Cons.prems(2) g show ?case by (auto simp: clear_page_def)
qed simp

lemma new_DiskDevice_fresh:
  assumes "unat (Size (PageBitmap f)) * 8 \<le> 2 ^ 20" and "new_DiskDevice f m = (dk, f', m')"
  shows "length (Buffer dk) = 8" and "bufferLock dk = 0" and "blocksize dk = 512"
    and "unat (Size (PageBitmap f')) * 8 \<le> 2 ^ 20"
proof -
  obtain bs g h where "fold clear_page [0..<8] ([], f, m) = (bs, g, h)" by (metis prod_cases3)
  with clear_pages [OF assms(1) this] assms(2)
  show "length (Buffer dk) = 8" "bufferLock dk = 0" "blocksize dk = 512" "unat (Size (PageBitmap f')) * 8 \<le> 2 ^ 20"
    by (auto simp: new_DiskDevice_def)
qed

context ahci_controller begin

lemmas port_block_device = dev.block_device_axioms
lemmas port_reads_bytes = dev.reads_bytes

lemma new_AHCIPort_starts:
  assumes "commandIssue (regs p) = 0" and "unat (Size (PageBitmap f)) * 8 \<le> 2 ^ 20"
  shows "\<exists>port m' f'. new_AHCIPort hba num p t m f = Some (port, m', f')
    \<and> port_ready (port_ahci port) \<and> medium (drive (port_ahci port)) = medium (drive p)
    \<and> cmdSts (regs (port_ahci port)) AND (HBA_PxCMD_ST OR HBA_PxCMD_FRE) = HBA_PxCMD_ST OR HBA_PxCMD_FRE
    \<and> length (Buffer (port_disk port)) = 8 \<and> bufferLock (port_disk port) = 0 \<and> blocksize (port_disk port) = 512
    \<and> port_status port = Active \<and> portNumber port = num \<and> portType port = t"
proof -
  obtain dk g h where d: "new_DiskDevice f m = (dk, g, h)" by (metis prod_cases3)
  note fresh = new_DiskDevice_fresh [OF assms(2) d]
  define u where "u = p\<lparr>regs := (regs p)\<lparr>cmdSts := (cmdSts (regs p) AND NOT HBA_PxCMD_ST) AND NOT HBA_PxCMD_FRE\<rparr>\<rparr>"
  have "commandIssue (regs u) = 0" using assms(1) by (simp add: u_def)
  from Configure_starts [OF this fresh(4), of h] fresh(1-3) show ?thesis
    by (auto simp: new_AHCIPort_def d set_regs_def u_def Let_def)
qed

end

section \<open>A controller\<close>

text \<open>A controller that is always ready and carries a command out before the first look at it.\<close>

definition ram_hba :: "(u64 \<Rightarrow> u8) hba" where
  "ram_hba n s =
     (let (m, p) = s; done = (\<lambda>p. p\<lparr>regs := (regs p)\<lparr>commandIssue := 0, interruptStatus := 0, taskFileData := 0,
            cmdSts := cmdSts (regs p) AND NOT (HBA_PxCMD_FR OR HBA_PxCMD_CR)\<rparr>\<rparr>);
          c = commandFIS (slot0_table p); n = 512 * fis_count c
      in if commandIssue (regs p) = 0 then (m, done p)
         else if fis_command c = ATA_CMD_WRITE_DMA_EX
         then (m, done (p\<lparr>drive := (\<lambda>y. if in_region (fis_sector c * 512) n y
                 then m (dma_buffer p + (y - fis_sector c * 512)) else drive p y)\<rparr>))
         else ((\<lambda>x. if in_region (dma_buffer p) n x
                 then drive p (fis_sector c * 512 + (x - dma_buffer p)) else m x), done p))"

interpretation ram_ahci: ahci_controller ram_hba "\<lambda>d. d" "2 ^ 20"
proof
  show "(2 :: nat) ^ 20 < 2 ^ 48" by simp
next
  fix p :: "(u64 \<Rightarrow> u8) ahci" and n m
  assume a: "commandIssue (regs p) = 0"
  show "fst (ram_hba n (m, p)) = m \<and> same_setup p (snd (ram_hba n (m, p)))
      \<and> drive (snd (ram_hba n (m, p))) = drive p \<and> commandIssue (regs (snd (ram_hba n (m, p)))) = 0"
    using a by (simp add: ram_hba_def same_setup_def)
  show "cmdSts (regs (snd (ram_hba n (m, p)))) AND (HBA_PxCMD_ST OR HBA_PxCMD_FRE)
        = cmdSts (regs p) AND (HBA_PxCMD_ST OR HBA_PxCMD_FRE)"
    using a by (simp add: ram_hba_def HBA_PxCMD_FR_def HBA_PxCMD_CR_def HBA_PxCMD_ST_def HBA_PxCMD_FRE_def and.assoc)
next
  fix p :: "(u64 \<Rightarrow> u8) ahci" and m
  assume "commandIssue (regs p) = 0"
  moreover have idle_bits: "(x AND NOT y AND NOT z) AND (y OR z) = 0" for x y z :: u32 by (rule bit_word_eqI) (auto simp: bit_simps)
  ultimately show "\<exists>n. cmdSts (regs (snd (ram_hba n (m, p)))) AND (HBA_PxCMD_FR OR HBA_PxCMD_CR) = 0"
    "\<exists>n < 1000000. taskFileData (regs (snd (ram_hba n (m, p)))) AND (ATA_DEV_BUSY OR ATA_DEV_DRQ) = 0"
    using idle_bits by (auto simp: ram_hba_def intro: exI [of _ 0])
next
  fix p :: "(u64 \<Rightarrow> u8) ahci" and m
  assume "dma_command ATA_CMD_READ_DMA_EX False (2 ^ 20) p"
  then show "completes ram_hba (m, p) (\<lambda>(m', q). same_setup p q \<and> drive q = drive p
        \<and> m' = (let c = commandFIS (slot0_table p) in
             (\<lambda>x. if in_region (dma_buffer p) (512 * fis_count c) x
                  then drive p (fis_sector c * 512 + (x - dma_buffer p)) else m x)))"
    by (auto simp: completes_def ram_hba_def same_setup_def dma_command_def Let_def
        ATA_CMD_READ_DMA_EX_def ATA_CMD_WRITE_DMA_EX_def intro: exI [of _ 0])
next
  fix p :: "(u64 \<Rightarrow> u8) ahci" and m
  assume "dma_command ATA_CMD_WRITE_DMA_EX True (2 ^ 20) p"
  then show "completes ram_hba (m, p) (\<lambda>(m', q). same_setup p q \<and> m' = m
        \<and> drive q = (let c = commandFIS (slot0_table p) in
             (\<lambda>y. if in_region (fis_sector c * 512) (512 * fis_count c) y
                  then m (dma_buffer p + (y - fis_sector c * 512)) else drive p y)))"
    by (auto simp: completes_def ram_hba_def same_setup_def dma_command_def Let_def
        ATA_CMD_WRITE_DMA_EX_def intro: exI [of _ 0])
qed

lemmas ram_ahci_controller = ram_ahci.ahci_controller_axioms

section \<open>An AHCI disk is a disk\<close>





definition idle_port :: "(u64 \<Rightarrow> u8) ahci" where
  "idle_port = \<lparr>regs = \<lparr>commandListBase = 0x5000, commandListBaseUpper = 0, fisBaseAddress = 0, fisBaseAddressUpper = 0,
       interruptStatus = 0, interruptEnable = 0, cmdSts = 0x11, taskFileData = 0, signature = 0x101, sataStatus = 0x103,
       sataControl = 0, sataError = 0, sataActive = 0, commandIssue = 0, sataNotification = 0, fisSwitchControl = 0\<rparr>,
     headers = (\<lambda>_. zero_header), cmd_tables = (\<lambda>_. zero_command_table), drive = (\<lambda>y. ucast y)\<rparr>"



text \<open>Two sectors that differ only in bits 24 to 31 of their number give the same command.\<close>

lemma lba_truncated: "command_fis cmd (lba XOR push_bit 24 (x AND 0xFF)) n = command_fis cmd lba n"
proof -
  have m: "(0xFF :: u64) = mask 8" by (simp add: mask_eq_exp_minus_1)
  have "(ucast (drop_bit k (ucast (lba XOR push_bit 24 (x AND mask 8)) :: u32)) :: u8) = ucast (drop_bit k (ucast lba :: u32))"
    if "k \<le> 16" for k
    using that by (intro bit_word_eqI) (auto simp: bit_simps)
  from this [of 0] this [of 8] this [of 16]
  have l: "(ucast (ucast (lba XOR push_bit 24 (x AND mask 8)) :: u32) :: u8) = ucast (ucast lba :: u32)"
    "(ucast (drop_bit 8 (ucast (lba XOR push_bit 24 (x AND mask 8)) :: u32)) :: u8) = ucast (drop_bit 8 (ucast lba :: u32))"
    "(ucast (drop_bit 16 (ucast (lba XOR push_bit 24 (x AND mask 8)) :: u32)) :: u8) = ucast (drop_bit 16 (ucast lba :: u32))"
    by simp_all
  have h: "(ucast (drop_bit 32 (lba XOR push_bit 24 (x AND mask 8))) :: u32) = ucast (drop_bit 32 lba)"
    by (intro bit_word_eqI) (auto simp: bit_simps)
  show ?thesis unfolding command_fis_def m Let_def l h ..
qed

end
