(* ===== verification/Interrupts.thy ===== *)
theory Interrupts
  imports Scheduler Ports
begin

text \<open>
  Interrupts: \<^verbatim>\<open>src/interrupts/interrupts.cpp\<close> and \<^verbatim>\<open>src/exceptions/exceptions.cpp\<close>. The handler of a
  vector is the address of an object; the virtual call of its method is the parameter \<open>run\<close>. The
  addresses of the assembler entry points are the parameter \<open>stub\<close>, the registers a stack pointer
  leads to are \<open>regs_at\<close>.
\<close>

record InterruptRegistersStack =
  r15 :: u64
  r14 :: u64
  r13 :: u64
  r12 :: u64
  r11 :: u64
  r10 :: u64
  r9 :: u64
  r8 :: u64
  rbp :: u64
  rdi :: u64
  rsi :: u64
  rdx :: u64
  rcx :: u64
  rbx :: u64
  rax :: u64
  rip :: u64
  cs :: u64
  rflags :: u64
  rsp :: u64
  ss :: u64

record InterruptDescriptorTablePointer =
  idt_Limit :: u16
  idt_Offset :: u64

record GateDescriptor =
  base_low :: u16
  selector :: u16
  ist :: u8
  gate_flags :: u8
  base_med :: u16
  base_high :: u32
  gate_null :: u32

datatype isr = InterruptIgnore | HandleException nat | HandleInterruptRequest nat

datatype on_screen = Printed string | PrintedHex u8

record InterruptManager =
  handlers :: "u8 \<Rightarrow> u64"
  hardwareInterruptOffset :: u16
  PICMasterCommandPort :: Port
  PICMasterDataPort :: Port
  PICSlaveCommandPort :: Port
  PICSlaveDataPort :: Port
  PICToggled :: bool

text \<open>What interrupts work on: the managers by their addresses, the static members of the class, the
  interrupt flag and the table register of the processor, the ports, the scheduler and the screen.\<close>

record kernel =
  managers :: "u64 \<Rightarrow> InterruptManager"
  interruptDescriptorTable :: "u8 \<Rightarrow> GateDescriptor"
  ActiveInterruptManager :: u64
  idt_pointer :: InterruptDescriptorTablePointer
  idtr :: InterruptDescriptorTablePointer
  interrupts_on :: bool
  io_bus :: bus
  scheduler :: sched
  printed :: "on_screen list"

definition print :: "on_screen \<Rightarrow> kernel \<Rightarrow> kernel" where
  "print x k = k\<lparr>printed := printed k @ [x]\<rparr>"

definition slow_out :: "Port \<Rightarrow> u8 \<Rightarrow> kernel \<Rightarrow> kernel" where
  "slow_out p x k = k\<lparr>io_bus := Port8BitSlow_Write p x (io_bus k)\<rparr>"

section \<open>Handlers\<close>

definition set_handler :: "u64 \<Rightarrow> u8 \<Rightarrow> u64 \<Rightarrow> kernel \<Rightarrow> kernel" where
  "set_handler mgr i h k = k\<lparr>managers := (managers k)(mgr := (managers k mgr)\<lparr>handlers := (handlers (managers k mgr))(i := h)\<rparr>)\<rparr>"

record InterruptHandler =
  interrupt :: u8
  interruptManager :: u64

definition new_InterruptHandler :: "u64 \<Rightarrow> u8 \<Rightarrow> u64 \<Rightarrow> kernel \<Rightarrow> InterruptHandler \<times> kernel" where
  "new_InterruptHandler this interruptNumber Manager k =
     (\<lparr>interrupt = interruptNumber, interruptManager = Manager\<rparr>, set_handler Manager interruptNumber this k)"

definition delete_InterruptHandler :: "u64 \<Rightarrow> InterruptHandler \<Rightarrow> kernel \<Rightarrow> kernel" where
  "delete_InterruptHandler this h k =
     (if handlers (managers k (interruptManager h)) (interrupt h) = this
      then set_handler (interruptManager h) (interrupt h) 0 k else k)"

definition default_HandleInterrupt :: "InterruptHandler \<Rightarrow> kernel \<Rightarrow> kernel" where
  "default_HandleInterrupt h k =
     (if interrupt h = 0x21 then print (Printed (''Keyboard'' @ [CHR 0x0A])) k else k)"

section \<open>The descriptor table\<close>

definition SetInterruptDescriptorTableEntry :: "u8 \<Rightarrow> u64 \<Rightarrow> u16 \<Rightarrow> u8 \<Rightarrow> u8 \<Rightarrow> kernel \<Rightarrow> kernel" where
  "SetInterruptDescriptorTableEntry i handler sel flags st k =
     k\<lparr>interruptDescriptorTable := (interruptDescriptorTable k)(i :=
        \<lparr>base_low = ucast (handler AND 0xFFFF), selector = sel, ist = st AND 0x7, gate_flags = flags,
         base_med = ucast (drop_bit 16 handler AND 0xFFFF), base_high = ucast (drop_bit 32 handler), gate_null = 0\<rparr>)\<rparr>"

definition IDT_INTERRUPT_GATE :: u8 where "IDT_INTERRUPT_GATE = 0x8E"

definition ignore_vector :: "(isr \<Rightarrow> u64) \<Rightarrow> u64 \<Rightarrow> nat \<Rightarrow> kernel \<Rightarrow> kernel" where
  "ignore_vector stub this i k =
     set_handler this (of_nat i) 0
       (SetInterruptDescriptorTableEntry (of_nat i) (stub InterruptIgnore) 0x08 IDT_INTERRUPT_GATE 0 k)"

definition exception_vectors :: "(isr \<Rightarrow> u64) \<Rightarrow> kernel \<Rightarrow> kernel" where
  "exception_vectors stub k =
     fold (\<lambda>n. SetInterruptDescriptorTableEntry (of_nat n) (stub (HandleException n)) 0x08 IDT_INTERRUPT_GATE
                 (if n = 9 then 2 else 0)) [0..<20] k"

definition hardware_vectors :: "(isr \<Rightarrow> u64) \<Rightarrow> u64 \<Rightarrow> kernel \<Rightarrow> kernel" where
  "hardware_vectors stub this k =
     fold (\<lambda>n k. SetInterruptDescriptorTableEntry (ucast (hardwareInterruptOffset (managers k this) + of_nat n))
                 (stub (HandleInterruptRequest n)) 0x08 IDT_INTERRUPT_GATE 0 k) [0..<16] k"

text \<open>The programming of the two PICs; the third word of the second goes to the first.\<close>

definition program_PIC :: "u64 \<Rightarrow> u8 \<Rightarrow> u8 \<Rightarrow> u8 \<Rightarrow> kernel \<Rightarrow> kernel" where
  "program_PIC this m s masked k =
     (let mgr = managers k this;
          k = slow_out (PICMasterCommandPort mgr) 0x11 k;
          k = slow_out (PICSlaveCommandPort mgr) 0x11 k;
          k = slow_out (PICMasterDataPort mgr) m k;
          k = slow_out (PICSlaveDataPort mgr) s k;
          k = slow_out (PICMasterDataPort mgr) 0x04 k;
          k = slow_out (PICMasterDataPort mgr) 0x02 k;
          k = slow_out (PICMasterDataPort mgr) 0x01 k;
          k = slow_out (PICSlaveDataPort mgr) 0x01 k;
          k = slow_out (PICMasterDataPort mgr) masked k
      in slow_out (PICSlaveDataPort mgr) masked k)"

definition new_InterruptManager :: "(isr \<Rightarrow> u64) \<Rightarrow> u64 \<Rightarrow> u64 \<Rightarrow> kernel \<Rightarrow> kernel" where
  "new_InterruptManager stub table this k =
     (let k = k\<lparr>managers := (managers k)(this := (managers k this)
            \<lparr>PICMasterCommandPort := Port8BitSlow 0x20, PICMasterDataPort := Port8BitSlow 0x21,
             PICSlaveCommandPort := Port8BitSlow 0xA0, PICSlaveDataPort := Port8BitSlow 0xA1, PICToggled := True\<rparr>)\<rparr>;
          k = k\<lparr>idt_pointer := \<lparr>idt_Limit = 256 * 16 - 1, idt_Offset = table\<rparr>\<rparr>;
          k = k\<lparr>managers := (managers k)(this := (managers k this)\<lparr>hardwareInterruptOffset := 0x20\<rparr>)\<rparr>;
          k = fold (ignore_vector stub this) (rev [1..<256]) k;
          k = ignore_vector stub this 0 k;
          k = exception_vectors stub k;
          k = SetInterruptDescriptorTableEntry 0x80 (stub (HandleInterruptRequest 128)) 0x08 IDT_INTERRUPT_GATE 0 k;
          k = SetInterruptDescriptorTableEntry 0xFD (stub (HandleInterruptRequest 253)) 0x08 IDT_INTERRUPT_GATE 0 k;
          k = k\<lparr>idtr := idt_pointer k\<rparr>;
          k = program_PIC this 0x20 0x28 0x00 k
      in hardware_vectors stub this k)"

definition DissablePIC :: "u64 \<Rightarrow> kernel \<Rightarrow> kernel" where
  "DissablePIC this k =
     (let k = program_PIC this 0xF0 0xF0 0xFF k
      in k\<lparr>managers := (managers k)(this := (managers k this)\<lparr>PICToggled := False\<rparr>)\<rparr>)"

section \<open>Activation\<close>

definition Deactivate :: "u64 \<Rightarrow> kernel \<Rightarrow> kernel" where
  "Deactivate this k =
     (if ActiveInterruptManager k = this then k\<lparr>ActiveInterruptManager := 0, interrupts_on := False\<rparr> else k)"

definition Activate :: "u64 \<Rightarrow> kernel \<Rightarrow> kernel" where
  "Activate this k =
     (let k = (if ActiveInterruptManager k \<noteq> 0 then Deactivate (ActiveInterruptManager k) k else k)
      in k\<lparr>ActiveInterruptManager := this, interrupts_on := True\<rparr>)"

definition delete_InterruptManager :: "u64 \<Rightarrow> kernel \<Rightarrow> kernel" where
  "delete_InterruptManager this k = Deactivate this k"

definition HardwareInterruptOffset :: "u64 \<Rightarrow> kernel \<Rightarrow> u16" where
  "HardwareInterruptOffset this k = hardwareInterruptOffset (managers k this)"

section \<open>Dispatch\<close>

definition kernel_Tick ::
  "(nat \<Rightarrow> u64) \<Rightarrow> (u64 \<Rightarrow> ProcessContext) \<Rightarrow> FXState \<Rightarrow> nat \<Rightarrow> u64 \<Rightarrow> kernel \<Rightarrow> (kernel \<times> dispatch option) option"
where
  "kernel_Tick fresh regs_at fpu cpu sp k =
     map_option (\<lambda>(s, d). (k\<lparr>scheduler := s\<rparr>, d)) (Tick fresh (regs_at sp) fpu cpu (scheduler k))"

definition is_hardware :: "InterruptManager \<Rightarrow> u8 \<Rightarrow> bool" where
  "is_hardware mgr i \<longleftrightarrow> unat (hardwareInterruptOffset mgr) \<le> unat i \<and> unat i \<le> unat (hardwareInterruptOffset mgr) + 16"

definition end_of_interrupt :: "InterruptManager \<Rightarrow> u8 \<Rightarrow> kernel \<Rightarrow> kernel" where
  "end_of_interrupt mgr i k =
     (if is_hardware mgr i \<or> i = 0xFD \<or> i = 0x80
      then if PICToggled mgr \<and> is_hardware mgr i
           then let k = (if unat (hardwareInterruptOffset mgr) + 8 \<le> unat i
                         then slow_out (PICSlaveCommandPort mgr) 0x20 k else k)
                in slow_out (PICMasterCommandPort mgr) 0x20 k
           else k\<lparr>scheduler := (scheduler k)\<lparr>local_apic := LocalAPICEOI (local_apic (scheduler k))\<rparr>\<rparr>
      else k)"

definition timer_tick ::
  "(nat \<Rightarrow> u64) \<Rightarrow> (u64 \<Rightarrow> ProcessContext) \<Rightarrow> FXState \<Rightarrow> nat \<Rightarrow> u64 \<Rightarrow> u8 \<Rightarrow> u64 \<Rightarrow> kernel
    \<Rightarrow> (kernel \<times> dispatch option) option"
where
  "timer_tick fresh regs_at fpu cpu this i sp k =
     (if ucast i = hardwareInterruptOffset (managers k this) then kernel_Tick fresh regs_at fpu cpu sp k else Some (k, None))"

text \<open>The result is the dispatch a tick of the scheduler ends with, if there is one.\<close>

definition DoHandleInterrupt ::
  "(nat \<Rightarrow> u64) \<Rightarrow> (u64 \<Rightarrow> ProcessContext) \<Rightarrow> FXState \<Rightarrow> nat \<Rightarrow> (u64 \<Rightarrow> u64 \<Rightarrow> kernel \<Rightarrow> kernel option)
    \<Rightarrow> u64 \<Rightarrow> u8 \<Rightarrow> u64 \<Rightarrow> kernel \<Rightarrow> (kernel \<times> dispatch option) option"
where
  "DoHandleInterrupt fresh regs_at fpu cpu run this i sp k =
     (let k = end_of_interrupt (managers k this) i k in
      if handlers (managers k this) i \<noteq> 0
      then case run (handlers (managers k this) i) sp k of
             None \<Rightarrow> None
           | Some k \<Rightarrow> timer_tick fresh regs_at fpu cpu this i sp k
      else if ucast i \<noteq> hardwareInterruptOffset (managers k this)
      then Some (print (Printed [CHR 0x0A]) (print (PrintedHex i) (print (Printed ''Unhandled Interrupt '') k)), None)
      else timer_tick fresh regs_at fpu cpu this i sp k)"

definition Manager_HandleInterrupt ::
  "(nat \<Rightarrow> u64) \<Rightarrow> (u64 \<Rightarrow> ProcessContext) \<Rightarrow> FXState \<Rightarrow> nat \<Rightarrow> (u64 \<Rightarrow> u64 \<Rightarrow> kernel \<Rightarrow> kernel option)
    \<Rightarrow> u8 \<Rightarrow> u64 \<Rightarrow> kernel \<Rightarrow> (kernel \<times> dispatch option) option"
where
  "Manager_HandleInterrupt fresh regs_at fpu cpu run i sp k =
     (if ActiveInterruptManager k \<noteq> 0
      then DoHandleInterrupt fresh regs_at fpu cpu run (ActiveInterruptManager k) i sp k else Some (k, None))"

section \<open>Exceptions\<close>

text \<open>
  One handler for each of the vectors 0 to 19, at the addresses \<open>new\<close> gives. The array of the class has
  19 elements, the last of the writes goes behind it: it is the second result.
\<close>

record ExceptionHandler =
  base_handler :: InterruptHandler
  exception_number :: u8

definition new_ExceptionHandler :: "u64 \<Rightarrow> u8 \<Rightarrow> u64 \<Rightarrow> kernel \<Rightarrow> ExceptionHandler \<times> kernel" where
  "new_ExceptionHandler this e manager k =
     (let (h, k) = new_InterruptHandler this e manager k in (\<lparr>base_handler = h, exception_number = e\<rparr>, k))"

definition new_ExceptionManager :: "(nat \<Rightarrow> u64) \<Rightarrow> u64 \<Rightarrow> kernel \<Rightarrow> u64 list \<times> (nat \<times> u64) list \<times> kernel" where
  "new_ExceptionManager new manager k =
     fold (\<lambda>i (hs, out, k).
         let k = snd (new_ExceptionHandler (new i) (of_nat i) manager k)
         in if i < length hs then (hs[i := new i], out, k) else (hs, out @ [(i, new i)], k))
       [0..<20] (replicate 19 0, [], k)"

section \<open>The table the constructor builds\<close>

text \<open>The address the processor puts together from a gate.\<close>

definition gate_address :: "GateDescriptor \<Rightarrow> u64" where
  "gate_address g = ucast (base_low g) OR push_bit 16 (ucast (base_med g)) OR push_bit 32 (ucast (base_high g))"

definition gate :: "u64 \<Rightarrow> u8 \<Rightarrow> GateDescriptor" where
  "gate handler st = \<lparr>base_low = ucast (handler AND 0xFFFF), selector = 0x08, ist = st AND 0x7,
     gate_flags = IDT_INTERRUPT_GATE, base_med = ucast (drop_bit 16 handler AND 0xFFFF),
     base_high = ucast (drop_bit 32 handler), gate_null = 0\<rparr>"

lemma gate_address_gate [simp]: "gate_address (gate handler st) = handler"
proof -
  have m: "(0xFFFF :: u64) = mask 16" by (simp add: mask_eq_exp_minus_1)
  show ?thesis
  proof (rule bit_word_eqI)
    fix n :: nat
    assume "n < LENGTH(64)"
    then consider "n < 16" | "16 \<le> n" "n < 32" | "32 \<le> n" "n < 64" by fastforce
    then show "bit (gate_address (gate handler st)) n = bit handler n"
      unfolding gate_address_def gate_def m by cases (auto simp: bit_simps)
  qed
qed

lemma SetEntry_gate:
  "interruptDescriptorTable (SetInterruptDescriptorTableEntry i h 0x08 IDT_INTERRUPT_GATE st k)
     = (interruptDescriptorTable k)(i := gate h st)"
  "managers (SetInterruptDescriptorTableEntry i h sel fl st k) = managers k"
  "idtr (SetInterruptDescriptorTableEntry i h sel fl st k) = idtr k"
  "idt_pointer (SetInterruptDescriptorTableEntry i h sel fl st k) = idt_pointer k"
  by (simp_all add: SetInterruptDescriptorTableEntry_def gate_def)

text \<open>Setting the entries of a list of vectors.\<close>

lemma set_entries:
  fixes idx st :: "nat \<Rightarrow> u8" and h :: "nat \<Rightarrow> u64"
  defines "step \<equiv> \<lambda>n. SetInterruptDescriptorTableEntry (idx n) (h n) 0x08 IDT_INTERRUPT_GATE (st n)"
  shows "managers (fold step ns k) = managers k \<and> idtr (fold step ns k) = idtr k \<and> idt_pointer (fold step ns k) = idt_pointer k
    \<and> (v \<notin> idx ` set ns \<longrightarrow> interruptDescriptorTable (fold step ns k) v = interruptDescriptorTable k v)
    \<and> (\<forall>n \<in> set ns. inj_on idx (set ns) \<longrightarrow> idx n = v \<longrightarrow> interruptDescriptorTable (fold step ns k) v = gate (h n) (st n))"
proof (induction ns arbitrary: k rule: rev_induct)
  case (snoc n ns)
  show ?case
    unfolding fold_append fold_simps comp_apply
    using snoc.IH [of k] by (auto simp: step_def SetEntry_gate inj_on_def)
qed simp

lemma ignore_vectors:
  fixes stub this
  defines "f \<equiv> fold (ignore_vector stub this)"
  shows "idt_pointer (f ns k) = idt_pointer k \<and> hardwareInterruptOffset (managers (f ns k) this) = hardwareInterruptOffset (managers k this)
    \<and> PICToggled (managers (f ns k) this) = PICToggled (managers k this)
    \<and> (v \<in> of_nat ` set ns \<longrightarrow> handlers (managers (f ns k) this) v = 0
         \<and> interruptDescriptorTable (f ns k) v = gate (stub InterruptIgnore) 0)"
  unfolding f_def
proof (induction ns arbitrary: k rule: rev_induct)
  case (snoc n ns)
  then show ?case by (auto simp: ignore_vector_def set_handler_def SetEntry_gate)
qed simp

lemma program_PIC_keeps:
  "managers (program_PIC this m s x k) = managers k" "interruptDescriptorTable (program_PIC this m s x k) = interruptDescriptorTable k"
  "idtr (program_PIC this m s x k) = idtr k"
  by (simp_all add: program_PIC_def slow_out_def Let_def)

text \<open>The entry point of each vector.\<close>

definition vector_isr :: "u8 \<Rightarrow> isr" where
  "vector_isr v =
     (if v < 0x14 then HandleException (unat v)
      else if 0x20 \<le> v \<and> v < 0x30 then HandleInterruptRequest (unat (v - 0x20))
      else if v = 0x80 \<or> v = 0xFD then HandleInterruptRequest (unat v)
      else InterruptIgnore)"

lemma every_vector: "v \<in> of_nat ` set (rev [1..<256] @ [0])" for v :: u8
proof -
  have "unat v < 256" using unsigned_less [of v, where 'a = nat] by simp
  then have "unat v \<in> set (rev [1..<256] @ [0])" by (cases "unat v = 0") auto
  then show ?thesis by (intro image_eqI [of _ _ "unat v"]) simp_all
qed


lemma exception_vectors_set:
  "managers (exception_vectors stub k) = managers k \<and> idt_pointer (exception_vectors stub k) = idt_pointer k
    \<and> interruptDescriptorTable (exception_vectors stub k) v =
        (if v < 0x14 then gate (stub (HandleException (unat v))) (if v = 9 then 2 else 0)
         else interruptDescriptorTable k v)"
proof -
  let ?idx = "of_nat :: nat \<Rightarrow> u8"
  have inj: "inj_on ?idx (set [0..<20])" by (auto simp: inj_on_def word_eq_iff_unat unat_of_nat)
  have "v \<in> ?idx ` set [0..<20] \<longleftrightarrow> v < 0x14"
    by (auto simp: word_less_nat_alt unat_of_nat image_iff intro!: bexI [of _ "unat v"])
  moreover have "unat v < 20" if "v < 0x14" using that by (simp add: word_less_nat_alt)
  moreover have "unat v = 9 \<longleftrightarrow> v = 9" by (simp add: word_eq_iff_unat)
  ultimately show ?thesis
    using set_entries [of ?idx "\<lambda>n. stub (HandleException n)" "\<lambda>n. if n = 9 then 2 else 0" "[0..<20]" k v] inj
    unfolding exception_vectors_def by (auto dest!: bspec [of _ _ "unat v"])
qed

lemma same_offset:
  assumes "hardwareInterruptOffset (managers k this) = b"
  shows "fold (\<lambda>n k. SetInterruptDescriptorTableEntry (ucast (hardwareInterruptOffset (managers k this) + of_nat n)) (h n) s fl st k) ns k
    = fold (\<lambda>n. SetInterruptDescriptorTableEntry (ucast (b + of_nat n)) (h n) s fl st) ns k"
  using assms by (induction ns arbitrary: k) (simp_all add: SetEntry_gate)

lemma hardware_vectors_set:
  assumes "hardwareInterruptOffset (managers k this) = 0x20"
  shows "managers (hardware_vectors stub this k) = managers k \<and> idtr (hardware_vectors stub this k) = idtr k
    \<and> interruptDescriptorTable (hardware_vectors stub this k) v =
        (if 0x20 \<le> v \<and> v < 0x30 then gate (stub (HandleInterruptRequest (unat (v - 0x20)))) 0
         else interruptDescriptorTable k v)"
proof -
  let ?idx = "\<lambda>n. ucast (0x20 + of_nat n :: u16) :: u8"
  have idx: "unat (?idx n) = 32 + n" if "n < 16" for n
    using that by (simp add: unat_word_ariths unat_of_nat unsigned_ucast_eq take_bit_eq_mod)
  have "hardware_vectors stub this k = fold (\<lambda>n. SetInterruptDescriptorTableEntry (?idx n) (stub (HandleInterruptRequest n)) 0x08
      IDT_INTERRUPT_GATE 0) [0..<16] k"
    unfolding hardware_vectors_def by (rule same_offset [OF assms])
  moreover have inj: "inj_on ?idx (set [0..<16])" using idx by (intro inj_onI) (metis add_left_cancel atLeastLessThan_iff set_upt)
  moreover have "v \<in> ?idx ` set [0..<16] \<longleftrightarrow> 0x20 \<le> v \<and> v < 0x30"
  proof
    assume "v \<in> ?idx ` set [0..<16]"
    then show "0x20 \<le> v \<and> v < 0x30" using idx by (auto simp: word_le_nat_alt word_less_nat_alt)
  next
    assume v: "0x20 \<le> v \<and> v < 0x30"
    then have "v = ?idx (unat v - 32)" "unat v - 32 < 16" using idx [of "unat v - 32"]
      by (auto simp: word_le_nat_alt word_less_nat_alt word_eq_iff_unat)
    then show "v \<in> ?idx ` set [0..<16]" by (metis atLeastLessThan_iff image_eqI set_upt le0)
  qed
  moreover have "unat (v - 0x20) < 16 \<and> ?idx (unat (v - 0x20)) = v" if "0x20 \<le> v \<and> v < 0x30"
  proof -
    have "unat (v - 0x20) = unat v - 32" using that by (simp add: unat_sub_no_wrap word_le_nat_alt)
    moreover have "unat v - 32 < 16" "32 \<le> unat v" using that by (auto simp: word_le_nat_alt word_less_nat_alt)
    ultimately show ?thesis using idx [of "unat v - 32"] by (simp add: word_eq_iff_unat)
  qed
  ultimately show ?thesis
    using set_entries [of ?idx "\<lambda>n. stub (HandleInterruptRequest n)" "\<lambda>_. 0" "[0..<16]" k v]
    by (auto dest!: bspec [of _ _ "unat (v - 0x20)"])
qed

lemma new_InterruptManager_state:
  fixes v :: u8 and stub table this k
  defines "k' \<equiv> new_InterruptManager stub table this k"
  shows "interruptDescriptorTable k' v = gate (stub (vector_isr v)) (if v = 9 then 2 else 0)"
    and "handlers (managers k' this) v = 0" and "hardwareInterruptOffset (managers k' this) = 0x20"
    and "PICToggled (managers k' this)" and "idtr k' = \<lparr>idt_Limit = 4095, idt_Offset = table\<rparr>"
proof -
  define k1 where "k1 = (let k = k\<lparr>managers := (managers k)(this := (managers k this)
            \<lparr>PICMasterCommandPort := Port8BitSlow 0x20, PICMasterDataPort := Port8BitSlow 0x21,
             PICSlaveCommandPort := Port8BitSlow 0xA0, PICSlaveDataPort := Port8BitSlow 0xA1, PICToggled := True\<rparr>)\<rparr>;
          k = k\<lparr>idt_pointer := \<lparr>idt_Limit = 256 * 16 - 1, idt_Offset = table\<rparr>\<rparr>
      in k\<lparr>managers := (managers k)(this := (managers k this)\<lparr>hardwareInterruptOffset := 0x20\<rparr>)\<rparr>)"
  define k2 where "k2 = fold (ignore_vector stub this) (rev [1..<256] @ [0]) k1"
  define k3 where "k3 = SetInterruptDescriptorTableEntry 0xFD (stub (HandleInterruptRequest 253)) 0x08 IDT_INTERRUPT_GATE 0
     (SetInterruptDescriptorTableEntry 0x80 (stub (HandleInterruptRequest 128)) 0x08 IDT_INTERRUPT_GATE 0 (exception_vectors stub k2))"
  define k4 where "k4 = program_PIC this 0x20 0x28 0x00 (k3\<lparr>idtr := idt_pointer k3\<rparr>)"
  have k': "k' = hardware_vectors stub this k4"
    by (simp add: k'_def new_InterruptManager_def k1_def k2_def k3_def k4_def Let_def)
  have k1: "hardwareInterruptOffset (managers k1 this) = 0x20" "PICToggled (managers k1 this)"
    "idt_pointer k1 = \<lparr>idt_Limit = 4095, idt_Offset = table\<rparr>"
    by (simp_all add: k1_def Let_def)
  have k2: "idt_pointer k2 = idt_pointer k1" "hardwareInterruptOffset (managers k2 this) = 0x20" "PICToggled (managers k2 this)"
    "handlers (managers k2 this) v = 0" "interruptDescriptorTable k2 v = gate (stub InterruptIgnore) 0"
    using ignore_vectors [of stub this "rev [1..<256] @ [0]" k1 v, folded k2_def] k1 every_vector [of v] by metis+
  have k4: "managers k4 = managers k2" "idtr k4 = idt_pointer k2"
    "interruptDescriptorTable k4 v =
       (if v = 0xFD then gate (stub (HandleInterruptRequest 253)) 0
        else if v = 0x80 then gate (stub (HandleInterruptRequest 128)) 0
        else if v < 0x14 then gate (stub (HandleException (unat v))) (if v = 9 then 2 else 0)
        else interruptDescriptorTable k2 v)"
    using exception_vectors_set [of stub k2 v]
    by (simp_all add: k4_def k3_def program_PIC_keeps SetEntry_gate)
  have "hardwareInterruptOffset (managers k4 this) = 0x20" using k2(2) k4(1) by simp
  note hw = hardware_vectors_set [OF this, of stub v, folded k']
  show "handlers (managers k' this) v = 0" "hardwareInterruptOffset (managers k' this) = 0x20"
    "PICToggled (managers k' this)" "idtr k' = \<lparr>idt_Limit = 4095, idt_Offset = table\<rparr>"
    using hw k4 k2 k1 by simp_all
  show "interruptDescriptorTable k' v = gate (stub (vector_isr v)) (if v = 9 then 2 else 0)"
    using hw k4(3) k2(5) by (auto simp: vector_isr_def word_less_nat_alt word_le_nat_alt)
qed


section \<open>Properties\<close>

text \<open>C16. The descriptor table is well formed once an interrupt manager has been built: each of the 256
  vectors holds a present interrupt gate on the kernel code segment whose three pieces of address make up
  the entry point of that vector, no vector has a handler, and the table register covers all of it.\<close>

theorem new_InterruptManager_gates:
  fixes v :: u8
  shows "let k' = new_InterruptManager stub table this k; g = interruptDescriptorTable k' v in
    gate_address g = stub (vector_isr v) \<and> selector g = 0x08 \<and> bit (gate_flags g) 7 \<and> gate_flags g AND 0xF = 0xE
    \<and> gate_null g = 0 \<and> ist g = (if v = 9 then 2 else 0)
    \<and> handlers (managers k' this) v = 0 \<and> idtr k' = \<lparr>idt_Limit = 4095, idt_Offset = table\<rparr>"
  by (simp add: Let_def new_InterruptManager_state) (simp add: gate_def IDT_INTERRUPT_GATE_def)

text \<open>What a processor does at an interrupt of the timer, with the scheduler behind it.\<close>

lemma LApic_log:
  "lapic_log (LocalAPICEOI l) = lapic_log l @ [(LOCAL_APIC_EOI, 0)]"
  "lapic_log (SendIPI d dsh type v l)
     = lapic_log l @ [(LOCAL_APIC_ICR_HIGH, push_bit 24 (ucast d)), (LOCAL_APIC_ICR_LOW, dsh OR type OR ICR_VECTOR v)]"
  by (simp_all add: LocalAPICEOI_def SendIPI_def LocalApicOut_def Let_def)


text \<open>A handler object is called for its vector and no other from its constructor to its destructor, and
  the destructor of an object that has been replaced leaves its successor in place.\<close>

lemma handler_lifetime:
  assumes "new_InterruptHandler this n mgr k = (h, k1)" and "this \<noteq> 0"
  shows "handlers (managers k1 mgr) n = this"
    and "\<not> (m = mgr \<and> v = n) \<Longrightarrow> handlers (managers k1 m) v = handlers (managers k m) v"
    and "handlers (managers (delete_InterruptHandler this h k1) mgr) n = 0"
    and "new_InterruptHandler this' n mgr k1 = (h', k2) \<Longrightarrow> this' \<noteq> this \<Longrightarrow>
      delete_InterruptHandler this h k2 = k2 \<and> handlers (managers k2 mgr) n = this'"
  using assms by (auto simp: fun_upd_def new_InterruptHandler_def delete_InterruptHandler_def set_handler_def)


text \<open>A kernel with two processes on its only processor, and the PIC switched off.\<close>

definition quiet_manager :: InterruptManager where
  "quiet_manager = \<lparr>handlers = (\<lambda>_. 0), hardwareInterruptOffset = 0x20, PICMasterCommandPort = Port8BitSlow 0x20,
     PICMasterDataPort = Port8BitSlow 0x21, PICSlaveCommandPort = Port8BitSlow 0xA0, PICSlaveDataPort = Port8BitSlow 0xA1,
     PICToggled = False\<rparr>"

definition two_kernel :: "proc_mem \<Rightarrow> u64 vector \<Rightarrow> lapic \<Rightarrow> (u8 \<Rightarrow> GateDescriptor) \<Rightarrow> kernel" where
  "two_kernel m v l idt = \<lparr>managers = (\<lambda>_. quiet_manager), interruptDescriptorTable = idt, ActiveInterruptManager = 0x1000,
     idt_pointer = \<lparr>idt_Limit = 4095, idt_Offset = 0\<rparr>, idtr = \<lparr>idt_Limit = 4095, idt_Offset = 0\<rparr>, interrupts_on = True,
     io_bus = [], scheduler = \<lparr>SchedulerReady = True, NextPID = 3, CPUs = [two_cpu], ActiveCPUs = 1,
       pmem = two_mem m, Dead = v, Sleeping = v, AllActive = v, local_apic = l\<rparr>, printed = []\<rparr>"


end
