(* ===== verification/Console.thy ===== *)
theory Console
  imports Memory
begin

text \<open>
  The text console: \<^verbatim>\<open>src/common/stdio.cpp\<close>. Video memory is a map from the address of a pixel to its
  colour. A string is the list of its characters in front of the terminating zero. \<open>None\<close> is a loop
  that never ends.
\<close>

record Framebuffer =
  BaseAddress :: u64
  BufferSize :: u64
  Width :: u32
  Height :: u32
  PixelsPerScanLine :: u32

record PSF1_FONT =
  charsize :: u8
  glyphBuffer :: u64
  glyph_bytes :: memory

type_synonym pixels = "u64 \<Rightarrow> u32"

record console =
  framebuffer :: Framebuffer
  psf1_font :: PSF1_FONT
  video :: pixels
  CursorX :: u32
  CursorY :: u32

section \<open>Pixels\<close>

text \<open>The products are computed in 32 bits and then widened.\<close>

definition pix_address :: "Framebuffer \<Rightarrow> u32 \<Rightarrow> u32 \<Rightarrow> u64" where
  "pix_address fb x y = BaseAddress fb + ucast (x * 4) + ucast (y * PixelsPerScanLine fb * 4)"

definition putPix :: "u32 \<Rightarrow> u32 \<Rightarrow> u32 \<Rightarrow> console \<Rightarrow> console" where
  "putPix x y color c = c\<lparr>video := (video c)(pix_address (framebuffer c) x y := color)\<rparr>"

definition getPix :: "u32 \<Rightarrow> u32 \<Rightarrow> console \<Rightarrow> u32" where
  "getPix x y c = video c (pix_address (framebuffer c) x y)"

text \<open>The other routines compute with 64 bits.\<close>

definition pixel :: "Framebuffer \<Rightarrow> u64 \<Rightarrow> u64 \<Rightarrow> u64" where
  "pixel fb x y = BaseAddress fb + 4 * (x + y * ucast (PixelsPerScanLine fb))"

partial_function (option) fill :: "u64 \<Rightarrow> u64 \<Rightarrow> u32 \<Rightarrow> pixels \<Rightarrow> pixels option" where
  "fill p e color v = (if p < e then fill (p + 4) e color (v(p := color)) else Some v)"

definition Clear :: "u32 \<Rightarrow> console \<Rightarrow> console option" where
  "Clear color c =
     (let fb = framebuffer c;
          fbBase = BaseAddress fb;
          bytesPerScanLine = ucast (PixelsPerScanLine fb * 4) :: u64;
          fbHeight = ucast (Height fb) :: u64
      in map_option (\<lambda>v. c\<lparr>video := v, CursorX := 0, CursorY := 0\<rparr>)
           (int_for fbHeight (\<lambda>verticalScanline v.
              let pixPtrBase = fbBase + (bytesPerScanLine * scast verticalScanline)
              in Option.bind v (fill pixPtrBase (pixPtrBase + bytesPerScanLine) color)) 0 (Some (video c))))"

section \<open>Scrolling\<close>

definition shift_pixel :: "Framebuffer \<Rightarrow> u64 \<Rightarrow> u64 \<Rightarrow> pixels \<Rightarrow> pixels" where
  "shift_pixel fb r c v = (let v = v(pixel fb c (r - 16) := v (pixel fb c r)) in v(pixel fb c r := 0x00000000))"

definition ShiftUp :: "console \<Rightarrow> console" where
  "ShiftUp c =
     (let fb = framebuffer c in
      c\<lparr>video := u64_for (ucast (Height fb)) (\<lambda>r. u64_for (ucast (Width fb)) (shift_pixel fb r) 0) 16 (video c),
        CursorY := CursorY c - 16\<rparr>)"

definition Next_line :: "console \<Rightarrow> console" where
  "Next_line c = c\<lparr>CursorX := 0, CursorY := CursorY c + 16\<rparr>"

partial_function (option) scroll :: "console \<Rightarrow> console option" where
  "scroll c = (if CursorY c + 16 \<ge> Height (framebuffer c) then scroll (ShiftUp c) else Some c)"

section \<open>Characters\<close>

text \<open>A character is signed: those from 0x80 on find their glyph in front of the buffer.\<close>

definition glyph :: "PSF1_FONT \<Rightarrow> u8 \<Rightarrow> u64" where
  "glyph f chr = glyphBuffer f + scast ((scast chr :: i32) * ucast (charsize f))"

definition draw_row :: "Framebuffer \<Rightarrow> u32 \<Rightarrow> u8 \<Rightarrow> u32 \<Rightarrow> u64 \<Rightarrow> pixels \<Rightarrow> pixels" where
  "draw_row fb color bits xOff y v =
     u64_for (ucast (xOff + 8)) (\<lambda>x v.
       if (ucast bits :: i32) AND drop_bit (unat (x - ucast xOff)) 0x80 \<noteq> 0 then v(pixel fb x y := color) else v)
       (ucast xOff) v"

definition draw_glyph :: "Framebuffer \<Rightarrow> PSF1_FONT \<Rightarrow> u32 \<Rightarrow> u8 \<Rightarrow> u32 \<Rightarrow> u32 \<Rightarrow> pixels \<Rightarrow> pixels" where
  "draw_glyph fb f color chr xOff yOff v =
     fst (u64_for (ucast (yOff + 16)) (\<lambda>y (v, fontPtr). (draw_row fb color (glyph_bytes f fontPtr) xOff y v, fontPtr + 1))
            (ucast yOff) (v, glyph f chr))"

definition putChar_at :: "u32 \<Rightarrow> u8 \<Rightarrow> u32 \<Rightarrow> u32 \<Rightarrow> console \<Rightarrow> console option" where
  "putChar_at color chr xOff yOff c =
     map_option (\<lambda>c. c\<lparr>video := draw_glyph (framebuffer c) (psf1_font c) color chr xOff yOff (video c)\<rparr>) (scroll c)"

definition putChar :: "u8 \<Rightarrow> u32 \<Rightarrow> console \<Rightarrow> console option" where
  "putChar chr color c =
     Option.bind (scroll c) (\<lambda>c. map_option (\<lambda>c.
       let c = c\<lparr>CursorX := CursorX c + 8\<rparr>
       in if CursorX c + 8 > Width (framebuffer c) then Next_line c else c)
       (putChar_at color chr (CursorX c) (CursorY c) c))"

text \<open>The cursor is read before \<open>putChar_at\<close> scrolls.\<close>

definition print_char :: "u8 \<Rightarrow> console \<Rightarrow> console option" where
  "print_char chr c =
     (if chr \<noteq> 0x0A
      then map_option (\<lambda>c.
             let c = c\<lparr>CursorX := CursorX c + 8\<rparr>
             in if CursorX c + 8 > Width (framebuffer c) then Next_line c else c)
             (putChar_at 0xFFFFFFFF chr (CursorX c) (CursorY c) c)
      else Some (Next_line c))"

fun print_chars :: "u8 list \<Rightarrow> console \<Rightarrow> console option" where
  "print_chars [] c = Some c"
| "print_chars (chr # str) c = Option.bind (print_char chr c) (print_chars str)"

definition printf :: "u8 list \<Rightarrow> console \<Rightarrow> console option" where
  "printf str c = Option.bind (scroll c) (print_chars str)"

section \<open>The cursor\<close>

definition ClearPos :: "console \<Rightarrow> console" where
  "ClearPos c = c\<lparr>CursorX := 0, CursorY := 0\<rparr>"

definition OffsetPos :: "i32 \<Rightarrow> i32 \<Rightarrow> console \<Rightarrow> console" where
  "OffsetPos x y c = c\<lparr>CursorX := CursorX c + x, CursorY := CursorY c + y\<rparr>"

definition SetPosX :: "u32 \<Rightarrow> console \<Rightarrow> console" where
  "SetPosX x c = c\<lparr>CursorX := x\<rparr>"

definition SetPosY :: "u32 \<Rightarrow> console \<Rightarrow> console" where
  "SetPosY y c = c\<lparr>CursorY := y\<rparr>"

definition GetXPos :: "console \<Rightarrow> u32" where
  "GetXPos c = CursorX c"

definition GetYPos :: "console \<Rightarrow> u32" where
  "GetYPos c = CursorY c"

section \<open>The picture\<close>

text \<open>A frame that lies in memory without wrapping around.\<close>

definition frame_ok :: "Framebuffer \<Rightarrow> bool" where
  "frame_ok fb \<longleftrightarrow> unat (BaseAddress fb) + 4 * (unat (PixelsPerScanLine fb) * unat (Height fb)) < 2 ^ 64
     \<and> Width fb \<le> PixelsPerScanLine fb \<and> unat (PixelsPerScanLine fb) < 2 ^ 30 \<and> unat (Height fb) \<le> 2 ^ 31"

definition picture :: "Framebuffer \<Rightarrow> pixels \<Rightarrow> nat \<Rightarrow> nat \<Rightarrow> u32" where
  "picture fb v x y = v (pixel fb (of_nat x) (of_nat y))"

lemma pixel_of_nat:
  "pixel fb (of_nat x) (of_nat y) = BaseAddress fb + of_nat (4 * (x + y * unat (PixelsPerScanLine fb)))"
proof -
  have "(of_nat (unat (PixelsPerScanLine fb)) :: u64) = ucast (PixelsPerScanLine fb)"
    by (simp add: word_eq_iff_unat unat_of_nat less_trans [OF unat_u32_less])
  then show ?thesis by (simp add: pixel_def)
qed

lemma grid_index:
  fixes x y P H :: nat
  assumes "x < P" and "y < H"
  shows "x + y * P < P * H"
proof -
  have "x + y * P < P * (y + 1)" using assms(1) by (simp add: algebra_simps)
  also have "\<dots> \<le> P * H" using assms(2) by (intro mult_le_mono2) simp
  finally show ?thesis .
qed

lemma pixel_inj:
  assumes "frame_ok fb" and "x < unat (PixelsPerScanLine fb)" "y < unat (Height fb)"
    and "x' < unat (PixelsPerScanLine fb)" "y' < unat (Height fb)"
  shows "pixel fb (of_nat x) (of_nat y) = pixel fb (of_nat x') (of_nat y') \<longleftrightarrow> x = x' \<and> y = y'"
proof -
  let ?P = "unat (PixelsPerScanLine fb)"
  have b: "4 * (x + y * ?P) < 2 ^ 64" "4 * (x' + y' * ?P) < 2 ^ 64"
    using grid_index [OF assms(2,3)] grid_index [OF assms(4,5)] assms(1) by (simp_all add: frame_ok_def)
  have "pixel fb (of_nat x) (of_nat y) = pixel fb (of_nat x') (of_nat y') \<longleftrightarrow> x + y * ?P = x' + y' * ?P"
  proof
    assume "pixel fb (of_nat x) (of_nat y) = pixel fb (of_nat x') (of_nat y')"
    then have "(of_nat (4 * (x + y * ?P)) :: u64) = of_nat (4 * (x' + y' * ?P))"
      by (simp only: pixel_of_nat add_left_cancel)
    then have "4 * (x + y * ?P) = 4 * (x' + y' * ?P)" using b by (metis unat_of_nat_u64)
    then show "x + y * ?P = x' + y' * ?P" by simp
  qed (simp only: pixel_of_nat)
  also have "\<dots> \<longleftrightarrow> x = x' \<and> y = y'"
  proof
    assume e: "x + y * ?P = x' + y' * ?P"
    have "(x + y * ?P) div ?P = y" "(x' + y' * ?P) div ?P = y'" using assms(2,4) by simp_all
    with e show "x = x' \<and> y = y'" by simp
  qed simp
  finally show ?thesis .
qed

text \<open>Outside of the rectangle of \<open>w\<close> columns and \<open>h\<close> rows nothing has changed.\<close>

definition only_frame :: "Framebuffer \<Rightarrow> nat \<Rightarrow> nat \<Rightarrow> pixels \<Rightarrow> pixels \<Rightarrow> bool" where
  "only_frame fb w h v v' \<longleftrightarrow> (\<forall>p. v' p = v p \<or> (\<exists>x < w. \<exists>y < h. p = pixel fb (of_nat x) (of_nat y)))"

lemma only_frame_trans: "only_frame fb w h u v \<Longrightarrow> only_frame fb w h v t \<Longrightarrow> only_frame fb w h u t"
  unfolding only_frame_def by metis

lemma only_frame_refl [simp]: "only_frame fb w h v v"
  by (simp add: only_frame_def)

section \<open>Clearing\<close>

lemma fill_spec:
  assumes "unat p + 4 * n < 2 ^ 64"
  shows "fill p (p + of_nat (4 * n)) color v = Some (\<lambda>x. if \<exists>j < n. x = p + of_nat (4 * j) then color else v x)"
  using assms
proof (induction n arbitrary: p v)
  case 0
  then show ?case by (simp add: fill.simps)
next
  case (Suc n)
  define d :: u64 where "d = of_nat (4 * Suc n)"
  have d: "unat d = 4 * Suc n" unfolding d_def using Suc.prems by (intro unat_of_nat_u64) simp
  have "unat (p + d) = unat p + unat d" using d Suc.prems by (intro unat_add_no_wrap) simp
  then have less: "p < p + of_nat (4 * Suc n)" unfolding d_def [symmetric] using d by (simp add: word_less_nat_alt)
  have p4: "unat (p + 4) = unat p + 4" using Suc.prems by (subst unat_add_no_wrap) simp_all
  have e: "p + of_nat (4 * Suc n) = (p + 4) + of_nat (4 * n)" by simp
  have ex: "(\<exists>j < Suc n. x = p + of_nat (4 * j)) \<longleftrightarrow> x = p \<or> (\<exists>j < n. x = (p + 4) + of_nat (4 * j))" for x
    by (simp add: Ex_less_Suc2 algebra_simps)
  have "fill p (p + of_nat (4 * Suc n)) color v = fill (p + 4) ((p + 4) + of_nat (4 * n)) color (v(p := color))"
    using less unfolding e by (subst fill.simps) simp
  also have "\<dots> = Some (\<lambda>x. if \<exists>j < n. x = (p + 4) + of_nat (4 * j) then color else (v(p := color)) x)"
    using Suc.prems p4 by (intro Suc.IH) simp
  finally show ?case unfolding ex by (auto simp: fun_eq_iff)
qed

lemma Clear_spec:
  assumes ok: "frame_ok (framebuffer c)"
  defines "fb \<equiv> framebuffer c"
  shows "Clear color c = Some (c\<lparr>video := (\<lambda>p.
      if \<exists>x < unat (PixelsPerScanLine fb). \<exists>y < unat (Height fb). p = pixel fb (of_nat x) (of_nat y)
      then color else video c p), CursorX := 0, CursorY := 0\<rparr>)"
proof -
  let ?P = "unat (PixelsPerScanLine fb)"
  let ?body = "\<lambda>verticalScanline :: i32. \<lambda>v.
              let pixPtrBase = BaseAddress fb + (ucast (PixelsPerScanLine fb * 4) * scast verticalScanline)
              in Option.bind v (fill pixPtrBase (pixPtrBase + ucast (PixelsPerScanLine fb * 4)) color)"
  have P: "?P < 2 ^ 30" "unat (Height fb) \<le> 2 ^ 31" "unat (BaseAddress fb) + 4 * (?P * unat (Height fb)) < 2 ^ 64"
    using ok by (simp_all add: frame_ok_def fb_def)
  have bytes: "(ucast (PixelsPerScanLine fb * 4) :: u64) = of_nat (4 * ?P)"
    using P(1) by (simp add: word_eq_iff_unat unat_of_nat unat_word_ariths)
  define Q where "Q k v \<longleftrightarrow> v = Some (\<lambda>p. if \<exists>x < ?P. \<exists>y < k. p = pixel fb (of_nat x) (of_nat y) then color else video c p)"
    for k v
  have "Q (unat (Height fb)) (fold (\<lambda>j. ?body (of_nat j)) [0..<unat (Height fb)] (Some (video c)))"
  proof (rule fold_invariant_upt)
    show "Q 0 (Some (video c))" by (simp add: Q_def)
  next
    fix k v
    assume k: "k < unat (Height fb)" and Q: "Q k v"
    have "k * ?P + ?P \<le> ?P * unat (Height fb)" using k by (metis Suc_leI add.commute mult.commute mult_Suc_right mult_le_mono2)
    then have room: "unat (BaseAddress fb) + 4 * (k * ?P) + 4 * ?P < 2 ^ 64" using P(3) by linarith
    have s: "(scast (of_nat k :: i32) :: u64) = of_nat k"
      using k P(2) by (simp add: word_eq_iff_unat scast_nonneg_i32 unat_of_nat)
    define b where "b = BaseAddress fb + of_nat (4 * (k * ?P))"
    have b: "BaseAddress fb + (of_nat (4 * ?P) * of_nat k) = b" by (simp add: b_def mult_ac)
    have "unat b = unat (BaseAddress fb) + 4 * (k * ?P)"
      unfolding b_def using room by (subst unat_add_no_wrap) (simp_all add: unat_of_nat_u64 del: of_nat_mult)
    then have fill_b: "fill b (b + of_nat (4 * ?P)) color u = Some (\<lambda>x. if \<exists>j < ?P. x = b + of_nat (4 * j) then color else u x)" for u
      using room by (intro fill_spec) simp
    have px: "pixel fb (of_nat j) (of_nat k) = b + of_nat (4 * j)" for j
      by (simp add: pixel_of_nat b_def algebra_simps)
    have f: "fill b (b + of_nat (4 * ?P)) color u
        = Some (\<lambda>x. if \<exists>j < ?P. x = pixel fb (of_nat j) (of_nat k) then color else u x)" for u
      unfolding px by (rule fill_b)
    show "Q (Suc k) (?body (of_nat k) v)"
      using Q by (auto simp: Q_def bytes s b f less_Suc_eq Let_def fun_eq_iff simp del: of_nat_mult)
  qed
  moreover have "unat (ucast (Height fb) :: u64) = unat (Height fb)" by simp
  ultimately have "Q (unat (Height fb)) (int_for (ucast (Height fb)) ?body 0 (Some (video c)))"
    using P(2) by (subst int_for_fold) simp_all
  then show ?thesis by (simp add: Clear_def Q_def Let_def fb_def [symmetric])
qed


section \<open>Scrolling moves the picture up\<close>

lemma fold_invariant_from:
  assumes "P a s" and "a \<le> n" and "\<And>k s. a \<le> k \<Longrightarrow> k < n \<Longrightarrow> P k s \<Longrightarrow> P (Suc k) (f k s)"
  shows "P n (fold f [a..<n] s)"
  using assms(2,3)
proof (induction n)
  case (Suc n)
  show ?case
  proof (cases "a = Suc n")
    case False
    then have "a \<le> n" using Suc.prems(1) by simp
    with Suc show ?thesis by simp
  qed (use assms(1) in simp)
qed (use assms(1) in simp)

lemma shift_pixel_picture:
  assumes "frame_ok fb" and "c < unat (PixelsPerScanLine fb)" and "16 \<le> r" "r < unat (Height fb)"
  shows "x < unat (PixelsPerScanLine fb) \<Longrightarrow> y < unat (Height fb) \<Longrightarrow>
      picture fb (shift_pixel fb (of_nat r) (of_nat c) v) x y =
        (if x = c \<and> y = r then 0 else if x = c \<and> y = r - 16 then picture fb v c r else picture fb v x y)"
    and "p \<noteq> pixel fb (of_nat c) (of_nat r) \<Longrightarrow> p \<noteq> pixel fb (of_nat c) (of_nat (r - 16)) \<Longrightarrow>
      shift_pixel fb (of_nat r) (of_nat c) v p = v p"
proof -
  have r: "(of_nat r - 16 :: u64) = of_nat (r - 16)" "r - 16 < unat (Height fb)" "r - 16 \<noteq> r" using assms(3,4) by simp_all
  show "picture fb (shift_pixel fb (of_nat r) (of_nat c) v) x y =
        (if x = c \<and> y = r then 0 else if x = c \<and> y = r - 16 then picture fb v c r else picture fb v x y)"
    if xy: "x < unat (PixelsPerScanLine fb)" "y < unat (Height fb)"
  proof -
    have "pixel fb (of_nat x) (of_nat y) = pixel fb (of_nat c) (of_nat r) \<longleftrightarrow> x = c \<and> y = r"
      "pixel fb (of_nat x) (of_nat y) = pixel fb (of_nat c) (of_nat (r - 16)) \<longleftrightarrow> x = c \<and> y = r - 16"
      using pixel_inj [OF assms(1) xy assms(2)] assms(4) r(2) by blast+
    then show ?thesis unfolding shift_pixel_def picture_def Let_def r(1) fun_upd_apply by simp
  qed
  show "p \<noteq> pixel fb (of_nat c) (of_nat r) \<Longrightarrow> p \<noteq> pixel fb (of_nat c) (of_nat (r - 16)) \<Longrightarrow>
      shift_pixel fb (of_nat r) (of_nat c) v p = v p"
    by (simp add: shift_pixel_def Let_def r)
qed

definition row_shifted :: "Framebuffer \<Rightarrow> nat \<Rightarrow> pixels \<Rightarrow> nat \<Rightarrow> pixels \<Rightarrow> bool" where
  "row_shifted fb r v k v' \<longleftrightarrow> only_frame fb (unat (Width fb)) (unat (Height fb)) v v'
    \<and> (\<forall>x < unat (PixelsPerScanLine fb). \<forall>y < unat (Height fb). picture fb v' x y =
        (if x < k \<and> y = r then 0 else if x < k \<and> y = r - 16 then picture fb v x r else picture fb v x y))"

lemma shift_row:
  assumes "frame_ok fb" and "16 \<le> r" "r < unat (Height fb)"
  shows "row_shifted fb r v (unat (Width fb)) (u64_for (ucast (Width fb)) (shift_pixel fb (of_nat r)) 0 v)"
proof -
  have W: "unat (Width fb) \<le> unat (PixelsPerScanLine fb)"
    using assms(1) by (simp add: frame_ok_def word_le_nat_alt)
  have "row_shifted fb r v (unat (Width fb)) (fold (\<lambda>j. shift_pixel fb (of_nat r) (of_nat j)) [0..<unat (Width fb)] v)"
  proof (rule fold_invariant_upt [where P = "row_shifted fb r v"])
    show "row_shifted fb r v 0 v" by (simp add: row_shifted_def)
  next
    fix k u
    assume k: "k < unat (Width fb)" and u: "row_shifted fb r v k u"
    then have kP: "k < unat (PixelsPerScanLine fb)" using W by simp
    note step = shift_pixel_picture [OF assms(1) kP assms(2,3)]
    have "only_frame fb (unat (Width fb)) (unat (Height fb)) u (shift_pixel fb (of_nat r) (of_nat k) u)"
      unfolding only_frame_def using step(2) k assms(3) by (metis less_imp_diff_less)
    then show "row_shifted fb r v (Suc k) (shift_pixel fb (of_nat r) (of_nat k) u)"
      using u step(1) kP assms(2,3) unfolding row_shifted_def
      by (auto simp: less_Suc_eq intro: only_frame_trans)
  qed
  then show ?thesis by (simp add: u64_for_fold)
qed

definition rows_shifted :: "Framebuffer \<Rightarrow> pixels \<Rightarrow> nat \<Rightarrow> pixels \<Rightarrow> bool" where
  "rows_shifted fb v r v' \<longleftrightarrow> only_frame fb (unat (Width fb)) (unat (Height fb)) v v'
    \<and> (\<forall>x < unat (PixelsPerScanLine fb). \<forall>y < unat (Height fb). picture fb v' x y =
        (if x < unat (Width fb) \<and> y + 16 < r then picture fb v x (y + 16)
         else if x < unat (Width fb) \<and> 16 \<le> y \<and> y < r then 0 else picture fb v x y))"

lemma ShiftUp_spec:
  assumes "frame_ok (framebuffer c)" and "16 \<le> unat (Height (framebuffer c))"
  shows "rows_shifted (framebuffer c) (video c) (unat (Height (framebuffer c))) (video (ShiftUp c))"
    and "framebuffer (ShiftUp c) = framebuffer c" and "psf1_font (ShiftUp c) = psf1_font c"
    and "CursorX (ShiftUp c) = CursorX c" and "CursorY (ShiftUp c) = CursorY c - 16"
proof -
  let ?fb = "framebuffer c"
  have "rows_shifted ?fb (video c) (unat (Height ?fb))
      (fold (\<lambda>j. u64_for (ucast (Width ?fb)) (shift_pixel ?fb (of_nat j)) 0) [16..<unat (Height ?fb)] (video c))"
  proof (rule fold_invariant_from [where P = "rows_shifted ?fb (video c)"])
    show "rows_shifted ?fb (video c) 16 (video c)" by (auto simp: rows_shifted_def)
  next
    fix r v
    assume r: "16 \<le> r" "r < unat (Height ?fb)" and v: "rows_shifted ?fb (video c) r v"
    have "row_shifted ?fb r v (unat (Width ?fb)) (u64_for (ucast (Width ?fb)) (shift_pixel ?fb (of_nat r)) 0 v)"
      using assms(1) r by (rule shift_row)
    then show "rows_shifted ?fb (video c) (Suc r) (u64_for (ucast (Width ?fb)) (shift_pixel ?fb (of_nat r)) 0 v)"
      using v r unfolding rows_shifted_def row_shifted_def
      by (auto intro: only_frame_trans)
  qed (use assms(2) in simp)
  then show "rows_shifted ?fb (video c) (unat (Height ?fb)) (video (ShiftUp c))"
    using u64_for_upt [of 16 "ucast (Height ?fb)" "\<lambda>r. u64_for (ucast (Width ?fb)) (shift_pixel ?fb r) 0" "video c"] assms(2)
    by (simp add: ShiftUp_def Let_def)
qed (simp_all add: ShiftUp_def Let_def)

section \<open>Printing comes to an end\<close>

lemma ShiftUp_keeps [simp]:
  "framebuffer (ShiftUp c) = framebuffer c" "psf1_font (ShiftUp c) = psf1_font c"
  "CursorX (ShiftUp c) = CursorX c" "CursorY (ShiftUp c) = CursorY c - 16"
  by (simp_all add: ShiftUp_def Let_def)

lemma scroll_returns:
  assumes "32 \<le> unat (Height (framebuffer c))" and "unat (CursorY c) + 16 < 2 ^ 32"
  shows "\<exists>n. scroll c = Some ((ShiftUp ^^ n) c) \<and> 16 * n \<le> unat (CursorY c)
    \<and> unat (CursorY ((ShiftUp ^^ n) c)) = unat (CursorY c) - 16 * n
    \<and> unat (CursorY ((ShiftUp ^^ n) c)) + 16 < unat (Height (framebuffer c))
    \<and> framebuffer ((ShiftUp ^^ n) c) = framebuffer c \<and> psf1_font ((ShiftUp ^^ n) c) = psf1_font c
    \<and> CursorX ((ShiftUp ^^ n) c) = CursorX c"
  using assms
proof (induction "unat (CursorY c)" arbitrary: c rule: less_induct)
  case less
  have y16: "unat (CursorY c + 16) = unat (CursorY c) + 16"
    using less.prems(2) by (subst unat_add_no_wrap) simp_all
  show ?case
  proof (cases "CursorY c + 16 \<ge> Height (framebuffer c)")
    case False
    then have "scroll c = Some ((ShiftUp ^^ 0) c)" by (subst scroll.simps) simp
    then show ?thesis using False y16 by (intro exI [of _ 0]) (simp add: word_less_nat_alt not_le)
  next
    case True
    then have "16 \<le> unat (CursorY c)" using less.prems(1) y16 by (simp add: word_le_nat_alt)
    then have y: "unat (CursorY (ShiftUp c)) = unat (CursorY c) - 16" "16 \<le> unat (CursorY c)"
      by (simp_all add: unat_sub_no_wrap)
    have "unat (CursorY (ShiftUp c)) < unat (CursorY c)" using y by simp
    from less.hyps [OF this] less.prems y have "\<exists>n. scroll (ShiftUp c) = Some ((ShiftUp ^^ n) (ShiftUp c))
      \<and> 16 * n \<le> unat (CursorY c) - 16
      \<and> unat (CursorY ((ShiftUp ^^ n) (ShiftUp c))) = unat (CursorY c) - 16 - 16 * n
      \<and> unat (CursorY ((ShiftUp ^^ n) (ShiftUp c))) + 16 < unat (Height (framebuffer c))
      \<and> framebuffer ((ShiftUp ^^ n) (ShiftUp c)) = framebuffer c \<and> psf1_font ((ShiftUp ^^ n) (ShiftUp c)) = psf1_font c
      \<and> CursorX ((ShiftUp ^^ n) (ShiftUp c)) = CursorX c" by simp
    then obtain n where n:
      "scroll (ShiftUp c) = Some ((ShiftUp ^^ n) (ShiftUp c))" "16 * n \<le> unat (CursorY c) - 16"
      "unat (CursorY ((ShiftUp ^^ n) (ShiftUp c))) = unat (CursorY c) - 16 - 16 * n"
      "unat (CursorY ((ShiftUp ^^ n) (ShiftUp c))) + 16 < unat (Height (framebuffer c))"
      "framebuffer ((ShiftUp ^^ n) (ShiftUp c)) = framebuffer c" "psf1_font ((ShiftUp ^^ n) (ShiftUp c)) = psf1_font c"
      "CursorX ((ShiftUp ^^ n) (ShiftUp c)) = CursorX c" by blast
    have "(ShiftUp ^^ Suc n) c = (ShiftUp ^^ n) (ShiftUp c)" by (simp add: funpow_swap1)
    moreover have "scroll c = scroll (ShiftUp c)" using True by (subst scroll.simps) simp
    ultimately show ?thesis using n y(2) by (intro exI [of _ "Suc n"]) auto
  qed
qed

text \<open>A cursor whose column leaves room for a character.\<close>

definition cursor_ok :: "console \<Rightarrow> bool" where
  "cursor_ok c \<longleftrightarrow> unat (CursorX c) + 8 \<le> unat (Width (framebuffer c)) \<and> unat (Width (framebuffer c)) + 8 < 2 ^ 32
     \<and> 32 \<le> unat (Height (framebuffer c))"

lemma advance:
  assumes "cursor_ok c" and "unat (CursorY c) + 16 < 2 ^ 32"
  defines "d \<equiv> c\<lparr>CursorX := CursorX c + 8\<rparr>"
  defines "e \<equiv> (if CursorX d + 8 > Width (framebuffer d) then Next_line d else d)"
  shows "cursor_ok e" and "framebuffer e = framebuffer c" and "psf1_font e = psf1_font c" and "video e = video c"
    and "unat (CursorY e) \<le> unat (CursorY c) + 16"
proof -
  have x: "unat (CursorX c + 8) = unat (CursorX c) + 8" "unat (CursorX c + 8 + 8) = unat (CursorX c) + 16"
    using assms(1) unat_u32_less [of "CursorX c"]
    by (simp_all add: cursor_ok_def unat_add_no_wrap unat_word_ariths)
  have y: "unat (CursorY c + 16) = unat (CursorY c) + 16"
    using assms(2) by (subst unat_add_no_wrap) simp_all
  show "cursor_ok e" "framebuffer e = framebuffer c" "psf1_font e = psf1_font c" "video e = video c"
    "unat (CursorY e) \<le> unat (CursorY c) + 16"
    using assms(1) x y
    by (auto simp: e_def d_def Next_line_def cursor_ok_def word_less_nat_alt not_less)
qed

lemma print_char_returns:
  assumes "cursor_ok c" and "unat (CursorY c) + 32 < 2 ^ 32"
  shows "\<exists>c'. print_char chr c = Some c' \<and> cursor_ok c' \<and> framebuffer c' = framebuffer c \<and> psf1_font c' = psf1_font c
    \<and> unat (CursorY c') \<le> unat (CursorY c) + 16"
proof (cases "chr = 0x0A")
  case True
  have "unat (CursorY c + 16) = unat (CursorY c) + 16"
    using assms(2) by (subst unat_add_no_wrap) simp_all
  then show ?thesis using True assms(1) by (auto simp: print_char_def Next_line_def cursor_ok_def)
next
  case False
  obtain n where n: "scroll c = Some ((ShiftUp ^^ n) c)" "unat (CursorY ((ShiftUp ^^ n) c)) = unat (CursorY c) - 16 * n"
    "framebuffer ((ShiftUp ^^ n) c) = framebuffer c" "psf1_font ((ShiftUp ^^ n) c) = psf1_font c"
    "CursorX ((ShiftUp ^^ n) c) = CursorX c"
    using scroll_returns [of c] assms by (auto simp: cursor_ok_def)
  define d where "d = (let c' = (ShiftUp ^^ n) c in
    c'\<lparr>video := draw_glyph (framebuffer c') (psf1_font c') 0xFFFFFFFF chr (CursorX c) (CursorY c) (video c')\<rparr>)"
  have d: "cursor_ok d" "unat (CursorY d) \<le> unat (CursorY c)" "framebuffer d = framebuffer c" "psf1_font d = psf1_font c"
    using assms(1) n by (simp_all add: d_def Let_def cursor_ok_def)
  have "putChar_at 0xFFFFFFFF chr (CursorX c) (CursorY c) c = Some d"
    by (simp add: putChar_at_def n(1) d_def Let_def)
  then have "print_char chr c = Some (let d = d\<lparr>CursorX := CursorX d + 8\<rparr>
      in if CursorX d + 8 > Width (framebuffer d) then Next_line d else d)"
    using False by (simp add: print_char_def)
  then show ?thesis using advance [OF d(1)] d assms(2) by (auto simp: Let_def)
qed

lemma print_chars_return:
  assumes "cursor_ok c" and "unat (CursorY c) + 16 * length str + 16 < 2 ^ 32"
  shows "\<exists>c'. print_chars str c = Some c' \<and> cursor_ok c' \<and> framebuffer c' = framebuffer c \<and> psf1_font c' = psf1_font c
    \<and> unat (CursorY c') \<le> unat (CursorY c) + 16 * length str"
  using assms
proof (induction str arbitrary: c)
  case (Cons chr str)
  obtain d where d: "print_char chr c = Some d" "cursor_ok d" "framebuffer d = framebuffer c" "psf1_font d = psf1_font c"
    "unat (CursorY d) \<le> unat (CursorY c) + 16"
    using print_char_returns [of c chr] Cons.prems by auto
  from Cons.IH [OF d(2)] d(5) Cons.prems(2) obtain e where "print_chars str d = Some e" "cursor_ok e"
    "framebuffer e = framebuffer d" "psf1_font e = psf1_font d" "unat (CursorY e) \<le> unat (CursorY d) + 16 * length str" by auto
  with d show ?case by auto
qed simp


lemma printf_ends:
  assumes "cursor_ok c" and "unat (CursorY c) + 16 * length str + 16 < 2 ^ 32"
  shows "\<exists>c'. printf str c = Some c' \<and> cursor_ok c' \<and> framebuffer c' = framebuffer c
    \<and> unat (CursorY c') \<le> unat (CursorY c) + 16 * length str"
proof -
  obtain n where n: "scroll c = Some ((ShiftUp ^^ n) c)" "unat (CursorY ((ShiftUp ^^ n) c)) = unat (CursorY c) - 16 * n"
    "framebuffer ((ShiftUp ^^ n) c) = framebuffer c" "CursorX ((ShiftUp ^^ n) c) = CursorX c"
    using scroll_returns [of c] assms by (auto simp: cursor_ok_def)
  then have "cursor_ok ((ShiftUp ^^ n) c)" "unat (CursorY ((ShiftUp ^^ n) c)) \<le> unat (CursorY c)"
    using assms(1) by (simp_all add: cursor_ok_def)
  moreover from this(2) have "unat (CursorY ((ShiftUp ^^ n) c)) + 16 * length str + 16 < 2 ^ 32" using assms(2) by linarith
  ultimately obtain c' where "print_chars str ((ShiftUp ^^ n) c) = Some c'" "cursor_ok c'"
    "framebuffer c' = framebuffer c" "unat (CursorY c') \<le> unat (CursorY c) + 16 * length str"
    using print_chars_return [of "(ShiftUp ^^ n) c" str] n(3) by fastforce
  then show ?thesis using n(1) by (simp add: printf_def)
qed

section \<open>Properties\<close>

text \<open>\<open>Clear\<close> paints every pixel of the frame, the ones behind the visible width included, touches nothing
  else, and puts the cursor into the corner.\<close>

theorem Clear_paints:
  assumes "frame_ok (framebuffer c)"
  shows "\<exists>c'. Clear color c = Some c' \<and> CursorX c' = 0 \<and> CursorY c' = 0
    \<and> (\<forall>x y. x < unat (PixelsPerScanLine (framebuffer c)) \<longrightarrow> y < unat (Height (framebuffer c)) \<longrightarrow>
         picture (framebuffer c) (video c') x y = color)
    \<and> only_frame (framebuffer c) (unat (PixelsPerScanLine (framebuffer c))) (unat (Height (framebuffer c))) (video c) (video c')"
  unfolding Clear_spec [OF assms] by (auto simp: picture_def only_frame_def)

text \<open>C31. \<open>ShiftUp\<close> moves the picture up by the sixteen rows of a line, leaves the last line black, moves the cursor
  with it, and changes nothing outside of the visible part of the frame.\<close>

theorem ShiftUp_scrolls:
  assumes "frame_ok (framebuffer c)" and "32 \<le> unat (Height (framebuffer c))"
  shows "(\<forall>x y. x < unat (Width (framebuffer c)) \<longrightarrow> y < unat (Height (framebuffer c)) \<longrightarrow>
      picture (framebuffer c) (video (ShiftUp c)) x y
        = (if y + 16 < unat (Height (framebuffer c)) then picture (framebuffer c) (video c) x (y + 16) else 0))
    \<and> only_frame (framebuffer c) (unat (Width (framebuffer c))) (unat (Height (framebuffer c))) (video c) (video (ShiftUp c))
    \<and> CursorY (ShiftUp c) = CursorY c - 16"
proof -
  have "Width (framebuffer c) \<le> PixelsPerScanLine (framebuffer c)" using assms(1) by (simp add: frame_ok_def)
  then show ?thesis
    using ShiftUp_spec [OF assms(1)] assms(2) by (auto simp: rows_shifted_def word_le_nat_alt)
qed


text \<open>A character that is printed when the cursor has reached the last line goes one line below the cursor:
  the screen is scrolled after its place has been read.\<close>

lemma print_char_misplaced:
  assumes "chr \<noteq> 0x0A" and "32 \<le> unat (Height (framebuffer c))" and "unat (CursorX c) + 16 \<le> unat (Width (framebuffer c))"
    and "unat (CursorY c) + 16 = unat (Height (framebuffer c))"
  shows "\<exists>c'. print_char chr c = Some c' \<and> CursorY c' = CursorY c - 16
    \<and> video c' = draw_glyph (framebuffer c) (psf1_font c) 0xFFFFFFFF chr (CursorX c) (CursorY c) (video (ShiftUp c))"
proof -
  have b: "unat (CursorY c) + 16 < 2 ^ 32" using assms(4) unat_u32_less [of "Height (framebuffer c)"] by simp
  have y: "unat (CursorY c + 16) = unat (CursorY c) + 16" using b by (subst unat_add_no_wrap) simp_all
  have below: "Height (framebuffer c) \<le> CursorY c + 16" "\<not> Height (framebuffer c) \<le> CursorY c"
    using assms(2,4) y by (auto simp: word_le_nat_alt)
  have "scroll (ShiftUp c) = Some (ShiftUp c)" using below(2) by (subst scroll.simps) simp
  then have "scroll c = Some (ShiftUp c)" using below(1) by (subst scroll.simps) simp
  moreover have "unat (CursorX c + 8 + 8) = unat (CursorX c) + 16"
    using assms(3) unat_u32_less [of "Width (framebuffer c)"] by (simp add: unat_add_no_wrap unat_word_ariths)
  ultimately show ?thesis
    using assms(1,3) by (simp add: print_char_def putChar_at_def word_less_nat_alt)
qed

section \<open>Witnesses\<close>

definition vga :: "pixels \<Rightarrow> PSF1_FONT \<Rightarrow> console" where
  "vga v f = \<lparr>framebuffer = \<lparr>BaseAddress = 0xC0000000, BufferSize = 0x12C000, Width = 640, Height = 480, PixelsPerScanLine = 640\<rparr>,
     psf1_font = f, video = v, CursorX = 0, CursorY = 464\<rparr>"

theorem Clear_paints_witness:
  "\<forall>v f. \<exists>c'. Clear 7 (vga v f) = Some c' \<and> CursorY c' = 0 \<and> picture (framebuffer (vga v f)) (video c') 639 479 = 7"
proof (intro allI)
  fix v f
  have "frame_ok (framebuffer (vga v f))" by (simp add: vga_def frame_ok_def)
  from Clear_paints [OF this, of 7]
  show "\<exists>c'. Clear 7 (vga v f) = Some c' \<and> CursorY c' = 0 \<and> picture (framebuffer (vga v f)) (video c') 639 479 = 7"
    by (auto simp: vga_def)
qed

theorem ShiftUp_scrolls_witness:
  "\<forall>v f. picture (framebuffer (vga v f)) (video (ShiftUp (vga v f))) 5 463 = picture (framebuffer (vga v f)) v 5 479
    \<and> picture (framebuffer (vga v f)) (video (ShiftUp (vga v f))) 5 464 = 0"
proof (intro allI)
  fix v f
  have "frame_ok (framebuffer (vga v f))" "32 \<le> unat (Height (framebuffer (vga v f)))" by (simp_all add: vga_def frame_ok_def)
  note moved = conjunct1 [OF ShiftUp_scrolls [OF this], rule_format]
  from moved [of 5 463] moved [of 5 464]
  show "picture (framebuffer (vga v f)) (video (ShiftUp (vga v f))) 5 463 = picture (framebuffer (vga v f)) v 5 479
    \<and> picture (framebuffer (vga v f)) (video (ShiftUp (vga v f))) 5 464 = 0"
    by (simp add: vga_def)
qed


end
