(* ===== verification/Panic.thy ===== *)
theory Panic
  imports Console
begin

text \<open>
  The panic screen: \<^verbatim>\<open>src/exceptions/panic.cpp\<close>. \<open>Panic\<close> and \<open>Exception\<close> end in a loop that does nothing;
  their result here is the screen they reach it with. \<open>None\<close> is a loop before that never ends, or a message
  that is read behind the end of the table.
\<close>

definition c_string :: "string \<Rightarrow> u8 list" where
  "c_string s = map (\<lambda>ch. of_nat (of_char ch)) s"

definition ErrImg :: "nat list list" where
  "ErrImg = [
    [0, 0, 0, 0, 0, 0, 0, 0, 0, 0, 0, 0, 0, 0, 0, 0, 0, 0, 0, 0, 0, 0, 0, 0, 0, 0, 0, 0, 0, 0, 0, 0, 0, 0, 0, 0, 0, 0, 0, 0, 0, 0, 0, 0, 0, 1, 1, 1, 1, 1, 1, 1, 1, 1],
    [0, 0, 0, 0, 0, 0, 0, 0, 0, 0, 0, 0, 0, 0, 0, 0, 0, 0, 0, 0, 0, 0, 0, 0, 0, 0, 0, 0, 0, 0, 0, 0, 0, 0, 0, 0, 0, 0, 0, 0, 0, 0, 0, 0, 0, 0, 0, 0, 0, 0, 0, 0, 0, 1],
    [0, 0, 0, 0, 0, 0, 0, 0, 0, 0, 0, 0, 0, 0, 0, 0, 0, 0, 0, 0, 0, 0, 0, 0, 0, 0, 0, 0, 0, 0, 0, 0, 0, 0, 0, 0, 0, 0, 0, 0, 0, 0, 0, 0, 0, 0, 0, 0, 0, 0, 0, 0, 0, 1],
    [0, 0, 0, 1, 1, 1, 1, 1, 1, 1, 1, 0, 0, 1, 1, 1, 1, 1, 1, 1, 1, 0, 0, 1, 1, 1, 1, 1, 1, 1, 1, 0, 0, 1, 1, 1, 1, 1, 1, 1, 1, 0, 0, 1, 1, 1, 1, 1, 1, 1, 1, 0, 0, 1],
    [0, 0, 0, 1, 1, 1, 1, 1, 1, 1, 1, 0, 0, 1, 1, 1, 1, 1, 1, 1, 1, 0, 0, 1, 1, 1, 1, 1, 1, 1, 1, 0, 0, 1, 1, 1, 1, 1, 1, 1, 1, 0, 0, 1, 1, 1, 1, 1, 1, 1, 1, 0, 0, 1],
    [0, 0, 0, 1, 1, 0, 0, 0, 0, 0, 0, 0, 0, 1, 1, 0, 0, 0, 0, 1, 1, 0, 0, 1, 1, 0, 0, 0, 0, 1, 1, 0, 0, 1, 1, 0, 0, 0, 0, 1, 1, 0, 0, 1, 1, 0, 0, 0, 0, 1, 1, 0, 0, 1],
    [0, 0, 0, 1, 1, 0, 0, 0, 0, 0, 0, 0, 0, 1, 1, 0, 0, 0, 0, 1, 1, 0, 0, 1, 1, 0, 0, 0, 0, 1, 1, 0, 0, 1, 1, 0, 0, 0, 0, 1, 1, 0, 0, 1, 1, 0, 0, 0, 0, 1, 1, 0, 0, 1],
    [0, 0, 0, 1, 1, 0, 0, 0, 0, 0, 0, 0, 0, 1, 1, 0, 0, 0, 0, 1, 1, 0, 0, 1, 1, 0, 0, 0, 0, 1, 1, 0, 0, 1, 1, 0, 0, 0, 0, 1, 1, 0, 0, 1, 1, 0, 0, 0, 0, 1, 1, 0, 0, 1],
    [0, 0, 0, 1, 1, 1, 1, 1, 1, 1, 1, 0, 0, 1, 1, 1, 1, 1, 1, 1, 1, 0, 0, 1, 1, 1, 1, 1, 1, 1, 1, 0, 0, 1, 1, 0, 0, 0, 0, 1, 1, 0, 0, 1, 1, 1, 1, 1, 1, 1, 1, 0, 0, 1],
    [1, 0, 0, 1, 1, 1, 1, 1, 1, 1, 1, 0, 0, 1, 1, 1, 1, 1, 1, 1, 1, 0, 0, 1, 1, 1, 1, 1, 1, 1, 1, 0, 0, 1, 1, 0, 0, 0, 0, 1, 1, 0, 0, 1, 1, 1, 1, 1, 1, 1, 1, 0, 0, 0],
    [1, 0, 0, 1, 1, 0, 0, 0, 0, 0, 0, 0, 0, 1, 1, 0, 0, 1, 1, 0, 0, 0, 0, 1, 1, 0, 0, 1, 1, 0, 0, 0, 0, 1, 1, 0, 0, 0, 0, 1, 1, 0, 0, 1, 1, 0, 0, 1, 1, 0, 0, 0, 0, 0],
    [1, 0, 0, 1, 1, 0, 0, 0, 0, 0, 0, 0, 0, 1, 1, 0, 0, 1, 1, 1, 0, 0, 0, 1, 1, 0, 0, 1, 1, 1, 0, 0, 0, 1, 1, 0, 0, 0, 0, 1, 1, 0, 0, 1, 1, 0, 0, 1, 1, 1, 0, 0, 0, 0],
    [1, 0, 0, 1, 1, 0, 0, 0, 0, 0, 0, 0, 0, 1, 1, 0, 0, 0, 1, 1, 0, 0, 0, 1, 1, 0, 0, 0, 1, 1, 0, 0, 0, 1, 1, 0, 0, 0, 0, 1, 1, 0, 0, 1, 1, 0, 0, 0, 1, 1, 0, 0, 0, 0],
    [1, 0, 0, 1, 1, 1, 1, 1, 1, 1, 1, 0, 0, 1, 1, 0, 0, 0, 1, 1, 1, 0, 0, 1, 1, 0, 0, 0, 1, 1, 1, 0, 0, 1, 1, 1, 1, 1, 1, 1, 1, 0, 0, 1, 1, 0, 0, 0, 1, 1, 1, 0, 0, 0],
    [1, 0, 0, 1, 1, 1, 1, 1, 1, 1, 1, 0, 0, 1, 1, 0, 0, 0, 0, 1, 1, 0, 0, 1, 1, 0, 0, 0, 0, 1, 1, 0, 0, 1, 1, 1, 1, 1, 1, 1, 1, 0, 0, 1, 1, 0, 0, 0, 0, 1, 1, 0, 0, 0],
    [1, 0, 0, 0, 0, 0, 0, 0, 0, 0, 0, 0, 0, 0, 0, 0, 0, 0, 0, 0, 0, 0, 0, 0, 0, 0, 0, 0, 0, 0, 0, 0, 0, 0, 0, 0, 0, 0, 0, 0, 0, 0, 0, 0, 0, 0, 0, 0, 0, 0, 0, 0, 0, 0],
    [1, 0, 0, 0, 0, 0, 0, 0, 0, 0, 0, 0, 0, 0, 0, 0, 0, 0, 0, 0, 0, 0, 0, 0, 0, 0, 0, 0, 0, 0, 0, 0, 0, 0, 0, 0, 0, 0, 0, 0, 0, 0, 0, 0, 0, 0, 0, 0, 0, 0, 0, 0, 0, 0],
    [1, 1, 1, 1, 1, 1, 1, 1, 1, 0, 0, 0, 0, 0, 0, 0, 0, 0, 0, 0, 0, 0, 0, 0, 0, 0, 0, 0, 0, 0, 0, 0, 0, 0, 0, 0, 0, 0, 0, 0, 0, 0, 0, 0, 0, 0, 0, 0, 0, 0, 0, 0, 0, 0]]"

definition Messages :: "string list" where
  "Messages = [
    ''Division By Zero'',
    ''Debug'',
    ''Non Maskable Interrupt'',
    ''Breakpoint'',
    ''Into Detected Overflow'',
    ''Out of Bounds'',
    ''Invalid Opcode'',
    ''No Coprocessor'',
    ''Double Fault'',
    ''Coprocessor Segment Overrun'',
    ''Bad TSS'',
    ''Segment Not Present'',
    ''Stack Fault'',
    ''General Protection Fault'',
    ''Page Fault'',
    ''Unknown Interrupt'',
    ''Coprocessor Fault'',
    ''Alignment Check'',
    ''Machine Check'']"

definition second_line :: string where
  "second_line = ''We don'' @ [CHR 0x27] @ ''t know what caused it.''"

definition DrawBlock :: "u32 \<Rightarrow> u32 \<Rightarrow> u32 \<Rightarrow> u32 \<Rightarrow> console \<Rightarrow> console" where
  "DrawBlock xOff yOff sz color c =
     c\<lparr>video := u64_for (ucast (yOff + sz)) (\<lambda>y. u64_for (ucast (xOff + sz))
         (\<lambda>x v. v(pixel (framebuffer c) x y := color)) (ucast xOff)) (ucast yOff) (video c)\<rparr>"

text \<open>One row of the image, then the whole; the cursor goes down by one block after each row.\<close>

definition draw_image_row :: "u32 \<Rightarrow> u32 \<Rightarrow> nat \<Rightarrow> console \<Rightarrow> console" where
  "draw_image_row Size MainXOffset y c =
     fold (\<lambda>x c. if ErrImg ! y ! x = 1
                   then DrawBlock (of_nat x * Size + MainXOffset) (of_nat y * Size + Size) Size 0xffffffff c else c) [0..<54] c"

definition draw_image :: "u32 \<Rightarrow> u32 \<Rightarrow> console \<Rightarrow> console" where
  "draw_image Size MainXOffset c =
     fold (\<lambda>y c. OffsetPos 0 Size (draw_image_row Size MainXOffset y c)) [0..<18] c"

definition Panic :: "u8 list \<Rightarrow> console \<Rightarrow> console option" where
  "Panic PanicMessage c =
     (let W = Width (framebuffer c);
          Size = W div 120;
          MainXOffset = (W - Size * 54) div 2;
          Sub1XOffset = of_nat (length (c_string ''Kernel Panic: '')) + of_nat (length PanicMessage);
          Sub1XOffset = (W - 8 * Sub1XOffset) div 2;
          Sub2XOffset = of_nat (length (c_string second_line));
          Sub2XOffset = (W - 8 * Sub2XOffset) div 2
      in Option.bind (Clear 0x00 c) (\<lambda>c.
         let c = OffsetPos 0 Size c;
             c = draw_image Size MainXOffset c;
             c = OffsetPos 0 Size c;
             c = SetPosX Sub1XOffset c
         in Option.bind (printf (c_string ''Kernel Panic: '') c) (\<lambda>c.
            Option.bind (printf PanicMessage c) (\<lambda>c.
            map_option Next_line (printf (c_string second_line) (SetPosX Sub2XOffset (Next_line c)))))))"

definition Exception :: "u8 \<Rightarrow> console \<Rightarrow> console option" where
  "Exception i c = (if unat i < length Messages then Panic (c_string (Messages ! unat i)) c else None)"

section \<open>Painting\<close>

text \<open>The pixels of the set \<open>A\<close> have the colour, the others are as they were.\<close>

definition painted :: "Framebuffer \<Rightarrow> u32 \<Rightarrow> (nat \<times> nat) set \<Rightarrow> pixels \<Rightarrow> pixels \<Rightarrow> bool" where
  "painted fb color A v v' \<longleftrightarrow>
     (\<forall>x < unat (PixelsPerScanLine fb). \<forall>y < unat (Height fb).
        picture fb v' x y = (if (x, y) \<in> A then color else picture fb v x y))
     \<and> only_frame fb (unat (PixelsPerScanLine fb)) (unat (Height fb)) v v'"

lemma painted_none: "painted fb color {} v v"
  by (simp add: painted_def)

lemma painted_union: "painted fb color A u v \<Longrightarrow> painted fb color B v w \<Longrightarrow> painted fb color (A \<union> B) u w"
  unfolding painted_def by (auto intro: only_frame_trans)

lemma painted_pixel:
  assumes "frame_ok fb" and "x < unat (PixelsPerScanLine fb)" and "y < unat (Height fb)"
  shows "painted fb color {(x, y)} v (v(pixel fb (of_nat x) (of_nat y) := color))"
  using pixel_inj [OF assms(1) _ _ assms(2,3)] assms(2,3)
  by (auto simp: painted_def picture_def only_frame_def)

lemma painted_fold:
  assumes "\<And>k v. a \<le> k \<Longrightarrow> k < n \<Longrightarrow> painted fb color (A k) v (f k v)" and "a \<le> n"
  shows "painted fb color (\<Union>k \<in> {a..<n}. A k) v (fold f [a..<n] v)"
proof (rule fold_invariant_from [where P = "\<lambda>n. painted fb color (\<Union>k \<in> {a..<n}. A k) v"])
  show "painted fb color (\<Union>k \<in> {a..<a}. A k) v v" by (simp add: painted_none)
next
  fix k u
  assume k: "a \<le> k" "k < n" and u: "painted fb color (\<Union>k \<in> {a..<k}. A k) v u"
  have "(\<Union>k \<in> {a..<Suc k}. A k) = (\<Union>k \<in> {a..<k}. A k) \<union> A k" using k(1) by (auto simp: less_Suc_eq)
  with painted_union [OF u assms(1) [OF k]] show "painted fb color (\<Union>k \<in> {a..<Suc k}. A k) v (f k u)" by simp
qed (rule assms(2))

definition block :: "nat \<Rightarrow> nat \<Rightarrow> nat \<Rightarrow> (nat \<times> nat) set" where
  "block x y s = {x..<x + s} \<times> {y..<y + s}"

lemma u64_for_widened:
  assumes "unat a + unat s < 2 ^ 32"
  shows "u64_for (ucast (a + s :: u32)) body (ucast a) = fold (\<lambda>j. body (of_nat j)) [unat a..<unat a + unat s]"
proof
  fix v
  have "(ucast a :: u64) = of_nat (unat a)" by (simp add: word_eq_iff_unat unat_of_nat less_trans [OF unat_u32_less])
  moreover have "unat (a + s) = unat a + unat s" using assms by (subst unat_add_no_wrap) simp_all
  ultimately show "u64_for (ucast (a + s :: u32)) body (ucast a) v = fold (\<lambda>j. body (of_nat j)) [unat a..<unat a + unat s] v"
    using u64_for_upt [of "unat a" "ucast (a + s)" body v] by simp
qed

lemma DrawBlock_paints:
  assumes "frame_ok (framebuffer c)"
    and "unat xOff + unat sz \<le> unat (PixelsPerScanLine (framebuffer c))"
    and "unat yOff + unat sz \<le> unat (Height (framebuffer c))"
  shows "painted (framebuffer c) color (block (unat xOff) (unat yOff) (unat sz)) (video c) (video (DrawBlock xOff yOff sz color c))"
proof -
  let ?fb = "framebuffer c"
  have small: "unat xOff + unat sz < 2 ^ 32" "unat yOff + unat sz < 2 ^ 32"
    using assms(2,3) unat_u32_less [of "PixelsPerScanLine ?fb"] unat_u32_less [of "Height ?fb"] by simp_all
  have line: "painted ?fb color (\<Union>x \<in> {unat xOff..<unat xOff + unat sz}. {(x, y)}) v
      (fold (\<lambda>j v. v(pixel ?fb (of_nat j) (of_nat y) := color)) [unat xOff..<unat xOff + unat sz] v)"
    if "y < unat (Height ?fb)" for y v
    using assms(2) that by (intro painted_fold painted_pixel assms(1)) simp_all
  have "painted ?fb color (\<Union>y \<in> {unat yOff..<unat yOff + unat sz}. \<Union>x \<in> {unat xOff..<unat xOff + unat sz}. {(x, y)}) (video c)
      (fold (\<lambda>y. fold (\<lambda>j v. v(pixel ?fb (of_nat j) (of_nat y) := color)) [unat xOff..<unat xOff + unat sz])
        [unat yOff..<unat yOff + unat sz] (video c))"
    using assms(3) by (intro painted_fold line) simp_all
  moreover have "(\<Union>y \<in> {unat yOff..<unat yOff + unat sz}. \<Union>x \<in> {unat xOff..<unat xOff + unat sz}. {(x, y)})
      = block (unat xOff) (unat yOff) (unat sz)" by (auto simp: block_def)
  ultimately show ?thesis by (simp add: DrawBlock_def u64_for_widened [OF small(1)] u64_for_widened [OF small(2)])
qed

lemma DrawBlock_keeps [simp]:
  "framebuffer (DrawBlock x y s col c) = framebuffer c" "psf1_font (DrawBlock x y s col c) = psf1_font c"
  "CursorX (DrawBlock x y s col c) = CursorX c" "CursorY (DrawBlock x y s col c) = CursorY c"
  by (simp_all add: DrawBlock_def)

section \<open>The image\<close>

definition lit :: "nat \<Rightarrow> nat \<Rightarrow> bool" where
  "lit x y \<longleftrightarrow> ErrImg ! y ! x = 1"

text \<open>The image in blocks of \<open>s\<close> pixels, its corner at \<open>(m, s)\<close>.\<close>

definition image_row :: "nat \<Rightarrow> nat \<Rightarrow> nat \<Rightarrow> (nat \<times> nat) set" where
  "image_row s m y = (\<Union>x \<in> {0..<54}. if lit x y then block (x * s + m) (y * s + s) s else {})"

definition image_pixels :: "nat \<Rightarrow> nat \<Rightarrow> (nat \<times> nat) set" where
  "image_pixels s m = (\<Union>y \<in> {0..<18}. image_row s m y)"

definition same_but_video :: "console \<Rightarrow> console \<Rightarrow> bool" where
  "same_but_video c d \<longleftrightarrow> framebuffer d = framebuffer c \<and> psf1_font d = psf1_font c \<and> CursorX d = CursorX c"

lemma draw_image_row_paints:
  assumes ok: "frame_ok (framebuffer c)" and y: "y < 18"
    and W: "54 * unat s + unat m \<le> unat (PixelsPerScanLine (framebuffer c))" and H: "19 * unat s \<le> unat (Height (framebuffer c))"
  shows "painted (framebuffer c) 0xffffffff (image_row (unat s) (unat m) y) (video c) (video (draw_image_row s m y c))
    \<and> same_but_video c (draw_image_row s m y c) \<and> CursorY (draw_image_row s m y c) = CursorY c"
proof -
  let ?A = "\<lambda>x. if lit x y then block (x * unat s + unat m) (y * unat s + unat s) (unat s) else {}"
  define P where "P n d \<longleftrightarrow> painted (framebuffer c) 0xffffffff (\<Union>x \<in> {0..<n}. ?A x) (video c) (video d)
      \<and> same_but_video c d \<and> CursorY d = CursorY c" for n :: nat and d
  have "unat s * 54 < 2 ^ 32" "unat s * 19 < 2 ^ 32" using W H unat_u32_less [of "PixelsPerScanLine (framebuffer c)"]
      unat_u32_less [of "Height (framebuffer c)"] by simp_all
  then have s: "unat s < 134217728" by simp
  have y_unat: "unat (of_nat y * s + s) = y * unat s + unat s"
  proof -
    have "y * unat s + unat s \<le> 19 * unat s" using mult_le_mono1 [of "Suc y" 19 "unat s"] y by simp
    then have "y * unat s + unat s < 4294967296" "y * unat s < 4294967296" "y < 4294967296" using s y by linarith+
    then show ?thesis by (simp add: unat_word_ariths unat_of_nat)
  qed
  have "P 54 (fold (\<lambda>x c. if ErrImg ! y ! x = 1
      then DrawBlock (of_nat x * s + m) (of_nat y * s + s) s 0xffffffff c else c) [0..<54] c)"
  proof (rule fold_invariant_upt)
    show "P 0 c" by (simp add: P_def painted_none same_but_video_def)
  next
    fix x d
    assume x: "x < 54" and d: "P x d"
    have fb: "framebuffer d = framebuffer c" using d by (simp add: P_def same_but_video_def)
    have row: "x * unat s + unat s \<le> 54 * unat s" using mult_le_mono1 [of "Suc x" 54 "unat s"] x by simp
    have x_unat: "unat (of_nat x * s + m) = x * unat s + unat m"
    proof -
      have "x * unat s + unat m < 4294967296"
        using row W unat_u32_less [of "PixelsPerScanLine (framebuffer c)"] by linarith
      then have "x * unat s + unat m < 4294967296" "x * unat s < 4294967296" "x < 4294967296" using x by linarith+
      then show ?thesis by (simp add: unat_word_ariths unat_of_nat)
    qed
    have col: "y * unat s + unat s + unat s \<le> 19 * unat s" using mult_le_mono1 [of "Suc (Suc y)" 19 "unat s"] y by simp
    have "painted (framebuffer d) 0xffffffff (block (x * unat s + unat m) (y * unat s + unat s) (unat s)) (video d)
        (video (DrawBlock (of_nat x * s + m) (of_nat y * s + s) s 0xffffffff d))"
      using DrawBlock_paints [of d "of_nat x * s + m" s "of_nat y * s + s" "0xffffffff"] ok row col W H
      unfolding x_unat y_unat fb by simp
    then have "painted (framebuffer c) 0xffffffff (?A x) (video d)
        (video (if ErrImg ! y ! x = 1 then DrawBlock (of_nat x * s + m) (of_nat y * s + s) s 0xffffffff d else d))"
      by (simp add: fb lit_def painted_none)
    moreover have "(\<Union>x \<in> {0..<Suc x}. ?A x) = (\<Union>x \<in> {0..<x}. ?A x) \<union> ?A x" by (auto simp: less_Suc_eq)
    ultimately show "P (Suc x) (if ErrImg ! y ! x = 1 then DrawBlock (of_nat x * s + m) (of_nat y * s + s) s 0xffffffff d else d)"
      using d unfolding P_def same_but_video_def lit_def by (auto intro: painted_union)
  qed
  then show ?thesis by (simp add: P_def draw_image_row_def image_row_def)
qed


lemma draw_image_paints:
  assumes ok: "frame_ok (framebuffer c)"
    and W: "54 * unat s + unat m \<le> unat (PixelsPerScanLine (framebuffer c))" and H: "19 * unat s \<le> unat (Height (framebuffer c))"
  shows "painted (framebuffer c) 0xffffffff (image_pixels (unat s) (unat m)) (video c) (video (draw_image s m c))
    \<and> same_but_video c (draw_image s m c) \<and> CursorY (draw_image s m c) = CursorY c + 18 * s"
proof -
  define P where "P n d \<longleftrightarrow> painted (framebuffer c) 0xffffffff (\<Union>y \<in> {0..<n}. image_row (unat s) (unat m) y) (video c) (video d)
      \<and> same_but_video c d \<and> CursorY d = CursorY c + of_nat n * s" for n :: nat and d
  have "P 18 (fold (\<lambda>y c. OffsetPos 0 s (draw_image_row s m y c)) [0..<18] c)"
  proof (rule fold_invariant_upt [where P = P])
    show "P 0 c" by (simp add: P_def painted_none same_but_video_def)
  next
    fix y d
    assume y: "y < 18" and d: "P y d"
    have fb: "framebuffer d = framebuffer c" using d by (simp add: P_def same_but_video_def)
    note row = draw_image_row_paints [of d y s m, unfolded fb, OF ok y W H]
    have "(\<Union>y \<in> {0..<Suc y}. image_row (unat s) (unat m) y) = (\<Union>y \<in> {0..<y}. image_row (unat s) (unat m) y) \<union> image_row (unat s) (unat m) y"
      by (auto simp: less_Suc_eq)
    then show "P (Suc y) (OffsetPos 0 s (draw_image_row s m y d))"
      using d row by (auto simp: P_def OffsetPos_def same_but_video_def algebra_simps intro: painted_union)
  qed
  then show ?thesis by (simp add: P_def draw_image_def image_pixels_def)
qed

section \<open>The screen\<close>


lemma draw_image_row_keeps:
  "same_but_video c (draw_image_row s m y c) \<and> CursorY (draw_image_row s m y c) = CursorY c"
proof -
  have "same_but_video c (fold (\<lambda>x c. if ErrImg ! y ! x = 1
      then DrawBlock (of_nat x * s + m) (of_nat y * s + s) s 0xffffffff c else c) xs c) \<and>
    CursorY (fold (\<lambda>x c. if ErrImg ! y ! x = 1
      then DrawBlock (of_nat x * s + m) (of_nat y * s + s) s 0xffffffff c else c) xs c) = CursorY c" for xs
    by (induction xs arbitrary: c) (simp_all add: same_but_video_def)
  then show ?thesis by (simp add: draw_image_row_def)
qed

lemma draw_image_keeps:
  "same_but_video c (draw_image s m c) \<and> CursorY (draw_image s m c) = CursorY c + 18 * s"
proof -
  have "same_but_video c (fold (\<lambda>y c. OffsetPos 0 s (draw_image_row s m y c)) ys c) \<and>
    CursorY (fold (\<lambda>y c. OffsetPos 0 s (draw_image_row s m y c)) ys c) = CursorY c + of_nat (length ys) * s" for ys
  proof (induction ys arbitrary: c)
    case (Cons y ys)
    show ?case using Cons.IH [of "OffsetPos 0 s (draw_image_row s m y c)"] draw_image_row_keeps [of c s m y]
      by (simp add: same_but_video_def OffsetPos_def algebra_simps)
  qed (simp add: same_but_video_def)
  from this [of "[0..<18]"] show ?thesis by (simp add: draw_image_def)
qed

lemma centred:
  fixes W :: u32
  assumes "8 * n \<le> unat W" and "0 < n"
  shows "unat ((W - 8 * of_nat n) div 2) + 8 \<le> unat W \<or> unat W < 16"
proof -
  have "unat (8 * of_nat n :: u32) = 8 * n"
    using assms(1) unat_u32_less [of W] by (simp add: unat_word_ariths unat_of_nat)
  then have "unat ((W - 8 * of_nat n) div 2) = (unat W - 8 * n) div 2"
    using assms(1) by (simp add: unat_div_distrib unat_sub_no_wrap)
  moreover have "(unat W - 8 * n) div 2 \<le> unat W - 8 * n" by (rule div_le_dividend)
  ultimately show ?thesis using assms by linarith
qed

lemma Panic_reaches_end:
  assumes ok: "frame_ok (framebuffer c)" and H: "32 \<le> unat (Height (framebuffer c))"
    and W: "640 \<le> unat (Width (framebuffer c))" "8 * (14 + length msg) \<le> unat (Width (framebuffer c))"
  shows "\<exists>c'. Panic msg c = Some c' \<and> cursor_ok c' \<and> framebuffer c' = framebuffer c"
proof -
  let ?W = "Width (framebuffer c)"
  define s where "s = ?W div 120"
  define m where "m = (?W - s * 54) div 2"
  define x1 where "x1 = (?W - 8 * of_nat (14 + length msg)) div 2"
  define x2 where "x2 = (?W - 8 * of_nat 29) div 2"
  have W30: "unat ?W < 2 ^ 30" using ok by (auto simp: frame_ok_def word_le_nat_alt)
  have x: "unat x1 + 8 \<le> unat ?W" "unat x2 + 8 \<le> unat ?W"
    using centred [of "14 + length msg" ?W] centred [of 29 ?W] W by (auto simp: x1_def x2_def)
  have s: "unat s < 2 ^ 24" using W30 by (simp add: s_def unat_div_distrib)
  obtain d where d: "Clear 0x00 c = Some d" "framebuffer d = framebuffer c" "CursorY d = 0"
    using Clear_spec [OF ok, of 0] by simp
  define e where "e = SetPosX x1 (OffsetPos 0 s (draw_image s m (OffsetPos 0 s d)))"
  have e: "framebuffer e = framebuffer c" "CursorX e = x1" "CursorY e = 20 * s"
    using draw_image_keeps [of "OffsetPos 0 s d" s m] d
    by (simp_all add: e_def SetPosX_def OffsetPos_def same_but_video_def)
  have room: "unat ?W + 8 < 2 ^ 32" using W30 by simp
  have "unat (CursorY e) = 20 * unat s" using s unfolding e(3) by (subst unat_mult_no_wrap) simp_all
  then have y0: "unat (CursorY e) < 2 ^ 29" using s by simp
  have e_ok: "cursor_ok e" using x(1) H room e by (simp add: cursor_ok_def)
  have len: "length (c_string ''Kernel Panic: '') = 14" "length (c_string second_line) = 29"
    by (simp_all add: c_string_def second_line_def)
  obtain f where f: "printf (c_string ''Kernel Panic: '') e = Some f" "cursor_ok f" "framebuffer f = framebuffer c"
    "unat (CursorY f) \<le> unat (CursorY e) + 224"
    using printf_ends [OF e_ok, of "c_string ''Kernel Panic: ''"] y0 e(1) len by auto
  have msg: "16 * length msg < 2 ^ 31" using W(2) W30 by simp
  obtain g where g: "printf msg f = Some g" "cursor_ok g" "framebuffer g = framebuffer c"
    "unat (CursorY g) \<le> unat (CursorY f) + 16 * length msg"
    using printf_ends [OF f(2), of msg] f(3,4) y0 msg by auto
  define h where "h = SetPosX x2 (Next_line g)"
  have yg: "unat (CursorY g) < 2 ^ 31 + 2 ^ 30" using g(4) f(4) y0 msg by simp
  then have "unat (CursorY g + 16) = unat (CursorY g) + 16" by (subst unat_add_no_wrap) simp_all
  then have h: "cursor_ok h" "unat (CursorY h) = unat (CursorY g) + 16" "framebuffer h = framebuffer c"
    using x(2) H room g(3) by (simp_all add: h_def SetPosX_def Next_line_def cursor_ok_def)
  obtain i where i: "printf (c_string second_line) h = Some i" "cursor_ok i" "framebuffer i = framebuffer c"
    using printf_ends [OF h(1), of "c_string second_line"] h(2,3) yg len by auto
  have "Panic msg c = Some (Next_line i)"
    using d(1) f(1) g(1) i(1) unfolding e_def h_def x1_def x2_def m_def s_def
    by (simp add: Panic_def len Let_def)
  then show ?thesis using i by (simp add: cursor_ok_def Next_line_def)
qed





end
