(* ===== verification/Pci.thy ===== *)
theory Pci
  imports Apic Ahci
begin

text \<open>
  The PCI bus and the drivers it finds: \<^verbatim>\<open>src/drivers/Driver.cpp\<close> and \<^verbatim>\<open>src/IO/DeviceManager/PCI/\<close>. The
  configuration space is read through the memory \<open>cfg\<close>. A driver is a value, as nothing but the manager
  holds one; \<open>None\<close> is a write behind the 255 entries of its table.
\<close>

section \<open>Drivers\<close>

record driver =
  DriverName :: string
  MainObject :: u64

definition default_Driver :: driver where
  "default_Driver = \<lparr>DriverName = ''Default Driver'', MainObject = 0\<rparr>"

record DriverManager =
  drivers :: "driver option list"

definition new_DriverManager :: DriverManager where
  "new_DriverManager = \<lparr>drivers = []\<rparr>"

definition AddDriver :: "driver option \<Rightarrow> DriverManager \<Rightarrow> DriverManager option" where
  "AddDriver d dm = (if length (drivers dm) < 255 then Some (dm\<lparr>drivers := drivers dm @ [d]\<rparr>) else None)"

definition ActivateAll :: "(driver \<Rightarrow> 's \<Rightarrow> 's option) \<Rightarrow> DriverManager \<Rightarrow> 's \<Rightarrow> 's option" where
  "ActivateAll activate dm s =
     fold (\<lambda>i s. Option.bind s (\<lambda>s. case drivers dm ! i of Some d \<Rightarrow> activate d s | None \<Rightarrow> Some s))
       [0..<length (drivers dm)] (Some s)"

text \<open>Only the first characters of the names are compared; that of an empty name is the terminating zero.\<close>

definition first_char :: "string \<Rightarrow> char" where
  "first_char s = (case s of [] \<Rightarrow> CHR 0x00 | ch # _ \<Rightarrow> ch)"

definition FindDriver :: "string \<Rightarrow> DriverManager \<Rightarrow> driver option" where
  "FindDriver Name dm =
     (case List.find (\<lambda>d. case d of Some d \<Rightarrow> first_char (DriverName d) = first_char Name | None \<Rightarrow> False) (drivers dm) of
        Some d \<Rightarrow> d | None \<Rightarrow> None)"

section \<open>Names\<close>

text \<open>A text, or the number a converter prints.\<close>

datatype name = Text string | Hex16 u16 | Hex8 u8

definition PCIDeviceClasses :: "string list" where
  "PCIDeviceClasses = [
    ''Unclassified'',
    ''Mass Storage Controller'',
    ''Network Controller'',
    ''Display Controller'',
    ''Multimedia Controller'',
    ''Memory Controller'',
    ''Bridge Device'',
    ''Simple Communication Controller'',
    ''Base System Peripheral'',
    ''Input Device Controller'',
    ''Docking Station'',
    ''Processor'',
    ''Serial Bus Controller'',
    ''Wireless Controller'',
    ''Intelligent Controller'',
    ''Satellite Communication Controller'',
    ''Encryption Controller'',
    ''Signal Processing Controller'',
    ''Processing Accelerator'',
    ''Non Essential Instrumentation'']"

definition GetVendorName :: "u16 \<Rightarrow> name" where
  "GetVendorName vendorID = (case map_of [
    (0x8086, ''Intel Corp''),
    (0x1022, ''AMD''),
    (0x10DE, ''NVIDIA Corporation'')] vendorID of Some s \<Rightarrow> Text s | None \<Rightarrow> Hex16 vendorID)"

definition GetDeviceName :: "u16 \<Rightarrow> u16 \<Rightarrow> name" where
  "GetDeviceName vendorID deviceID =
     (case (if vendorID = 0x8086 then map_of [
    (0x10D3, ''82574L Gigabit Network Connection''),
    (0x29C0, ''Express DRAM Controller''),
    (0x2918, ''LPC Interface Controller''),
    (0x2922, ''6 port SATA Controller [AHCI mode]''),
    (0x2930, ''SMBus Controller''),
    (0x9C03, ''8 Series SATA Controller 1 [AHCI mode]'')] deviceID else None) of
        Some s \<Rightarrow> Text s | None \<Rightarrow> Hex16 deviceID)"

definition MassStorageControllerSubclassName :: "u8 \<Rightarrow> name" where
  "MassStorageControllerSubclassName subclassCode = (case map_of [
    (0x00, ''SCSI Bus Controller''),
    (0x01, ''IDE Controller''),
    (0x02, ''Floppy Disk Controller''),
    (0x03, ''IPI Bus Controller''),
    (0x04, ''RAID Controller''),
    (0x05, ''ATA Controller''),
    (0x06, ''Serial ATA''),
    (0x07, ''Serial Attached SCSI''),
    (0x08, ''Non-Volatile Memory Controller''),
    (0x80, ''Other'')] subclassCode of Some s \<Rightarrow> Text s | None \<Rightarrow> Hex8 subclassCode)"

definition SerialBusControllerSubclassName :: "u8 \<Rightarrow> name" where
  "SerialBusControllerSubclassName subclassCode = (case map_of [
    (0x00, ''FireWire (IEEE 1394) Controller''),
    (0x01, ''ACCESS Bus''),
    (0x02, ''SSA''),
    (0x03, ''USB Controller''),
    (0x04, ''Fibre Channel''),
    (0x05, ''SMBus''),
    (0x06, ''Infiniband''),
    (0x07, ''IPMI Interface''),
    (0x08, ''SERCOS Interface (IEC 61491)''),
    (0x09, ''CANbus''),
    (0x80, ''SerialBusController - Other'')] subclassCode of Some s \<Rightarrow> Text s | None \<Rightarrow> Hex8 subclassCode)"

definition BridgeDeviceSubclassName :: "u8 \<Rightarrow> name" where
  "BridgeDeviceSubclassName subclassCode = (case map_of [
    (0x00, ''Host Bridge''),
    (0x01, ''ISA Bridge''),
    (0x02, ''EISA Bridge''),
    (0x03, ''MCA Bridge''),
    (0x04, ''PCI-to-PCI Bridge''),
    (0x05, ''PCMCIA Bridge''),
    (0x06, ''NuBus Bridge''),
    (0x07, ''CardBus Bridge''),
    (0x08, ''RACEway Bridge''),
    (0x09, ''PCI-to-PCI Bridge''),
    (0x0a, ''InfiniBand-to-PCI Host Bridge''),
    (0x80, ''Other'')] subclassCode of Some s \<Rightarrow> Text s | None \<Rightarrow> Hex8 subclassCode)"

text \<open>A display controller that is not VGA compatible falls through to the bridges.\<close>

definition GetSubclassName :: "u8 \<Rightarrow> u8 \<Rightarrow> name" where
  "GetSubclassName classCode subclassCode =
     (if classCode = 0x01 then MassStorageControllerSubclassName subclassCode
      else if classCode = 0x03 \<and> subclassCode = 0x00 then Text ''VGA Compatible Controller''
      else if classCode = 0x03 \<or> classCode = 0x06 then BridgeDeviceSubclassName subclassCode
      else if classCode = 0x0C then SerialBusControllerSubclassName subclassCode
      else Hex8 subclassCode)"

text \<open>The three groups of interfaces; a class whose group has no match goes on to the next.\<close>

definition sata_interfaces :: "u8 \<Rightarrow> string option" where
  "sata_interfaces = map_of [
    (0x00, ''Vendor Specific Interface''),
    (0x01, ''AHCI 1.0''),
    (0x02, ''Serial Storage Bus'')]"

definition vga_interfaces :: "u8 \<Rightarrow> string option" where
  "vga_interfaces = map_of [
    (0x00, ''VGA Controller''),
    (0x01, ''8514-Compatible Controller'')]"

definition usb_interfaces :: "u8 \<Rightarrow> string option" where
  "usb_interfaces = map_of [
    (0x00, ''UHCI Controller''),
    (0x10, ''OHCI Controller''),
    (0x20, ''EHCI (USB2) Controller''),
    (0x30, ''XHCI (USB3) Controller''),
    (0x80, ''Unspecified''),
    (0xFE, ''USB Device (Not a Host Controller)'')]"

definition interface :: "u8 \<Rightarrow> u8 \<Rightarrow> u8 \<Rightarrow> string option" where
  "interface classCode subclassCode progIF =
     (case (if classCode = 0x01 \<and> subclassCode = 0x06 then sata_interfaces progIF else None) of
        Some s \<Rightarrow> Some s
      | None \<Rightarrow>
          (case (if classCode \<in> {0x01, 0x03} \<and> subclassCode = 0x00 then vga_interfaces progIF else None) of
             Some s \<Rightarrow> Some s
           | None \<Rightarrow>
               if classCode \<in> {0x01, 0x03, 0x0C} \<and> subclassCode = 0x03 then usb_interfaces progIF else None))"

definition GetProgIFName :: "u8 \<Rightarrow> u8 \<Rightarrow> u8 \<Rightarrow> name" where
  "GetProgIFName classCode subclassCode progIF =
     (case interface classCode subclassCode progIF of Some s \<Rightarrow> Text s | None \<Rightarrow> Hex8 progIF)"

section \<open>Enumeration\<close>

record PCIDeviceHeader =
  VendorID :: u16
  DeviceID :: u16
  Command :: u16
  Status :: u16
  RevisionID :: u8
  ProgIF :: u8
  SubClass :: u8
  Class :: u8
  CacheLineSize :: u8
  LatencyTumer :: u8
  HeaderType :: u8
  BIST :: u8

definition read_PCIDeviceHeader :: "memory \<Rightarrow> u64 \<Rightarrow> PCIDeviceHeader" where
  "read_PCIDeviceHeader m p =
     \<lparr>VendorID = load16 m p, DeviceID = load16 m (p + 2), Command = load16 m (p + 4), Status = load16 m (p + 6),
      RevisionID = m (p + 8), ProgIF = m (p + 9), SubClass = m (p + 10), Class = m (p + 11), CacheLineSize = m (p + 12),
      LatencyTumer = m (p + 13), HeaderType = m (p + 14), BIST = m (p + 15)\<rparr>"

type_synonym pci = "vm \<times> DriverManager"

text \<open>
  The driver for a function with a known interface: only an AHCI controller gets one, whose object is named
  by the address of its header here. The switches are those of \<open>GetProgIFName\<close>.
\<close>

definition EnableDriverAtProgIFName :: "u64 \<Rightarrow> PCIDeviceHeader \<Rightarrow> DriverManager \<Rightarrow> (u8 \<times> DriverManager) option" where
  "EnableDriverAtProgIFName a h dm =
     (if Class h = 0x01 \<and> SubClass h = 0x06 \<and> ProgIF h = 0x01
      then map_option (\<lambda>dm. (0x01, dm)) (AddDriver (Some \<lparr>DriverName = driver_name (new_AHCIDriver a :: unit AHCIDriver), MainObject = a\<rparr>) dm)
      else Some (if interface (Class h) (SubClass h) (ProgIF h) \<noteq> None then 0x01 else 0x00, dm))"

definition EnumerateFunction :: "memory \<Rightarrow> u64 \<Rightarrow> u64 \<Rightarrow> pci \<Rightarrow> pci option" where
  "EnumerateFunction cfg deviceAddress f st =
     (let (vm, dm) = st;
          functionAddress = deviceAddress + push_bit 12 f;
          vm = MapMemory functionAddress functionAddress vm;
          h = read_PCIDeviceHeader cfg functionAddress
      in if DeviceID h = 0 then Some (vm, dm)
         else if DeviceID h = 0xFFFF then Some (vm, dm)
         else map_option (\<lambda>(_, dm). (vm, dm)) (EnableDriverAtProgIFName functionAddress h dm))"

definition EnumerateDevice :: "memory \<Rightarrow> u64 \<Rightarrow> u64 \<Rightarrow> pci \<Rightarrow> pci option" where
  "EnumerateDevice cfg busAddress device st =
     (let (vm, dm) = st;
          deviceAddress = busAddress + push_bit 15 device;
          vm = MapMemory deviceAddress deviceAddress vm;
          h = read_PCIDeviceHeader cfg deviceAddress
      in if DeviceID h = 0 then Some (vm, dm)
         else if DeviceID h = 0xFFFF then Some (vm, dm)
         else u64_for 8 (\<lambda>f st. Option.bind st (EnumerateFunction cfg deviceAddress f)) 0 (Some (vm, dm)))"

definition EnumerateBus :: "memory \<Rightarrow> u64 \<Rightarrow> u64 \<Rightarrow> pci \<Rightarrow> pci option" where
  "EnumerateBus cfg baseAddress bus st =
     (let (vm, dm) = st;
          busAddress = baseAddress + push_bit 20 bus;
          vm = MapMemory busAddress busAddress vm;
          h = read_PCIDeviceHeader cfg busAddress
      in if DeviceID h = 0 then Some (vm, dm)
         else if DeviceID h = 0xFFFF then Some (vm, dm)
         else u64_for 32 (\<lambda>d st. Option.bind st (EnumerateDevice cfg busAddress d)) 0 (Some (vm, dm)))"

record DeviceConfig =
  config_base :: u64
  PCISegGroup :: u16
  StartBus :: u8
  EndBus :: u8
  config_reserved :: u32

definition read_DeviceConfig :: "memory \<Rightarrow> u64 \<Rightarrow> DeviceConfig" where
  "read_DeviceConfig m p = \<lparr>config_base = load64 m p, PCISegGroup = load16 m (p + 8), StartBus = m (p + 10),
     EndBus = m (p + 11), config_reserved = load32 m (p + 12)\<rparr>"

text \<open>The headers take 44 bytes, an entry 16; the number of entries is an \<^verbatim>\<open>int\<close>.\<close>

definition mcfg_entries :: "u32 \<Rightarrow> nat" where
  "mcfg_entries len = nat (sint (ucast ((ucast len - 44 :: u64) div 16) :: i32))"

definition scan_config :: "memory \<Rightarrow> u64 \<Rightarrow> nat \<Rightarrow> pci \<Rightarrow> pci option" where
  "scan_config cfg MCFG t st =
     (let newDeviceConfig = read_DeviceConfig cfg (MCFG + 44 + 16 * of_nat t)
      in u64_for (ucast (EndBus newDeviceConfig))
           (\<lambda>bus st. Option.bind st (EnumerateBus cfg (config_base newDeviceConfig) bus))
           (ucast (StartBus newDeviceConfig)) (Some st))"

definition new_PCI :: "memory \<Rightarrow> u64 \<Rightarrow> pci \<Rightarrow> pci option" where
  "new_PCI cfg MCFG st =
     fold (\<lambda>t st. Option.bind st (scan_config cfg MCFG t))
       [0..<mcfg_entries (sdt_Length (read_SDTHeader cfg MCFG))] (Some st)"

text \<open>The device manager finds the table by its signature, from the address of the XSDT, and does without it.\<close>

definition LocateACPI :: "memory \<Rightarrow> u64 \<Rightarrow> u64" where
  "LocateACPI m XSDTAddress = FindTable m XSDTAddress [0x4D, 0x43, 0x46, 0x47]"

definition SetupPCI :: "memory \<Rightarrow> u64 \<Rightarrow> pci \<Rightarrow> pci option" where
  "SetupPCI cfg mcfg st = new_PCI cfg mcfg st"

definition new_DeviceManager :: "memory \<Rightarrow> u64 \<Rightarrow> pci \<Rightarrow> pci option" where
  "new_DeviceManager cfg XSDTAddress st =
     (let mcfg = LocateACPI cfg XSDTAddress in if mcfg \<noteq> 0 then SetupPCI cfg mcfg st else Some st)"

section \<open>What enumeration finds\<close>

definition answers :: "memory \<Rightarrow> u64 \<Rightarrow> bool" where
  "answers cfg a \<longleftrightarrow> DeviceID (read_PCIDeviceHeader cfg a) \<notin> {0, 0xFFFF}"

definition is_ahci :: "memory \<Rightarrow> u64 \<Rightarrow> bool" where
  "is_ahci cfg a \<longleftrightarrow> (let h = read_PCIDeviceHeader cfg a in Class h = 0x01 \<and> SubClass h = 0x06 \<and> ProgIF h = 0x01)"

text \<open>The functions behind a device, a bus and a range of buses that have a header, in order. A device is
  looked at when its function 0 is there, a bus when its device 0 is.\<close>

definition device_functions :: "memory \<Rightarrow> u64 \<Rightarrow> u64 list" where
  "device_functions cfg a =
     (if answers cfg a then filter (answers cfg) (map (\<lambda>f. a + push_bit 12 (of_nat f)) [0..<8]) else [])"

definition bus_functions :: "memory \<Rightarrow> u64 \<Rightarrow> u64 list" where
  "bus_functions cfg a =
     (if answers cfg a then concat (map (\<lambda>d. device_functions cfg (a + push_bit 15 (of_nat d))) [0..<32]) else [])"

definition config_functions :: "memory \<Rightarrow> DeviceConfig \<Rightarrow> u64 list" where
  "config_functions cfg c =
     concat (map (\<lambda>b. bus_functions cfg (config_base c + push_bit 20 (of_nat b))) [unat (StartBus c)..<unat (EndBus c)])"

definition all_functions :: "memory \<Rightarrow> u64 \<Rightarrow> u64 list" where
  "all_functions cfg MCFG =
     concat (map (\<lambda>t. config_functions cfg (read_DeviceConfig cfg (MCFG + 44 + 16 * of_nat t)))
       [0..<mcfg_entries (sdt_Length (read_SDTHeader cfg MCFG))])"

definition ahci_driver :: "u64 \<Rightarrow> driver option" where
  "ahci_driver a = Some \<lparr>DriverName = ''ACPI 1.0 Driver'', MainObject = a\<rparr>"

text \<open>A step that adds drivers for the AHCI controllers among the functions \<open>fs\<close>, as long as they fit.\<close>

definition adds :: "memory \<Rightarrow> u64 list \<Rightarrow> (pci \<Rightarrow> pci option) \<Rightarrow> bool" where
  "adds cfg fs step \<longleftrightarrow>
     (\<forall>vm dm. length (drivers dm) + length (filter (is_ahci cfg) fs) \<le> 255 \<longrightarrow>
        (\<exists>vm'. step (vm, dm) = Some (vm', dm\<lparr>drivers := drivers dm @ map ahci_driver (filter (is_ahci cfg) fs)\<rparr>)))"

lemma adds_nothing: "adds cfg [] Some"
  by (simp add: adds_def)

lemma adds_seq:
  assumes "adds cfg fs step" and "adds cfg gs next_step"
  shows "adds cfg (fs @ gs) (\<lambda>st. Option.bind (step st) next_step)"
  unfolding adds_def
proof (intro allI impI)
  fix vm and dm :: DriverManager
  assume "length (drivers dm) + length (filter (is_ahci cfg) (fs @ gs)) \<le> 255"
  then have fits: "length (drivers dm) + length (filter (is_ahci cfg) fs) \<le> 255"
    "length (drivers dm @ map ahci_driver (filter (is_ahci cfg) fs)) + length (filter (is_ahci cfg) gs) \<le> 255" by simp_all
  obtain vm' where "step (vm, dm) = Some (vm', dm\<lparr>drivers := drivers dm @ map ahci_driver (filter (is_ahci cfg) fs)\<rparr>)"
    using assms(1) fits(1) unfolding adds_def by blast
  moreover define dm1 where "dm1 = dm\<lparr>drivers := drivers dm @ map ahci_driver (filter (is_ahci cfg) fs)\<rparr>"
  moreover have "length (drivers dm1) + length (filter (is_ahci cfg) gs) \<le> 255" using fits(2) by (simp add: dm1_def)
  then obtain vm'' where "next_step (vm', dm1) = Some (vm'', dm1\<lparr>drivers := drivers dm1 @ map ahci_driver (filter (is_ahci cfg) gs)\<rparr>)"
    using assms(2) unfolding adds_def by blast
  ultimately show "\<exists>vm'. Option.bind (step (vm, dm)) next_step
      = Some (vm', dm\<lparr>drivers := drivers dm @ map ahci_driver (filter (is_ahci cfg) (fs @ gs))\<rparr>)" by simp
qed

lemma adds_fold:
  assumes "\<And>k. k \<in> set ks \<Longrightarrow> adds cfg (F k) (step k)"
  shows "adds cfg (concat (map F ks)) (\<lambda>st. fold (\<lambda>k st. Option.bind st (step k)) ks (Some st))"
  using assms
proof (induction ks rule: rev_induct)
  case Nil
  then show ?case using adds_nothing by simp
next
  case (snoc k ks)
  have "adds cfg (concat (map F ks)) (\<lambda>st. fold (\<lambda>k st. Option.bind st (step k)) ks (Some st))"
    using snoc by simp
  from adds_seq [OF this snoc.prems [of k]] show ?case by simp
qed

lemma adds_function:
  "adds cfg (filter (answers cfg) [a + push_bit 12 f]) (EnumerateFunction cfg a f)"
  by (auto simp: adds_def EnumerateFunction_def EnableDriverAtProgIFName_def AddDriver_def answers_def is_ahci_def
      ahci_driver_def new_AHCIDriver_def Let_def)

lemma adds_header:
  assumes "adds cfg fs body"
  shows "adds cfg (if answers cfg a then fs else [])
    (\<lambda>(vm, dm). if answers cfg a then body (MapMemory a a vm, dm) else Some (MapMemory a a vm, dm))"
  using assms by (simp add: adds_def)

lemma concat_filter_single: "concat (map (\<lambda>x. filter P [g x]) xs) = filter P (map g xs)"
  by (induction xs) simp_all

lemma adds_device: "adds cfg (device_functions cfg (a + push_bit 15 d)) (EnumerateDevice cfg a d)"
proof -
  let ?a = "a + push_bit 15 d"
  let ?body = "\<lambda>st. fold (\<lambda>f st. Option.bind st (EnumerateFunction cfg ?a (of_nat f))) [0..<8] (Some st)"
  have "adds cfg (concat (map (\<lambda>f. filter (answers cfg) [?a + push_bit 12 (of_nat f)]) [0..<8])) ?body"
    by (intro adds_fold adds_function)
  note step = adds_header [OF this [unfolded concat_filter_single], of ?a]
  have "EnumerateDevice cfg a d
      = (\<lambda>(vm, dm). if answers cfg ?a then ?body (MapMemory ?a ?a vm, dm) else Some (MapMemory ?a ?a vm, dm))"
    by (simp add: fun_eq_iff EnumerateDevice_def answers_def u64_for_fold Let_def)
  with step show ?thesis by (simp only: device_functions_def)
qed

lemma adds_bus: "adds cfg (bus_functions cfg (a + push_bit 20 b)) (EnumerateBus cfg a b)"
proof -
  let ?a = "a + push_bit 20 b"
  let ?body = "\<lambda>st. fold (\<lambda>d st. Option.bind st (EnumerateDevice cfg ?a (of_nat d))) [0..<32] (Some st)"
  have "adds cfg (concat (map (\<lambda>d. device_functions cfg (?a + push_bit 15 (of_nat d))) [0..<32])) ?body"
    by (intro adds_fold adds_device)
  note step = adds_header [OF this, of ?a]
  have "EnumerateBus cfg a b
      = (\<lambda>(vm, dm). if answers cfg ?a then ?body (MapMemory ?a ?a vm, dm) else Some (MapMemory ?a ?a vm, dm))"
    by (simp add: fun_eq_iff EnumerateBus_def answers_def u64_for_fold Let_def)
  with step show ?thesis by (simp only: bus_functions_def)
qed

lemma u64_for_bytes:
  "u64_for (ucast (e :: u8)) body (ucast (s :: u8)) x = fold (\<lambda>j. body (of_nat j)) [unat s..<unat e] x"
proof (cases "unat s \<le> unat e")
  case True
  have "(ucast s :: u64) = of_nat (unat s)" by (simp add: word_eq_iff_unat unat_of_nat less_trans [OF unat_u8_less])
  then show ?thesis using u64_for_upt [of "unat s" "ucast e" body x] True by simp
next
  case False
  then show ?thesis by (subst u64_for.simps) (simp add: word_less_nat_alt)
qed

lemma adds_config:
  "adds cfg (config_functions cfg (read_DeviceConfig cfg (MCFG + 44 + 16 * of_nat t))) (scan_config cfg MCFG t)"
  unfolding config_functions_def scan_config_def Let_def u64_for_bytes by (intro adds_fold adds_bus)

lemma adds_PCI: "adds cfg (all_functions cfg MCFG) (new_PCI cfg MCFG)"
  unfolding all_functions_def new_PCI_def by (intro adds_fold adds_config)



text \<open>A segment at 1 GiB with one bus in front of its last, and an AHCI controller as the first device.\<close>

definition one_controller :: memory where
  "one_controller = (\<lambda>_. 0)(0x1004 := 60, 0x102F := 0x40, 0x1037 := 1, 0x40000002 := 0x22, 0x40000003 := 0x29,
     0x40000009 := 0x01, 0x4000000A := 0x06, 0x4000000B := 0x01)"

lemma one_controller_functions: "filter (is_ahci one_controller) (all_functions one_controller 0x1000) = [0x40000000]"
  by code_simp


text \<open>The search for a driver by its name takes the first whose name starts with the same character.\<close>

lemma FindDriver_first_char:
  assumes "first_char (DriverName d) = first_char Name"
  shows "FindDriver Name \<lparr>drivers = Some d # ds\<rparr> = Some d"
  using assms by (simp add: FindDriver_def)

text \<open>The names and the drivers agree on which interfaces are known.\<close>

lemma EnableDriver_known:
  assumes "length (drivers dm) < 255"
  shows "\<exists>r dm'. EnableDriverAtProgIFName a h dm = Some (r, dm')
    \<and> (r = 0x01 \<longleftrightarrow> (\<exists>s. GetProgIFName (Class h) (SubClass h) (ProgIF h) = Text s))"
  using assms
  by (auto simp: EnableDriverAtProgIFName_def AddDriver_def GetProgIFName_def interface_def sata_interfaces_def
      split: option.splits)

end
