(* ===== verification/Input.thy ===== *)
theory Input
  imports Interrupts
begin

text \<open>
  The input drivers, the timer chip and the system calls, all of them interrupt handlers:
  \<^verbatim>\<open>src/drivers/Input/\<close>, \<^verbatim>\<open>src/interrupts/timer/pit.cpp\<close> and \<^verbatim>\<open>src/interrupts/sycalls.cpp\<close>. What an
  interrupt reads from a port is the parameter \<open>inp\<close>; the calls of the virtual methods of an event
  handler are the list of its events, in the order they are made.
\<close>

section \<open>Keyboard\<close>

datatype key_event = KeyDown u8 | KeyUp u8

record PS2KeyboardDriver =
  kbd_dataPort :: Port
  kbd_commandPort :: Port
  kbd_Handler :: u64

definition new_PS2KeyboardDriver :: "u64 \<Rightarrow> u64 \<Rightarrow> u64 \<Rightarrow> kernel \<Rightarrow> PS2KeyboardDriver \<times> InterruptHandler \<times> kernel" where
  "new_PS2KeyboardDriver this manager handler k =
     (let (h, k) = new_InterruptHandler this 0x21 manager k
      in (\<lparr>kbd_dataPort = Port8Bit 0x60, kbd_commandPort = Port8Bit 0x64, kbd_Handler = handler\<rparr>, h, k))"

definition keyboard_interrupt :: "(u16 \<Rightarrow> u8) \<Rightarrow> PS2KeyboardDriver \<Rightarrow> key_event list" where
  "keyboard_interrupt inp d =
     (let key = inp (portnumber (kbd_dataPort d)) in if kbd_Handler d = 0 then [] else [KeyDown key])"

section \<open>Mouse\<close>

datatype mouse_event = MouseDown u8 | MouseUp u8 | MouseMove i32 i32

text \<open>The driver, with the global flag that makes it skip the first interrupt.\<close>

record PS2MouseDriver =
  mouse_dataPort :: Port
  mouse_commandPort :: Port
  mouse_buffer :: "u8 list"
  mouse_offset :: u8
  mouse_buttons :: u8
  mouse_Handler :: u64
  Skip :: bool

text \<open>The constructor leaves the buffer, the offset and the buttons as the memory has them.\<close>

definition new_PS2MouseDriver ::
  "u8 list \<Rightarrow> u8 \<Rightarrow> u8 \<Rightarrow> u64 \<Rightarrow> u64 \<Rightarrow> u64 \<Rightarrow> kernel \<Rightarrow> PS2MouseDriver \<times> InterruptHandler \<times> kernel"
where
  "new_PS2MouseDriver buf off btn this manager handler k =
     (let (h, k) = new_InterruptHandler this 0x2C manager k
      in (\<lparr>mouse_dataPort = Port8Bit 0x60, mouse_commandPort = Port8Bit 0x64, mouse_buffer = buf, mouse_offset = off,
           mouse_buttons = btn, mouse_Handler = handler, Skip = True\<rparr>, h, k))"

text \<open>The waiting loops: \<open>look n\<close> is the \<open>n\<close>-th status that is read; the result is how many were read.\<close>

fun wait_status :: "(u8 \<Rightarrow> bool) \<Rightarrow> (nat \<Rightarrow> u8) \<Rightarrow> nat \<Rightarrow> nat \<Rightarrow> nat" where
  "wait_status ok look 0 n = n"
| "wait_status ok look (Suc timeout) n = (if ok (look n) then n + 1 else wait_status ok look timeout (n + 1))"

definition mouse_Wait :: "(nat \<Rightarrow> u8) \<Rightarrow> nat" where
  "mouse_Wait look = wait_status (\<lambda>s. s AND 2 = 0) look 100000 0"

definition mouse_Wait_Input :: "(nat \<Rightarrow> u8) \<Rightarrow> nat" where
  "mouse_Wait_Input look = wait_status (\<lambda>s. s AND 1 \<noteq> 0) look 100000 0"

text \<open>The buttons of a packet against those of the one before.\<close>

definition button_event :: "u8 \<Rightarrow> u8 \<Rightarrow> nat \<Rightarrow> mouse_event list" where
  "button_event new old i =
     (if new AND push_bit i 1 \<noteq> old AND push_bit i 1
      then if old AND push_bit i 1 \<noteq> 0 then [MouseUp (of_nat i + 1)] else [MouseDown (of_nat i + 1)]
      else [])"

definition mouse_packet :: "PS2MouseDriver \<Rightarrow> mouse_event list \<times> PS2MouseDriver" where
  "mouse_packet d =
     (let b = mouse_buffer d;
          move = (if b ! 1 \<noteq> 0 \<or> b ! 2 \<noteq> 0 then [MouseMove (scast (b ! 1)) (- scast (b ! 2))] else [])
      in (move @ concat (map (button_event (b ! 0) (mouse_buttons d)) [0..<3]), d\<lparr>mouse_buttons := b ! 0\<rparr>))"

text \<open>\<open>None\<close> is an offset behind the buffer.\<close>

definition mouse_interrupt :: "(u16 \<Rightarrow> u8) \<Rightarrow> PS2MouseDriver \<Rightarrow> (mouse_event list \<times> PS2MouseDriver) option" where
  "mouse_interrupt inp d =
     (if Skip d then Some ([], d\<lparr>Skip := False\<rparr>)
      else if inp (portnumber (mouse_commandPort d)) AND 0x20 = 0 then Some ([], d)
      else if unat (mouse_offset d) \<ge> length (mouse_buffer d) then None
      else
        let d = d\<lparr>mouse_buffer := (mouse_buffer d)[unat (mouse_offset d) := inp (portnumber (mouse_dataPort d))]\<rparr>
        in if mouse_Handler d = 0 then Some ([], d)
           else
             let d = d\<lparr>mouse_offset := word_of_nat ((unat (mouse_offset d) + 1) mod 3)\<rparr>
             in if mouse_offset d = 0 then Some (mouse_packet d) else Some ([], d))"

section \<open>The timer chip\<close>

text \<open>Without \<^verbatim>\<open>TimeSinceBoot\<close>, which is a floating-point number.\<close>

record PIT =
  Divisor :: u16
  PITDataPort0 :: Port
  PITCommandPort :: Port

definition BaseFrequency :: u64 where "BaseFrequency = 1193182"

definition new_PIT :: "u64 \<Rightarrow> u64 \<Rightarrow> kernel \<Rightarrow> PIT \<times> InterruptHandler \<times> kernel" where
  "new_PIT this manager k =
     (let (h, k) = new_InterruptHandler this 0x20 manager k
      in (\<lparr>Divisor = 65535, PITDataPort0 = Port8BitSlow 0x40, PITCommandPort = Port8BitSlow 0x43\<rparr>, h, k))"

definition SetDivistor :: "u16 \<Rightarrow> PIT \<times> bus \<Rightarrow> PIT \<times> bus" where
  "SetDivistor divisor s =
     (let (t, b) = s; divisor = (if divisor < 100 then 100 else divisor);
          t = t\<lparr>Divisor := divisor\<rparr>;
          b = Port8BitSlow_Write (PITCommandPort t) 0x36 b;
          b = Port8BitSlow_Write (PITDataPort0 t) (ucast (divisor AND 0x00FF)) b;
          b = Port8BitSlow_Write (PITDataPort0 t) (ucast (drop_bit 8 divisor)) b
      in (t, b))"

definition GetFreqency :: "PIT \<Rightarrow> u64" where
  "GetFreqency t = BaseFrequency div ucast (Divisor t)"

text \<open>\<open>None\<close> is a division by zero.\<close>

definition SetFrequency :: "u64 \<Rightarrow> PIT \<times> bus \<Rightarrow> (PIT \<times> bus) option" where
  "SetFrequency frequency s =
     (if frequency = 0 then None else Some (SetDivistor (ucast (BaseFrequency div frequency)) s))"

section \<open>System calls\<close>

text \<open>
  \<open>'w\<close> is what the calls work on: \<open>print\<close> is \<^verbatim>\<open>printf\<close> of the string at an address, \<open>resolve\<close> makes a new
  file object from the path at an address and gives its address. The other calls do nothing.
\<close>

datatype syscall = SysPrint | SysExec | SysFork | SysYeild | SysExit | SysKill | SysResolveFile | SysResolveDir
  | SysCreateFile | SysCreateDir | SysUpdateFile | SysUpdateDir

definition SYSCALL_COUNT :: nat where "SYSCALL_COUNT = 999"

definition SyscallResults :: "syscall option list" where
  "SyscallResults = map Some [SysPrint, SysExec, SysFork, SysYeild, SysExit, SysKill, SysResolveFile, SysResolveDir,
     SysCreateFile, SysCreateDir, SysUpdateFile, SysUpdateDir] @ replicate (SYSCALL_COUNT - 12) None"

definition new_SyscallHandler :: "u64 \<Rightarrow> u64 \<Rightarrow> kernel \<Rightarrow> InterruptHandler \<times> kernel" where
  "new_SyscallHandler this im k = new_InterruptHandler this 0x80 im k"

definition do_syscall ::
  "(u64 \<Rightarrow> 'w \<Rightarrow> 'w option) \<Rightarrow> (u64 \<Rightarrow> 'w \<Rightarrow> (u64 \<times> 'w) option) \<Rightarrow> syscall
    \<Rightarrow> InterruptRegistersStack \<times> 'w \<Rightarrow> (InterruptRegistersStack \<times> 'w) option"
where
  "do_syscall pr resolve c s =
     (let (r, w) = s in
      case c of
        SysPrint \<Rightarrow> map_option (\<lambda>w. (r, w)) (pr (rdx r) w)
      | SysResolveFile \<Rightarrow> map_option (\<lambda>(f, w). (r\<lparr>rax := f\<rparr>, w)) (resolve (rdx r) w)
      | _ \<Rightarrow> Some s)"

definition syscall_interrupt ::
  "(u64 \<Rightarrow> 'w \<Rightarrow> 'w option) \<Rightarrow> (u64 \<Rightarrow> 'w \<Rightarrow> (u64 \<times> 'w) option)
    \<Rightarrow> InterruptRegistersStack \<times> 'w \<Rightarrow> (InterruptRegistersStack \<times> 'w) option"
where
  "syscall_interrupt pr resolve s =
     (if unat (rax (fst s)) \<ge> SYSCALL_COUNT then Some s
      else case SyscallResults ! unat (rax (fst s)) of
             None \<Rightarrow> Some s
           | Some c \<Rightarrow> do_syscall pr resolve c s)"

section \<open>Packets of the mouse\<close>

text \<open>The bytes of a stream, one interrupt each, all of them ready.\<close>

fun mouse_stream :: "u8 list \<Rightarrow> PS2MouseDriver \<Rightarrow> (mouse_event list \<times> PS2MouseDriver) option" where
  "mouse_stream [] d = Some ([], d)"
| "mouse_stream (b # bs) d =
     (case mouse_interrupt (\<lambda>p. if p = 0x64 then 0x20 else b) d of
        None \<Rightarrow> None
      | Some (es, d) \<Rightarrow> map_option (\<lambda>(es', d). (es @ es', d)) (mouse_stream bs d))"

text \<open>What the packets mean: movement with the vertical axis turned round, then the buttons that changed.\<close>

definition changed_buttons :: "u8 \<Rightarrow> u8 \<Rightarrow> mouse_event list" where
  "changed_buttons new old =
     map (\<lambda>i. if bit old i then MouseUp (of_nat i + 1) else MouseDown (of_nat i + 1)) (filter (\<lambda>i. bit new i \<noteq> bit old i) [0, 1, 2])"

fun packet_events :: "u8 \<Rightarrow> (u8 \<times> u8 \<times> u8) list \<Rightarrow> mouse_event list" where
  "packet_events old [] = []"
| "packet_events old ((b, x, y) # ps) =
     (if x = 0 \<and> y = 0 then [] else [MouseMove (scast x) (- scast y)]) @ changed_buttons b old @ packet_events b ps"

fun packet_bytes :: "(u8 \<times> u8 \<times> u8) list \<Rightarrow> u8 list" where
  "packet_bytes [] = []"
| "packet_bytes ((b, x, y) # ps) = b # x # y # packet_bytes ps"

definition mouse_ready :: "PS2MouseDriver \<Rightarrow> bool" where
  "mouse_ready d \<longleftrightarrow> \<not> Skip d \<and> mouse_Handler d \<noteq> 0 \<and> mouse_offset d = 0 \<and> length (mouse_buffer d) = 3
     \<and> portnumber (mouse_commandPort d) = 0x64 \<and> portnumber (mouse_dataPort d) = 0x60"

lemma button_event_bit:
  fixes new old :: u8
  assumes "i < 8"
  shows "button_event new old i
    = (if bit new i \<noteq> bit old i then [if bit old i then MouseUp (of_nat i + 1) else MouseDown (of_nat i + 1)] else [])"
proof -
  have m: "x AND push_bit i 1 = (if bit x i then push_bit i 1 else 0)" for x :: u8
    by (rule bit_word_eqI) (auto simp: bit_simps)
  have "push_bit i (1 :: u8) \<noteq> 0" using assms by (simp add: push_bit_eq_0_iff)
  then show ?thesis unfolding button_event_def m by auto
qed

lemma mouse_three:
  assumes "mouse_ready d"
  shows "\<exists>d'. mouse_stream [b, x, y] d
      = Some ((if x = 0 \<and> y = 0 then [] else [MouseMove (scast x) (- scast y)]) @ changed_buttons b (mouse_buttons d), d')
    \<and> mouse_ready d' \<and> mouse_buttons d' = b"
proof -
  obtain b0 b1 b2 where buf: "mouse_buffer d = [b0, b1, b2]"
    using assms unfolding mouse_ready_def by (metis (no_types, opaque_lifting) length_0_conv length_Suc_conv numeral_3_eq_3)
  have "[0..<3] = [0, 1, 2]" by (simp add: upt_rec numeral_3_eq_3 numeral_2_eq_2)
  then have "concat (map (button_event b (mouse_buttons d)) [0..<3]) = changed_buttons b (mouse_buttons d)"
    by (simp add: button_event_bit changed_buttons_def)
  then show ?thesis
    using assms buf by (simp add: mouse_ready_def mouse_interrupt_def mouse_packet_def Let_def)
qed


lemma mouse_stream_append:
  "mouse_stream (as @ bs) d = Option.bind (mouse_stream as d)
     (\<lambda>(es, d). map_option (\<lambda>(es', d). (es @ es', d)) (mouse_stream bs d))"
proof (induction as arbitrary: d)
  case Nil
  have "map_option (\<lambda>(es', d). (es', d)) z = z" for z :: "(mouse_event list \<times> PS2MouseDriver) option"
    by (cases z) auto
  then show ?case by simp
next
  case (Cons a as)
  then show ?case
    by (auto simp: option.map_comp comp_def case_prod_beta split: option.splits bind_splits)
qed

lemma mouse_stream_packets:
  assumes "mouse_ready d"
  shows "\<exists>d'. mouse_stream (packet_bytes ps) d = Some (packet_events (mouse_buttons d) ps, d') \<and> mouse_ready d'"
  using assms
proof (induction ps arbitrary: d)
  case (Cons p ps)
  obtain b x y where p: "p = (b, x, y)" by (cases p)
  obtain e where e: "mouse_stream [b, x, y] d
      = Some ((if x = 0 \<and> y = 0 then [] else [MouseMove (scast x) (- scast y)]) @ changed_buttons b (mouse_buttons d), e)"
    "mouse_ready e" "mouse_buttons e = b"
    using mouse_three [OF Cons.prems] by blast
  obtain d' where d': "mouse_stream (packet_bytes ps) e = Some (packet_events b ps, d')" "mouse_ready d'"
    using Cons.IH [OF e(2)] e(3) by auto
  have "packet_bytes (p # ps) = [b, x, y] @ packet_bytes ps" by (simp add: p)
  then have "mouse_stream (packet_bytes (p # ps)) d = Some (packet_events (mouse_buttons d) (p # ps), d')"
    by (simp only: mouse_stream_append e(1)) (simp add: p d'(1))
  then show ?case using d'(2) by blast
qed simp


definition fresh_mouse :: PS2MouseDriver where
  "fresh_mouse = \<lparr>mouse_dataPort = Port8Bit 0x60, mouse_commandPort = Port8Bit 0x64, mouse_buffer = [0, 0, 0],
     mouse_offset = 0, mouse_buttons = 0, mouse_Handler = 0x1000, Skip = False\<rparr>"


section \<open>The frequency of the timer\<close>



text \<open>A frequency below 19 does not fit: the divisor is cut to 16 bits.\<close>

lemma SetFrequency_low: "map_option (\<lambda>(t', _). Divisor t') (SetFrequency 18 (t, b)) = Some 751"
  by (simp add: SetFrequency_def SetDivistor_def BaseFrequency_def Let_def)

section \<open>System calls\<close>

text \<open>An unknown number, or one whose entry is empty, changes nothing.\<close>

lemma syscall_unknown: "12 \<le> unat (rax r) \<Longrightarrow> syscall_interrupt pr resolve (r, w) = Some (r, w)"
  by (simp add: syscall_interrupt_def SyscallResults_def SYSCALL_COUNT_def nth_append)

end
