(* ===== verification/Tga.thy ===== *)
theory Tga
  imports ByteInteraction
begin

text \<open>
  TGA images: \<^verbatim>\<open>inc/files/tga.h\<close>. The pixels of an image are a list in the order of the array the reader
  allocates; \<open>junk\<close> is what a fresh array holds. \<open>None\<close> is a size whose product overflows an \<^verbatim>\<open>int\<close>.
\<close>

record tga_header =
  IDLength :: u8
  colormap :: u8
  encoding :: u8
  cmaporig :: u16
  cmaplen :: u16
  cmapdepth :: u8
  tga_x :: u16
  tga_y :: u16
  tga_width :: u16
  tga_height :: u16
  bpp :: u8
  imagedescriptor :: u8

record TGA_Image =
  tga_head :: tga_header
  tga_Buffer :: "u32 list"

text \<open>The header, read piece by piece, and the pointer behind it.\<close>

definition read_header :: "memory \<Rightarrow> u64 \<Rightarrow> tga_header \<times> u64" where
  "read_header m Buffer =
     (let idl = GetByte m Buffer 0x00; Buffer = Buffer + 1;
          cm = GetByte m Buffer 0x00; Buffer = Buffer + 1;
          enc = GetByte m Buffer 0x00; Buffer = Buffer + 1;
          orig = LittleEndian16 (Get2Byte m Buffer 0x00); Buffer = Buffer + 2;
          len = LittleEndian16 (Get2Byte m Buffer 0x00); Buffer = Buffer + 2;
          depth = GetByte m Buffer 0x00; Buffer = Buffer + 1;
          x = LittleEndian16 (Get2Byte m Buffer 0x00); Buffer = Buffer + 2;
          y = LittleEndian16 (Get2Byte m Buffer 0x00); Buffer = Buffer + 2;
          w = LittleEndian16 (Get2Byte m Buffer 0x00); Buffer = Buffer + 2;
          h = LittleEndian16 (Get2Byte m Buffer 0x00); Buffer = Buffer + 2;
          bits = GetByte m Buffer 0x00; Buffer = Buffer + 1;
          desc = GetByte m Buffer 0x00; Buffer = Buffer + 1;
          Buffer = Buffer + ucast idl
      in (\<lparr>IDLength = idl, colormap = cm, encoding = enc, cmaporig = orig, cmaplen = len, cmapdepth = depth,
           tga_x = x, tga_y = y, tga_width = w, tga_height = h, bpp = bits, imagedescriptor = desc\<rparr>, Buffer))"

definition pixel24 :: "memory \<Rightarrow> u64 \<Rightarrow> u32" where
  "pixel24 m Buffer =
     (let Color = 0;
          Color = Color OR push_bit 24 0xFF;
          Color = Color OR ucast (GetByte m Buffer 0x00);
          Color = Color OR push_bit 8 (ucast (GetByte m Buffer 0x01));
          Color = Color OR push_bit 16 (ucast (GetByte m Buffer 0x02))
      in Color)"

definition pixel32 :: "memory \<Rightarrow> u64 \<Rightarrow> u32" where
  "pixel32 m Buffer = drop_bit 8 (Get4Byte m Buffer 0x00) OR push_bit 24 (ucast (GetByte m Buffer 3))"

text \<open>One row, then all of them: row \<open>y\<close> of the file becomes row \<open>height - 1 - y\<close> of the array.\<close>

definition read_row :: "(u64 \<Rightarrow> u32) \<Rightarrow> u64 \<Rightarrow> nat \<Rightarrow> nat \<Rightarrow> nat \<Rightarrow> u32 list \<times> u64 \<Rightarrow> u32 list \<times> u64" where
  "read_row px step w h y s =
     fold (\<lambda>x (buf, Buffer). (buf[((h - 1) - y) * w + x := px Buffer], Buffer + step)) [0..<w] s"

definition read_rows :: "(u64 \<Rightarrow> u32) \<Rightarrow> u64 \<Rightarrow> nat \<Rightarrow> nat \<Rightarrow> u32 list \<times> u64 \<Rightarrow> u32 list \<times> u64" where
  "read_rows px step w h s = fold (read_row px step w h) [0..<h] s"

text \<open>Encoding 2 is uncompressed; the other encodings and 16 bits a pixel leave the array as it is.\<close>

definition ReadTGA :: "(nat \<Rightarrow> u32) \<Rightarrow> memory \<Rightarrow> u64 \<Rightarrow> TGA_Image option" where
  "ReadTGA junk m Buffer =
     (let (header, Buffer) = read_header m Buffer;
          w = unat (tga_width header); h = unat (tga_height header);
          buf = map junk [0..<w * h]
      in if w * h \<ge> 2 ^ 31 then None
         else Some \<lparr>tga_head = header, tga_Buffer =
           (if encoding header = 2 \<and> bpp header = 24 then fst (read_rows (pixel24 m) 3 w h (buf, Buffer))
            else if encoding header = 2 \<and> bpp header = 32 then fst (read_rows (pixel32 m) 4 w h (buf, Buffer))
            else buf)\<rparr>)"

definition GetImage :: "(nat \<Rightarrow> u32) \<Rightarrow> memory \<Rightarrow> u64 \<Rightarrow> TGA_Image option" where
  "GetImage junk m Buffer = ReadTGA junk m Buffer"

section \<open>Where the pixels come from\<close>

text \<open>After \<open>n\<close> pixels of the row \<open>y\<close> have been read.\<close>

lemma read_row_spec:
  assumes "y < h" and "length buf = w * h"
  shows "length (fst (read_row px step w h y (buf, p))) = w * h
    \<and> snd (read_row px step w h y (buf, p)) = p + of_nat w * step
    \<and> (\<forall>i < w * h. fst (read_row px step w h y (buf, p)) ! i =
         (if (h - 1 - y) * w \<le> i \<and> i < (h - 1 - y) * w + w then px (p + of_nat (i - (h - 1 - y) * w) * step) else buf ! i))"
proof -
  let ?o = "(h - 1 - y) * w"
  let ?f = "\<lambda>x (buf, Buffer). (buf[?o + x := px Buffer], Buffer + step)"
  have room: "?o + w \<le> w * h"
  proof -
    have "?o + w = (h - 1 - y + 1) * w" by (simp add: algebra_simps)
    also have "\<dots> \<le> h * w" using assms(1) by (intro mult_le_mono1) simp
    finally show ?thesis by (simp add: mult.commute)
  qed
  have "n \<le> w \<Longrightarrow> length (fst (fold ?f [0..<n] (buf, p))) = w * h
      \<and> snd (fold ?f [0..<n] (buf, p)) = p + of_nat n * step
      \<and> (\<forall>i < w * h. fst (fold ?f [0..<n] (buf, p)) ! i =
           (if ?o \<le> i \<and> i < ?o + n then px (p + of_nat (i - ?o) * step) else buf ! i))" for n
  proof (induction n)
    case 0
    then show ?case using assms(2) by auto
  next
    case (Suc n)
    then obtain b q where b: "fold ?f [0..<n] (buf, p) = (b, q)" "length b = w * h" "q = p + of_nat n * step"
      "\<forall>i < w * h. b ! i = (if ?o \<le> i \<and> i < ?o + n then px (p + of_nat (i - ?o) * step) else buf ! i)"
      by (cases "fold ?f [0..<n] (buf, p)") auto
    have "?o + n < w * h" using Suc.prems room by simp
    then show ?case using b by (auto simp: algebra_simps nth_list_update)
  qed
  from this [of w] show ?thesis unfolding read_row_def by simp
qed

text \<open>The position in the file of the pixel at index \<open>i\<close> of the array.\<close>

definition file_index :: "nat \<Rightarrow> nat \<Rightarrow> nat \<Rightarrow> nat" where
  "file_index w h i = (h - 1 - i div w) * w + i mod w"

lemma row_of_index:
  fixes i w :: nat
  assumes "0 < w"
  shows "r * w \<le> i \<and> i < r * w + w \<longleftrightarrow> i div w = r"
proof
  assume "r * w \<le> i \<and> i < r * w + w"
  then show "i div w = r" using assms by (simp add: div_nat_eqI mult.commute)
next
  assume "i div w = r"
  then show "r * w \<le> i \<and> i < r * w + w"
    using assms div_mult_mod_eq [of i w] mod_less_divisor [OF assms, of i] by (metis add_less_cancel_left le_add1)
qed

lemma read_rows_spec:
  assumes "length buf = w * h" and "0 < w"
  shows "length (fst (read_rows px step w h (buf, p))) = w * h
    \<and> (\<forall>i < w * h. fst (read_rows px step w h (buf, p)) ! i = px (p + of_nat (file_index w h i) * step))"
proof -
  have "n \<le> h \<Longrightarrow> length (fst (fold (read_row px step w h) [0..<n] (buf, p))) = w * h
      \<and> snd (fold (read_row px step w h) [0..<n] (buf, p)) = p + of_nat (n * w) * step
      \<and> (\<forall>i < w * h. fst (fold (read_row px step w h) [0..<n] (buf, p)) ! i =
           (if h - 1 - i div w < n then px (p + of_nat (file_index w h i) * step) else buf ! i))" for n
  proof (induction n)
    case 0
    then show ?case using assms(1) by simp
  next
    case (Suc n)
    then obtain b q where b: "fold (read_row px step w h) [0..<n] (buf, p) = (b, q)" "length b = w * h"
      "q = p + of_nat (n * w) * step"
      "\<forall>i < w * h. b ! i = (if h - 1 - i div w < n then px (p + of_nat (file_index w h i) * step) else buf ! i)"
      by (cases "fold (read_row px step w h) [0..<n] (buf, p)") auto
    have n: "n < h" using Suc.prems by simp
    note row = read_row_spec [OF n b(2), of px step q]
    have "fst (read_row px step w h n (b, q)) ! i =
        (if h - 1 - i div w < Suc n then px (p + of_nat (file_index w h i) * step) else buf ! i)" if i: "i < w * h" for i
    proof -
      have d: "i div w < h" using i by (simp add: less_mult_imp_div_less mult.commute)
      have here: "(h - 1 - n) * w \<le> i \<and> i < (h - 1 - n) * w + w \<longleftrightarrow> h - 1 - i div w = n"
        unfolding row_of_index [OF assms(2)] using d n by auto
      have off: "q + of_nat (i - (h - 1 - n) * w) * step = p + of_nat (file_index w h i) * step" if "h - 1 - i div w = n"
      proof -
        have "i div w = h - 1 - n" using that d n by simp
        then have "i - (h - 1 - n) * w = i mod w" by (metis minus_div_mult_eq_mod)
        then show ?thesis unfolding b(3) file_index_def that by (simp add: algebra_simps)
      qed
      show ?thesis
        using row b(4) i here off by (auto simp: less_Suc_eq)
    qed
    then show ?case using b row by (simp add: algebra_simps)
  qed
  from this [of h] have all: "length (fst (read_rows px step w h (buf, p))) = w * h"
    "\<forall>i < w * h. fst (read_rows px step w h (buf, p)) ! i =
       (if h - 1 - i div w < h then px (p + of_nat (file_index w h i) * step) else buf ! i)"
    unfolding read_rows_def by simp_all
  moreover have "0 < h" if "i < w * h" for i using that by (cases h) simp_all
  ultimately show ?thesis by auto
qed

section \<open>Images\<close>

lemma read_header_fields:
  assumes "read_header m p = (hdr, q)"
  shows "encoding hdr = m (p + 2) \<and> tga_width hdr = load16 m (p + 12) \<and> tga_height hdr = load16 m (p + 14)
    \<and> bpp hdr = m (p + 16) \<and> q = p + 18 + ucast (m p)"
  using assms by (auto simp: read_header_def GetByte_def LittleEndian_Get Let_def add.assoc)

lemma pixel24_bytes:
  "pixel24 m a = push_bit 24 0xFF OR push_bit 16 (ucast (m (a + 2))) OR push_bit 8 (ucast (m (a + 1))) OR ucast (m a)"
  by (simp add: pixel24_def GetByte_def Let_def or.assoc or.commute or.left_commute)

text \<open>With 32 bits a pixel the first and the third byte, blue and red, change places.\<close>

lemma pixel32_bytes:
  "pixel32 m a = push_bit 24 (ucast (m (a + 3))) OR push_bit 16 (ucast (m a)) OR push_bit 8 (ucast (m (a + 1))) OR ucast (m (a + 2))"
proof (rule bit_word_eqI)
  fix n :: nat
  assume "n < LENGTH(32)"
  then consider "n < 8" | "8 \<le> n" "n < 16" | "16 \<le> n" "n < 24" | "24 \<le> n" "n < 32" by fastforce
  then show "bit (pixel32 m a) n = bit (push_bit 24 (ucast (m (a + 3))) OR push_bit 16 (ucast (m a))
      OR push_bit 8 (ucast (m (a + 1))) OR (ucast (m (a + 2)) :: u32)) n"
    by cases (auto simp: pixel32_def Get4Byte_def Get2Byte_def GetByte_def Let_def bit_simps dest: bit_imp_le_length)
qed

text \<open>An uncompressed image is turned upside down: row \<open>y\<close> of the array is row \<open>height - 1 - y\<close> of the file.\<close>

lemma GetImage_pixels:
  fixes m p
  defines "w \<equiv> unat (load16 m (p + 12))" and "h \<equiv> unat (load16 m (p + 14))" and "b \<equiv> (if m (p + 16) = 24 then 3 else 4 :: nat)"
  assumes "m (p + 2) = 2" and "m (p + 16) = 24 \<or> m (p + 16) = 32" and "w * h < 2 ^ 31"
  shows "\<exists>img. GetImage junk m p = Some img \<and> unat (tga_width (tga_head img)) = w \<and> unat (tga_height (tga_head img)) = h
    \<and> length (tga_Buffer img) = w * h
    \<and> (\<forall>x < w. \<forall>y < h. tga_Buffer img ! (y * w + x) =
         (if m (p + 16) = 24 then pixel24 m else pixel32 m) (p + 18 + ucast (m p) + of_nat (b * ((h - 1 - y) * w + x))))"
proof -
  obtain hdr q where r: "read_header m p = (hdr, q)" by fastforce
  note f = read_header_fields [OF r]
  define px where "px = (if m (p + 16) = 24 then pixel24 m else pixel32 m)"
  define step where "step = (if m (p + 16) = 24 then 3 else 4 :: u64)"
  define buf where "buf = fst (read_rows px step w h (map junk [0..<w * h], q))"
  have "GetImage junk m p = Some \<lparr>tga_head = hdr, tga_Buffer = buf\<rparr>"
    using f assms(4-6) r by (auto simp: GetImage_def ReadTGA_def buf_def px_def step_def w_def h_def Let_def)
  moreover have "length buf = w * h \<and> (\<forall>x < w. \<forall>y < h. buf ! (y * w + x) = px (q + of_nat (b * ((h - 1 - y) * w + x))))"
  proof (cases "w = 0")
    case True
    then have "read_row px step w h y = (\<lambda>s. s)" for y by (simp add: fun_eq_iff read_row_def)
    then have "fold (read_row px step w h) ns s = s" for ns s by (induction ns) simp_all
    with True show ?thesis by (simp add: buf_def read_rows_def)
  next
    case False
    have spec: "length buf = w * h" "\<forall>i < w * h. buf ! i = px (q + of_nat (file_index w h i) * step)"
      using read_rows_spec [of "map junk [0..<w * h]" w h px step q] False by (simp_all add: buf_def)
    have "buf ! (y * w + x) = px (q + of_nat (b * ((h - 1 - y) * w + x)))" if "x < w" "y < h" for x y
    proof -
      have "y * w + x < (y + 1) * w" using that by simp
      also have "\<dots> \<le> h * w" using that by (intro mult_le_mono1) simp
      finally have "y * w + x < w * h" by (simp add: mult.commute)
      moreover have "file_index w h (y * w + x) = (h - 1 - y) * w + x" using that by (simp add: file_index_def)
      moreover have "step = of_nat b" by (simp add: step_def b_def)
      ultimately show ?thesis using spec(2) by (simp add: mult.commute)
    qed
    with spec(1) show ?thesis by simp
  qed
  ultimately show ?thesis
    using f by (simp add: w_def h_def px_def)
qed

text \<open>Reading an uncompressed image of 24 or 32 bits a pixel turns it upside down and takes every pixel from its place
  in the file: the pixel in row \<open>y\<close> and column \<open>x\<close> is made of the bytes of row \<open>height - 1 - y\<close>. The header is
  read at its packed offsets, and the data starts behind the identifier.\<close>

theorem TGA_pixels:
  fixes m p
  defines "w \<equiv> unat (load16 m (p + 12))" and "h \<equiv> unat (load16 m (p + 14))" and "b \<equiv> (if m (p + 16) = 24 then 3 else 4 :: nat)"
  assumes "m (p + 2) = 2" and "m (p + 16) = 24 \<or> m (p + 16) = 32" and "w * h < 2 ^ 31"
  shows "\<exists>img. GetImage junk m p = Some img \<and> unat (tga_width (tga_head img)) = w \<and> unat (tga_height (tga_head img)) = h
    \<and> length (tga_Buffer img) = w * h
    \<and> (\<forall>x < w. \<forall>y < h. tga_Buffer img ! (y * w + x) =
         (let a = p + 18 + ucast (m p) + of_nat (b * ((h - 1 - y) * w + x)) in
          if m (p + 16) = 24
          then push_bit 24 0xFF OR push_bit 16 (ucast (m (a + 2))) OR push_bit 8 (ucast (m (a + 1))) OR ucast (m a)
          else push_bit 24 (ucast (m (a + 3))) OR push_bit 16 (ucast (m a)) OR push_bit 8 (ucast (m (a + 1))) OR ucast (m (a + 2))))"
  using GetImage_pixels [of m p junk, folded w_def h_def b_def, OF assms(4-6)]
  by (cases "m (p + 16) = 24") (simp_all add: pixel24_bytes pixel32_bytes Let_def)

definition small_tga :: memory where
  "small_tga = (\<lambda>_. 0)(2 := 2, 12 := 1, 14 := 2, 16 := 24, 18 := 0x11, 19 := 0x22, 20 := 0x33, 21 := 0x44, 22 := 0x55, 23 := 0x66)"

theorem TGA_pixels_witness:
  "\<exists>img. GetImage (\<lambda>_. 0) small_tga 0 = Some img \<and> tga_Buffer img ! 0 = 0xFF665544 \<and> tga_Buffer img ! 1 = 0xFF332211"
proof -
  have h: "small_tga 2 = 2" "small_tga 16 = 24" "load16 small_tga 12 = 1" "load16 small_tga 14 = 2" "small_tga 0 = 0"
    by (simp_all add: small_tga_def load16_def)
  have b: "small_tga 18 = 0x11" "small_tga 19 = 0x22" "small_tga 20 = 0x33" "small_tga 21 = 0x44" "small_tga 22 = 0x55"
    "small_tga 23 = 0x66"
    by (simp_all add: small_tga_def)
  obtain img where img: "GetImage (\<lambda>_. 0) small_tga 0 = Some img"
    "\<forall>y < 2. tga_Buffer img ! y =
       (let a = 18 + of_nat (3 * (1 - y)) in
        push_bit 24 0xFF OR push_bit 16 (ucast (small_tga (a + 2))) OR push_bit 8 (ucast (small_tga (a + 1))) OR ucast (small_tga a))"
    using TGA_pixels [of small_tga 0 "\<lambda>_. 0"] by (auto simp: h)
  from img(2) [rule_format, of 0] img(2) [rule_format, of 1] img(1) show ?thesis by (simp add: b)
qed

end
