(* ===== verification/BootPaging.thy ===== *)
theory BootPaging
  imports PageTables
begin

text \<open>
  The boot's paging: \<open>InitialisePaging\<close> of \<^verbatim>\<open>src/kernel.cpp\<close>, on the page frame allocator and the
  page tables. \<open>None\<close> is the divide error for a descriptor size of zero, or a loop whose counter
  wraps around and never reaches its end.
\<close>

section \<open>The code\<close>

text \<open>\<^verbatim>\<open>for(t = start; t < end; t += 0x1000) MapMemory(t, t)\<close>, which the function has twice.\<close>

partial_function (option) map_identity :: "u64 \<Rightarrow> u64 \<Rightarrow> vm \<Rightarrow> vm option" where
  "map_identity stop t vm = (if t < stop then map_identity stop (t + 0x1000) (MapMemory t t vm) else Some vm)"

text \<open>
  \<open>s\<close> is the allocator as the program starts, \<open>m\<close> the memory as page tables see it; the kernel lies
  from \<open>start\<close> to \<open>stop\<close>. The result ends with the value of the register CR3.
\<close>

definition InitialisePaging ::
  "efi_map \<Rightarrow> u64 \<Rightarrow> u64 \<Rightarrow> u64 \<Rightarrow> u64 \<Rightarrow> u64 \<Rightarrow> u64 \<Rightarrow> pfa \<Rightarrow> table_store \<Rightarrow> (vm \<times> u64) option" where
  "InitialisePaging mMap mMapSize DescriptorSize BaseAddress BufferSize start stop s m =
     (case ReadEFIMemoryMap mMap mMapSize DescriptorSize s of
        None \<Rightarrow> None
      | Some f \<Rightarrow>
          let SizeOfKernel = stop - start;
              PageCountOfKernel = SizeOfKernel div 0x1000 + 1;
              f = LockPages f start PageCountOfKernel;
              (PML4, f) = RequestPage f;
              vm = \<lparr>PML4 = PML4, entries = zero_table PML4 m, frames = f\<rparr>
          in case map_identity (TotalMemory f) 0 vm of
               None \<Rightarrow> None
             | Some vm \<Rightarrow>
                 let FramebufferBase = BaseAddress;
                     FramebufferSize = BufferSize + 0x1000;
                     vm = vm\<lparr>frames := LockPages (frames vm) FramebufferBase (FramebufferSize div 0x1000 + 1)\<rparr>
                 in case map_identity (FramebufferBase + FramebufferSize) FramebufferBase vm of
                      None \<Rightarrow> None
                    | Some vm \<Rightarrow> Some (vm, PML4))"

section \<open>Frames that can still be had\<close>

definition spare_set :: "pfa \<Rightarrow> u64 set" where
  "spare_set s = {i. pageBitmapIndex s \<le> i \<and> i < Size (PageBitmap s) * 8 \<and> \<not> marked s i}"

definition spare :: "pfa \<Rightarrow> nat" where
  "spare s = card (spare_set s)"

lemma finite_spare [simp]: "finite (spare_set s)"
  by (rule finite_subset [OF subset_UNIV]) simp

lemma spare_insert:
  assumes "spare_set s - {p} \<subseteq> spare_set t"
  shows "spare s \<le> Suc (spare t)"
proof -
  have "spare s \<le> card (insert p (spare_set t))"
    unfolding spare_def using assms by (intro card_mono) auto
  also have "\<dots> \<le> Suc (card (spare_set t))" by (rule card_insert_le_m1) simp_all
  finally show ?thesis by (simp add: spare_def)
qed

text \<open>A request succeeds while a frame is spare and the page 0 is taken, and uses up one of them.\<close>

lemma RequestPage_spare:
  assumes "pfa_ok s" "marked s 0"
  shows "spare s \<le> Suc (spare (snd (RequestPage s))) \<and> marked (snd (RequestPage s)) 0
    \<and> (0 < spare s \<longrightarrow> fst (RequestPage s) \<noteq> 0)"
proof (cases "spare_set s = {}")
  case True
  then have "PageBitmap (snd (RequestPage s)) = PageBitmap s"
    using RequestPage_none [of s] unfolding spare_set_def by blast
  then show ?thesis using True assms by (simp add: spare_def marked_def)
next
  case False
  then obtain i where i: "pageBitmapIndex s \<le> i" "i < Size (PageBitmap s) * 8" "\<not> marked s i"
    by (auto simp: spare_set_def)
  obtain p where p: "pageBitmapIndex s \<le> p" "p \<le> i" "\<not> marked s p"
    and below: "\<forall>j. pageBitmapIndex s \<le> j \<longrightarrow> j < p \<longrightarrow> marked s j"
    and res: "RequestPage s = (p * 4096, LockPage (s\<lparr>pageBitmapIndex := p\<rparr>) (p * 4096))"
    using RequestPage_first [OF assms(1) i] by blast
  have bound: "p < Size (PageBitmap s) * 8" using p(2) i(2) by (rule order_le_less_trans)
  have b: "unat p < 2 ^ 51" using assms(1) bound by (rule index_below)
  then have d: "p * 4096 div 4096 = p" by (intro div_mult_4096) simp
  have "p \<noteq> 0" using p(3) assms(2) by auto
  then have "p * 4096 \<noteq> 0" using d by auto
  moreover have m: "marked (LockPage (s\<lparr>pageBitmapIndex := p\<rparr>) (p * 4096)) j \<longleftrightarrow> marked s j \<or> j = p \<and> page_inside s j" for j
    by (simp add: lock.marked_mark d) (simp add: marked_def page_inside_def)
  moreover have "spare_set s - {p} \<subseteq> spare_set (LockPage (s\<lparr>pageBitmapIndex := p\<rparr>) (p * 4096))"
    using below m by (auto simp: spare_set_def LockPage_eq Let_def not_less [symmetric])
  ultimately show ?thesis using assms(2) by (simp add: res spare_insert)
qed

lemma LockPage_spare: "spare s \<le> Suc (spare (LockPage s a))"
  by (rule spare_insert [of _ "a div 4096"])
    (auto simp: spare_set_def lock.marked_mark, auto simp: LockPage_eq Let_def)

lemma LockPages_spare:
  assumes "unat n \<le> 2 ^ 31"
  shows "spare s \<le> spare (LockPages s a n) + unat n"
proof -
  have "spare s \<le> spare (fold (\<lambda>t s. LockPage s (a + page_offset (word_of_nat t))) [0..<k] s) + k" for k
  proof (induction k)
    case (Suc k)
    then show ?case
      using LockPage_spare [of "fold (\<lambda>t s. LockPage s (a + page_offset (word_of_nat t))) [0..<k] s"
          "a + page_offset (word_of_nat k)"] by simp
  qed simp
  then show ?thesis by (simp add: LockPages_def each_page_def int_for_fold [OF assms])
qed


lemma LockPages_keeps:
  "pfa_ok (LockPages s a n) = pfa_ok s" "marked s j \<Longrightarrow> marked (LockPages s a n) j"
  "Size (PageBitmap (LockPages s a n)) = Size (PageBitmap s)"
  "TotalMemory (LockPages s a n) = TotalMemory s"
  using geometry_runs(1) [of s a n]
  by (simp_all add: pfa_ok_def geometry_def lock.marked_each_mono LockPages_def)

section \<open>One page of the mapping\<close>

text \<open>A page is covered when the three tables above it exist; then mapping it needs no frame.\<close>

definition covered :: "vm \<Rightarrow> u64 \<Rightarrow> bool" where
  "covered vm v \<longleftrightarrow> root_walk vm (take 3 (index_path v)) \<noteq> None"

definition spare_ok :: "vm \<Rightarrow> bool" where
  "spare_ok vm \<longleftrightarrow> tables_ok vm \<and> marked (frames vm) 0"

lemma tables_pfa_ok: "tables_ok vm \<Longrightarrow> pfa_ok (frames vm)"
  by (simp add: tables_ok_def pfa_ok_def)

lemma request_spare:
  "pfa_ok s \<Longrightarrow> marked s 0 \<Longrightarrow> n \<le> spare s \<Longrightarrow> 0 \<notin> set (fst (request_all n s))"
proof (induction n arbitrary: s)
  case (Suc n)
  obtain a s' where r: "RequestPage s = (a, s')" by (cases "RequestPage s")
  have "pfa_ok s'" "marked s' 0" "n \<le> spare s'" "a \<noteq> 0"
    using Suc.prems RequestPage_spare [of s] pfa_ok_RequestPage [of s] r by auto
  then show ?case using Suc.IH [of s'] r by (auto split: prod.splits)
qed simp

lemma descend_frames:
  "frames (snd (descend T i vm)) = frames vm \<or> frames (snd (descend T i vm)) = snd (RequestPage (frames vm))"
  by (auto simp: descend_def Let_def split: prod.splits)

lemma descend_spare:
  assumes "pfa_ok (frames vm)" "marked (frames vm) 0" and "descend T i vm = (P, vm')"
  shows "pfa_ok (frames vm') \<and> marked (frames vm') 0 \<and> spare (frames vm) \<le> Suc (spare (frames vm'))"
  using descend_frames [of T i vm] RequestPage_spare [OF assms(1,2)] pfa_ok_RequestPage [OF assms(1)] assms
  by auto

lemma MapMemory_spare:
  assumes "pfa_ok (frames vm)" "marked (frames vm) 0"
  shows "marked (frames (MapMemory v p vm)) 0 \<and> spare (frames vm) \<le> spare (frames (MapMemory v p vm)) + 3"
proof -
  define x where "x = page_map_indexer v"
  obtain T1 vm1 where d1: "descend (PML4 vm) (PDP_i x) vm = (T1, vm1)" by fastforce
  obtain T2 vm2 where d2: "descend T1 (PD_i x) vm1 = (T2, vm2)" by fastforce
  obtain T3 vm3 where d3: "descend T2 (PT_i x) vm2 = (T3, vm3)" by fastforce
  have "MapMemory v p vm = set_leaf T3 (P_i x) p vm3"
    by (simp add: MapMemory_def x_def [symmetric] Let_def d1 d2 d3)
  then have "frames (MapMemory v p vm) = frames vm3" by (simp add: set_leaf_def Let_def)
  moreover note s1 = descend_spare [OF assms d1]
  moreover note s2 = descend_spare [OF conjunct1 [OF s1] conjunct1 [OF conjunct2 [OF s1]] d2]
  moreover note s3 = descend_spare [OF conjunct1 [OF s2] conjunct1 [OF conjunct2 [OF s2]] d3]
  ultimately show ?thesis by auto
qed

lemma descend_root: "PML4 (snd (descend T i vm)) = PML4 vm"
  by (simp add: descend_def Let_def split: prod.splits)

lemma MapMemory_root [simp]: "PML4 (MapMemory v p vm) = PML4 vm"
proof -
  define x where "x = page_map_indexer v"
  obtain T1 vm1 where d1: "descend (PML4 vm) (PDP_i x) vm = (T1, vm1)" by fastforce
  obtain T2 vm2 where d2: "descend T1 (PD_i x) vm1 = (T2, vm2)" by fastforce
  obtain T3 vm3 where d3: "descend T2 (PT_i x) vm2 = (T3, vm3)" by fastforce
  have "PML4 vm1 = PML4 vm" "PML4 vm2 = PML4 vm1" "PML4 vm3 = PML4 vm2"
    using descend_root [of "PML4 vm" "PDP_i x" vm] descend_root [of T1 "PD_i x" vm1] descend_root [of T2 "PT_i x" vm2]
    by (simp_all add: d1 d2 d3)
  then show ?thesis by (simp add: MapMemory_def x_def [symmetric] Let_def d1 d2 d3 set_leaf_def)
qed

text \<open>On a covered page only the leaf is written.\<close>

lemma MapMemory_covered:
  assumes ok: "tables_ok vm" and "covered vm v"
  shows "frames (MapMemory v p vm) = frames vm \<and> tables_ok (MapMemory v p vm)
    \<and> (\<forall>\<sigma>. indices \<sigma> \<longrightarrow> length \<sigma> \<le> 4 \<longrightarrow> root_walk (MapMemory v p vm) \<sigma> =
         (if \<sigma> = index_path v then Some (push_bit 12 (take_bit 40 (drop_bit 12 p))) else root_walk vm \<sigma>))"
proof -
  define x where "x = page_map_indexer v"
  have path: "index_path v = [PDP_i x, PD_i x, PT_i x, P_i x]"
    using page_map_indexer_path [of x v] by (simp add: x_def)
  have idx: "unat (PDP_i x) < 512" "unat (PD_i x) < 512" "unat (PT_i x) < 512" "unat (P_i x) < 512"
    using index_path_inside [of v] by (simp_all add: path index_inside_def indices_def)
  obtain T3 where T3: "root_walk vm [PDP_i x, PD_i x, PT_i x] = Some T3"
    using assms(2) by (auto simp: covered_def path numeral_3_eq_3)
  then have "MapMemory v p vm = set_leaf T3 (P_i x) p vm"
    by (auto simp: MapMemory_def x_def [symmetric] Let_def descend_def GetFlag_Present target_GetAddress root_walk_def
        split: if_splits)
  moreover have ind: "indices [PDP_i x, PD_i x, PT_i x]" using idx by (simp add: indices_def)
  moreover have "frames (set_leaf T3 (P_i x) p vm) = frames vm" by (simp add: set_leaf_def Let_def)
  ultimately show ?thesis
    using tables_ok_set_leaf [OF ok ind _ T3 idx(4), of p] set_leaf_step [OF ok ind _ T3 idx(4), of _ p]
    by (simp add: path)
qed


lemma page_step:
  assumes ok: "spare_ok vm" and frames: "covered vm v \<or> 3 \<le> spare (frames vm)"
    and p: "aligned p" "unat p < 2 ^ 52"
  shows "spare_ok (MapMemory v p vm) \<and> covered (MapMemory v p vm) v
    \<and> spare (frames vm) \<le> spare (frames (MapMemory v p vm)) + (if covered vm v then 0 else 3)
    \<and> (\<forall>w. translate (MapMemory v p vm) w =
         (if index_path w = index_path v then Some (p + take_bit 12 w) else translate vm w))"
proof -
  have t: "tables_ok vm" "marked (frames vm) 0" using ok by (simp_all add: spare_ok_def)
  have walks: "tables_ok (MapMemory v p vm) \<and> (\<forall>w. root_walk (MapMemory v p vm) (index_path w) =
      (if index_path w = index_path v then Some p else root_walk vm (index_path w)))"
  proof (cases "covered vm v")
    case True
    show ?thesis
      using MapMemory_covered [OF t(1) True, of p] index_path_inside target_page [OF p]
      by (simp add: index_inside_def)
  next
    case False
    then have "0 \<notin> set (fst (request_all 3 (frames vm)))"
      using frames t by (intro request_spare tables_pfa_ok) simp_all
    from MapMemory_walk [OF t(1) this, of v p] show ?thesis
      using index_path_inside target_page [OF p] by simp
  qed
  moreover have "covered (MapMemory v p vm) v"
  proof -
    have "index_path v = take 3 (index_path v) @ drop 3 (index_path v)" by simp
    then have "root_walk (MapMemory v p vm) (take 3 (index_path v) @ drop 3 (index_path v)) = Some p"
      using walks by simp
    then show ?thesis unfolding covered_def root_walk_def walk_append by (auto split: option.splits)
  qed
  moreover have "spare (frames vm) \<le> spare (frames (MapMemory v p vm)) + (if covered vm v then 0 else 3)"
    using MapMemory_covered [OF t(1), of v p] MapMemory_spare [OF tables_pfa_ok [OF t(1)] t(2), of v p] by auto
  ultimately show ?thesis
    using MapMemory_spare [OF tables_pfa_ok [OF t(1)] t(2), of v p]
    by (simp add: spare_ok_def translate_def root_walk_def)
qed

section \<open>Pages by number\<close>

definition nth_page :: "nat \<Rightarrow> u64" where
  "nth_page k = word_of_nat (4096 * k)"

lemma page_number: "k < 2 ^ 40 \<Longrightarrow> unat (nth_page k) = 4096 * k"
  unfolding nth_page_def by (rule unat_of_nat_u64) simp

lemma page_next: "nth_page k + 0x1000 = nth_page (Suc k)"
  by (simp add: nth_page_def)

lemma same_tables:
  fixes v w :: u64
  assumes "drop_bit 21 v = drop_bit 21 w"
  shows "take 3 (index_path v) = take 3 (index_path w)"
proof -
  have "drop_bit 39 v = drop_bit 39 w" "drop_bit 30 v = drop_bit 30 w"
    using arg_cong [OF assms, of "drop_bit 18"] arg_cong [OF assms, of "drop_bit 9"]
    by (simp_all add: drop_bit_drop_bit)
  then show ?thesis using assms by (simp add: index_path_def numeral_3_eq_3)
qed

lemma covered_neighbour:
  assumes "k < 2 ^ 40" "j < 2 ^ 40" "k div 512 = j div 512"
  shows "covered vm (nth_page k) = covered vm (nth_page j)"
proof -
  have "unat (drop_bit 21 (nth_page k)) = k div 512" if "k < 2 ^ 40" for k
    using that by (simp add: drop_bit_eq_div unat_div_distrib page_number)
  then have "drop_bit 21 (nth_page k) = drop_bit 21 (nth_page j)"
    using assms by (simp add: word_eq_iff_unat)
  then show ?thesis unfolding covered_def using same_tables by metis
qed

text \<open>Below 256 TiB the four indices determine the page.\<close>

lemma index_path_page:
  fixes v w :: u64
  assumes "unat v < 2 ^ 48" "unat w < 2 ^ 48"
  shows "index_path v = index_path w \<longleftrightarrow> unat v div 4096 = unat w div 4096"
proof
  assume eq: "index_path v = index_path w"
  have high: "\<not> bit v n" if "unat v < 2 ^ 48" "48 \<le> n" for v :: u64 and n
  proof -
    have "take_bit 48 v = v"
      using that(1) by (simp add: word_eq_iff_unat unsigned_take_bit_eq take_bit_nat_eq_self_iff)
    then have "bit v n = bit (take_bit 48 v) n" by simp
    then show ?thesis using that(2) by (simp add: bit_simps)
  qed
  have part: "bit v n = bit w n" if "take_bit 9 (drop_bit d v) = take_bit 9 (drop_bit d w)" "d \<le> n" "n < d + 9" for d n
  proof -
    have "bit (take_bit 9 (drop_bit d v)) (n - d) = bit (take_bit 9 (drop_bit d w)) (n - d)" using that by simp
    moreover have "n - d < 9" using that(2,3) by linarith
    ultimately show ?thesis using that(2) by (simp add: bit_simps)
  qed
  have "drop_bit 12 v = drop_bit 12 w"
  proof (rule bit_word_eqI)
    fix n :: nat
    consider "n + 12 < 21" | "21 \<le> n + 12" "n + 12 < 30" | "30 \<le> n + 12" "n + 12 < 39"
      | "39 \<le> n + 12" "n + 12 < 48" | "48 \<le> n + 12" by linarith
    then have "bit v (n + 12) = bit w (n + 12)"
      using part [of 39 "n + 12"] part [of 30 "n + 12"] part [of 21 "n + 12"] part [of 12 "n + 12"] eq
        high [OF assms(1), of "n + 12"] high [OF assms(2), of "n + 12"]
      by cases (auto simp: index_path_def)
    then show "bit (drop_bit 12 v) n = bit (drop_bit 12 w) n" by (simp add: bit_simps add.commute)
  qed
  then have "unat (drop_bit 12 v) = unat (drop_bit 12 w)" by simp
  then show "unat v div 4096 = unat w div 4096" by (simp add: drop_bit_eq_div unat_div_distrib)
next
  assume "unat v div 4096 = unat w div 4096"
  then have eq: "drop_bit 12 v = drop_bit 12 w" by (simp add: word_eq_iff_unat drop_bit_eq_div unat_div_distrib)
  moreover have "drop_bit 39 v = drop_bit 39 w" "drop_bit 30 v = drop_bit 30 w" "drop_bit 21 v = drop_bit 21 w"
    using arg_cong [OF eq, of "drop_bit 27"] arg_cong [OF eq, of "drop_bit 18"]
      arg_cong [OF eq, of "drop_bit 9"]
    by (simp_all add: drop_bit_drop_bit)
  ultimately show "index_path v = index_path w" by (simp add: index_path_def)
qed


section \<open>The loop\<close>

lemma ceiling_page: "k < (s + 4095) div 4096 \<longleftrightarrow> 4096 * k < (s :: nat)"
proof -
  have "k < (s + 4095) div 4096 \<longleftrightarrow> Suc k * 4096 \<le> s + 4095"
    by (simp only: Suc_le_eq [symmetric] less_eq_div_iff_mult_less_eq)
  then show ?thesis by (simp only: mult_Suc) linarith
qed

definition budget :: "nat \<Rightarrow> nat \<Rightarrow> vm \<Rightarrow> nat" where
  "budget b k vm = 3 * (b div 512 - k div 512) + (if covered vm (nth_page k) then 0 else 3)"

lemma budget_step:
  assumes "k < b" "b < 2 ^ 40" and "covered vm (nth_page k)"
  shows "budget b (Suc k) vm \<le> 3 * (b div 512 - k div 512)"
proof (cases "Suc k div 512 = k div 512")
  case True
  then have "covered vm (nth_page (Suc k))"
    using assms covered_neighbour [of "Suc k" k vm] by simp
  then show ?thesis using True by (simp add: budget_def)
next
  case False
  then have "Suc k div 512 = Suc (k div 512)" by (simp add: div_Suc split: if_splits)
  moreover have "Suc k div 512 \<le> b div 512" using assms(1) by (intro div_le_mono) simp
  ultimately have "Suc (b div 512 - Suc k div 512) \<le> b div 512 - k div 512" by linarith
  then show ?thesis unfolding budget_def by (split if_split) linarith
qed

text \<open>
  From page \<open>k\<close> to the last page below \<open>stop\<close>: with three spare frames for each piece of 2 MiB the loop
  maps every page to itself and leaves the rest of the mapping alone.
\<close>

lemma map_identity_spec:
  fixes stop :: u64
  defines "b \<equiv> (unat stop + 4095) div 4096"
  assumes "unat stop \<le> 2 ^ 48" and "k \<le> b"
    and "spare_ok vm" and "budget b k vm \<le> spare (frames vm)"
  shows "\<exists>vm'. map_identity stop (nth_page k) vm = Some vm' \<and> spare_ok vm' \<and> PML4 vm' = PML4 vm
    \<and> spare (frames vm) \<le> spare (frames vm') + budget b k vm
    \<and> (\<forall>w. unat w < 2 ^ 48 \<longrightarrow> translate vm' w =
         (if k \<le> unat w div 4096 \<and> unat w div 4096 < b then Some w else translate vm w))"
  using assms(3-5)
proof (induction "b - k" arbitrary: k vm)
  case 0
  then have "k = b" by simp
  moreover have "b \<le> 2 ^ 36" unfolding b_def using assms(2) by simp
  ultimately have "unat (nth_page k) = 4096 * k" by (intro page_number) simp
  moreover have "unat stop \<le> 4096 * b" using ceiling_page [of b "unat stop"] by (simp add: b_def)
  ultimately have "\<not> nth_page k < stop" using \<open>k = b\<close> by (simp add: word_less_nat_alt)
  then have "map_identity stop (nth_page k) vm = Some vm" by (subst map_identity.simps) simp
  moreover have "\<not> (k \<le> x \<and> x < b)" for x using \<open>k = b\<close> by linarith
  ultimately show ?case using "0.prems" by (intro exI [of _ vm]) (simp only: if_False, simp)
next
  case (Suc d)
  then have k: "k < b" by simp
  have b36: "b \<le> 2 ^ 36" unfolding b_def using assms(2) by simp
  let ?t = "nth_page k"
  have t: "unat ?t = 4096 * k" using k b36 by (intro page_number) simp
  have "4096 * k < unat stop" using k ceiling_page [of k "unat stop"] by (simp add: b_def)
  then have guard: "?t < stop" using t by (simp add: word_less_nat_alt)
  have t48: "unat ?t < 2 ^ 48" using k b36 t by simp
  define vm1 where "vm1 = MapMemory ?t ?t vm"
  have "covered vm ?t \<or> 3 \<le> spare (frames vm)"
    using Suc.prems(3) by (auto simp: budget_def split: if_splits)
  moreover have "aligned ?t" "unat ?t < 2 ^ 52" using t t48 by (simp_all add: aligned_def)
  ultimately have s: "spare_ok vm1" "covered vm1 ?t"
    "spare (frames vm) \<le> spare (frames vm1) + (if covered vm ?t then 0 else 3)"
    "\<And>w. translate vm1 w = (if index_path w = index_path ?t then Some (?t + take_bit 12 w) else translate vm w)"
    using page_step [OF Suc.prems(2), of ?t ?t] by (auto simp: vm1_def)
  have bud: "budget b (Suc k) vm1 + (if covered vm ?t then 0 else 3) \<le> budget b k vm"
    using budget_step [OF k _ s(2)] b36 by (simp add: budget_def)
  have left: "d = b - Suc k" using Suc.hyps(2) by simp
  have "budget b (Suc k) vm1 \<le> spare (frames vm1)" using bud s(3) Suc.prems(3) by linarith
  then obtain vm' where vm': "map_identity stop (nth_page (Suc k)) vm1 = Some vm'" "spare_ok vm'" "PML4 vm' = PML4 vm1"
    "spare (frames vm1) \<le> spare (frames vm') + budget b (Suc k) vm1"
    "\<And>w. unat w < 2 ^ 48 \<Longrightarrow> translate vm' w =
         (if Suc k \<le> unat w div 4096 \<and> unat w div 4096 < b then Some w else translate vm1 w)"
    using Suc.hyps(1) [OF left Suc_leI [OF k] s(1)] by blast
  then have "map_identity stop ?t vm = Some vm'"
    using vm'(1) guard by (subst map_identity.simps) (simp add: vm1_def page_next)
  moreover have "translate vm' w = (if k \<le> unat w div 4096 \<and> unat w div 4096 < b then Some w else translate vm w)"
    if w: "unat w < 2 ^ 48" for w
  proof -
    have same: "index_path w = index_path ?t \<longleftrightarrow> unat w div 4096 = k"
      using index_path_page [OF w t48] t by simp
    have "?t + take_bit 12 w = w" if "unat w div 4096 = k"
    proof -
      have "unat (take_bit 12 w) = unat w mod 4096"
        by (simp add: take_bit_eq_mod unat_mod_distrib)
      moreover have "unat w = 4096 * k + unat w mod 4096" using that by (metis mult_div_mod_eq)
      ultimately have "unat (?t + take_bit 12 w) = unat w"
        using t unsigned_less [of w] by (subst unat_add_no_wrap) simp_all
      then show ?thesis by (simp add: word_eq_iff_unat)
    qed
    then show ?thesis using vm'(5) [OF w] s(4) [of w] same k by auto
  qed
  moreover have "spare (frames vm) \<le> spare (frames vm') + budget b k vm" using bud s(3) vm'(4) by linarith
  moreover have "PML4 vm' = PML4 vm" using vm'(3) by (simp add: vm1_def)
  ultimately show ?case using vm'(2) by blast
qed


section \<open>The state of the allocator after the memory map has been read\<close>

lemma boot_state:
  assumes "\<not> Initialised s" "D \<noteq> 0"
    and M: "M = fst (GetMemorySize mMap (mMapSize div D) D s)" and small: "unat M < 2 ^ 40"
    and f: "ReadEFIMemoryMap mMap mMapSize D s = Some f"
  shows "TotalMemory f = M \<and> unat (Size (PageBitmap f)) * 8 < 2 ^ 40 \<and> marked f 0"
proof -
  let ?s4 = "unreserve_conventional mMap (mMapSize div D) D
        (ReservePages (boot_start mMap (mMapSize div D) D M s) 0 (M div 4096 + 1))"
  have f_eq: "f = LockPages (ReservePages ?s4 0 0x100) (fst (largest_segment mMap (mMapSize div D) D))
      ((M div 4096 div 8 + 1) div 4096 + 1)"
    using f ReadEFIMemoryMap_boot [OF assms(1,2) refl M] by simp
  have "geometry f = (M div 4096 div 8 + 1, fst (largest_segment mMap (mMapSize div D) D), M, True)"
    by (simp add: f_eq geometry_boot_start)
  then have g: "Size (PageBitmap f) = M div 4096 div 8 + 1" "TotalMemory f = M" by (simp_all add: geometry_def)
  have "unat M div 4096 div 8 < 2 ^ 25" using small by (simp add: div_mult2_eq [symmetric] less_mult_imp_div_less)
  moreover have "marked (ReservePages ?s4 0 0x100) 0"
    by (subst runs_marked(2)) (simp_all add: in_pages_def page_inside_def)
  then have "marked f 0" unfolding f_eq by (rule LockPages_keeps(2))
  ultimately show ?thesis using boot_size [OF small] g by simp
qed

text \<open>The table made of zeroes: the root is its only table and translates nothing.\<close>

lemma empty_root:
  assumes "RequestPage f = (P, f')" "P \<noteq> 0" "unat (Size (PageBitmap f)) * 8 < 2 ^ 40" "marked f 0"
  shows "spare_ok \<lparr>PML4 = P, entries = zero_table P m, frames = f'\<rparr>"
proof -
  let ?vm = "\<lparr>PML4 = P, entries = zero_table P m, frames = f'\<rparr>"
  have ok: "pfa_ok f" using assms(3) by (simp add: pfa_ok_def)
  from RequestPage_cases [OF ok] assms(1,2)
  have P: "P = P div 4096 * 4096" "marked f' (P div 4096)" "\<not> marked f (P div 4096)" by auto
  have sz: "Size (PageBitmap f') = Size (PageBitmap f)"
    using geometry_RequestPage [of f] assms(1) by (simp add: geometry_def)
  have "unat P div 4096 < 2 ^ 52" by (intro less_mult_imp_div_less) simp
  then have "unat (P div 4096) < 2 ^ 52" by (simp add: unat_div_distrib)
  then have "aligned (P div 4096 * 4096)" by (rule aligned_mult)
  then have al: "aligned P" using P(1) by simp
  have w: "root_walk ?vm \<pi> = Some T \<longleftrightarrow> \<pi> = [] \<and> T = P" if "indices \<pi>" for \<pi> T
    using that by (cases \<pi>) (auto simp: root_walk_def zero_table_apply present_def indices_def Let_def)
  show ?thesis
    unfolding spare_ok_def tables_ok_def
    using w al P(2) sz assms(1,3,4) RequestPage_spare [OF ok assms(4)] by auto
qed

lemma spare_ok_LockPages: "spare_ok vm \<Longrightarrow> spare_ok (vm\<lparr>frames := LockPages (frames vm) a n\<rparr>)"
  by (auto simp: spare_ok_def tables_ok_def root_walk_def LockPages_keeps)

lemma translate_frames [simp]: "translate (vm\<lparr>frames := f\<rparr>) w = translate vm w"
  by (simp add: translate_def)

lemma covered_frames [simp]: "covered (vm\<lparr>frames := f\<rparr>) v = covered vm v"
  by (simp add: covered_def root_walk_def)

lemma budget_bound: "budget b k vm \<le> 3 * (b div 512 - k div 512) + 3"
  by (simp add: budget_def)


definition boot_frames :: "nat \<Rightarrow> nat \<Rightarrow> nat \<Rightarrow> nat" where
  "boot_frames memory kernl framebuffer =
     (kernl div 4096 + 1) + 1 + 3 * (memory div 2 ^ 21 + 2)
     + (framebuffer div 4096 + 2) + 3 * (framebuffer div 2 ^ 21 + 3)"

lemma budget_memory: "budget ((m + 4095) div 4096) 0 vm \<le> 3 * (m div 2 ^ 21 + 2)"
proof -
  have "(m + 4095) div 4096 div 512 = (m + 4095) div 2 ^ 21" by (simp add: div_mult2_eq [symmetric])
  also have "\<dots> \<le> (m + 2 ^ 21) div 2 ^ 21" by (intro div_le_mono) simp
  finally show ?thesis using budget_bound [of "(m + 4095) div 4096" 0 vm] by simp
qed

lemma budget_framebuffer:
  assumes "base mod 4096 = 0"
  shows "budget ((base + (sz + 4096) + 4095) div 4096) (base div 4096) vm \<le> 3 * (sz div 2 ^ 21 + 3)"
proof -
  let ?b = "(base + (sz + 4096) + 4095) div 4096"
  have "(base + (sz + 4096) + 4095) div 4096 div 512 = (base + (sz + 4096) + 4095) div 2 ^ 21"
    "base div 4096 div 512 = base div 2 ^ 21"
    by (simp_all add: div_mult2_eq [symmetric])
  moreover have "(base + (sz + 4096) + 4095) div 2 ^ 21 \<le> base div 2 ^ 21 + sz div 2 ^ 21 + 2"
  proof -
    have "base + (sz + 4096) + 4095 < (base div 2 ^ 21 + sz div 2 ^ 21 + 3) * 2 ^ 21"
      using div_mult_mod_eq [of base "2 ^ 21"] div_mult_mod_eq [of sz "2 ^ 21"]
        mod_less_divisor [of "2 ^ 21" base] mod_less_divisor [of "2 ^ 21" sz] by (simp add: algebra_simps)
    then have "(base + (sz + 4096) + 4095) div 2 ^ 21 < base div 2 ^ 21 + sz div 2 ^ 21 + 3"
      by (rule less_mult_imp_div_less)
    then show ?thesis by simp
  qed
  ultimately have "?b div 512 - base div 4096 div 512 \<le> sz div 2 ^ 21 + 2" by linarith
  then have "3 * (?b div 512 - base div 4096 div 512) + 3 \<le> 3 * (sz div 2 ^ 21 + 2) + 3"
    by (intro add_mono mult_le_mono2 order_refl)
  also have "\<dots> = 3 * (sz div 2 ^ 21 + 3)" by simp
  finally show ?thesis by (rule order_trans [OF budget_bound])
qed

lemma boot_hint:
  assumes "\<not> Initialised s" "D \<noteq> 0" and "ReadEFIMemoryMap mMap mMapSize D s = Some f"
  shows "pageBitmapIndex f \<le> pageBitmapIndex s"
proof -
  let ?p = "\<lambda>t. pageBitmapIndex t \<le> pageBitmapIndex s"
  have runs: "?p (LockPages t a n)" "?p (ReservePages t a n)" "?p (UnreservePages t a n)" if "?p t" for t a n
    unfolding LockPages_def ReservePages_def UnreservePages_def each_page_def
    by (rule int_for_invariant [where P = ?p]; use that in \<open>auto simp: page_op_eqs min.coboundedI1\<close>)+
  moreover have "?p (unreserve_conventional mMap n D t)" if "?p t" for t n
    unfolding unreserve_conventional_def
    by (rule int_for_invariant [where P = ?p]) (use that runs in \<open>auto simp: Let_def\<close>)
  ultimately show ?thesis
    using assms(3) unfolding ReadEFIMemoryMap_boot [OF assms(1,2) refl refl]
    by (auto simp: boot_start_def InitBitmap_def)
qed

section \<open>Properties\<close>

text \<open>C5. \<open>InitialisePaging\<close> returns, with CR3 on the root of tables that form a tree, and the processor then
  translates every address of the memory and of the frame buffer to itself. The frames it needs: those of
  the kernel and of the frame buffer, which it locks, and three for every 2 MiB it maps.\<close>

theorem boot_identity_map:
  assumes "\<not> Initialised s" "D \<noteq> 0"
    and "M = fst (GetMemorySize mMap (mMapSize div D) D s)" "unat M < 2 ^ 40"
    and "aligned base" "unat sz < 2 ^ 40" "unat base + unat sz + 0x1000 \<le> 2 ^ 48"
    and "unat (stop - start) < 2 ^ 40"
    and "\<And>f. ReadEFIMemoryMap mMap mMapSize D s = Some f \<Longrightarrow>
      boot_frames (unat M) (unat (stop - start)) (unat sz) \<le> spare f"
  shows "\<exists>vm. InitialisePaging mMap mMapSize D base sz start stop s m = Some (vm, PML4 vm) \<and> tables_ok vm
    \<and> (\<forall>w. unat w < unat M \<or> unat base \<le> unat w \<and> unat w < unat base + unat sz + 0x1000
         \<longrightarrow> translate vm w = Some w)"
proof -
  obtain f where f: "ReadEFIMemoryMap mMap mMapSize D s = Some f"
    using ReadEFIMemoryMap_boot [OF assms(1,2) refl assms(3)] by blast
  have st: "TotalMemory f = M" "unat (Size (PageBitmap f)) * 8 < 2 ^ 40" "marked f 0"
    using boot_state [OF assms(1-4) f] by simp_all
  let ?k = "(stop - start) div 0x1000 + 1"
  have k: "unat ?k = unat (stop - start) div 4096 + 1"
    using assms(8) by (subst unat_add_no_wrap) (simp_all add: unat_div_distrib)
  define f1 where "f1 = LockPages f start ?k"
  have f1: "TotalMemory f1 = M" "unat (Size (PageBitmap f1)) * 8 < 2 ^ 40" "marked f1 0"
    "spare f \<le> spare f1 + (unat (stop - start) div 4096 + 1)"
    using st LockPages_spare [of ?k f start] k assms(8) by (simp_all add: f1_def LockPages_keeps)
  have ok1: "pfa_ok f1" using f1(2) by (simp add: pfa_ok_def)
  obtain P f2 where r: "RequestPage f1 = (P, f2)" by fastforce
  note frames = assms(9) [OF f, unfolded boot_frames_def]
  have f2: "spare f1 \<le> Suc (spare f2)" "P \<noteq> 0"
    using RequestPage_spare [OF ok1 f1(3)] r f1(4) frames by auto
  have total: "TotalMemory f2 = M" using geometry_RequestPage [of f1] r f1(1) by (simp add: geometry_def)
  define vm0 where "vm0 = \<lparr>PML4 = P, entries = zero_table P m, frames = f2\<rparr>"
  have vm0: "spare_ok vm0" unfolding vm0_def using empty_root [OF r f2(2) f1(2,3)] .
  have "budget ((unat M + 4095) div 4096) 0 vm0 \<le> spare (frames vm0)"
    using budget_memory [of "unat M" vm0] f2 f1(4) frames by (simp add: vm0_def)
  then obtain vm1 where vm1: "map_identity M (nth_page 0) vm0 = Some vm1" "spare_ok vm1" "PML4 vm1 = P"
    "spare f2 \<le> spare (frames vm1) + 3 * (unat M div 2 ^ 21 + 2)"
    "\<forall>w. unat w < 2 ^ 48 \<longrightarrow> translate vm1 w = (if unat w div 4096 < (unat M + 4095) div 4096 then Some w else translate vm0 w)"
    using map_identity_spec [of M 0 vm0] vm0 assms(4) budget_memory [of "unat M" vm0] by (fastforce simp: vm0_def)
  let ?z = "sz + 0x1000"
  let ?n = "?z div 0x1000 + 1"
  have z: "unat ?z = unat sz + 4096" using assms(6) by (subst unat_add_no_wrap) simp_all
  have n: "unat ?n = unat sz div 4096 + 2"
    using assms(6) z by (subst unat_add_no_wrap) (simp_all add: unat_div_distrib)
  define vm2 where "vm2 = vm1\<lparr>frames := LockPages (frames vm1) base ?n\<rparr>"
  have vm2: "spare_ok vm2" "PML4 vm2 = P" "translate vm2 = translate vm1"
    "spare (frames vm1) \<le> spare (frames vm2) + (unat sz div 4096 + 2)"
    using LockPages_spare [of ?n "frames vm1" base] assms(6) vm1(2,3) unfolding n
    by (simp_all add: vm2_def spare_ok_LockPages fun_eq_iff)
  have e: "unat (base + ?z) = unat base + (unat sz + 4096)"
    using assms(7) z by (subst unat_add_no_wrap) simp_all
  have base: "nth_page (unat base div 4096) = base" "unat base mod 4096 = 0"
  proof -
    show "unat base mod 4096 = 0" using assms(5) by (simp add: aligned_def)
    then have "4096 * (unat base div 4096) = unat base" using mult_div_mod_eq [of 4096 "unat base"] by linarith
    then show "nth_page (unat base div 4096) = base" by (simp only: nth_page_def) simp
  qed
  let ?b = "(unat (base + ?z) + 4095) div 4096"
  have "budget ?b (unat base div 4096) vm2 \<le> spare (frames vm2)"
    using budget_framebuffer [OF base(2), of "unat sz" vm2] f2 f1(4) frames vm1(4) vm2(4) by (simp add: e)
  moreover have "unat base div 4096 \<le> ?b" unfolding e by (intro div_le_mono) simp
  ultimately obtain vm3 where vm3: "map_identity (base + ?z) base vm2 = Some vm3" "spare_ok vm3" "PML4 vm3 = P"
    "\<forall>w. unat w < 2 ^ 48 \<longrightarrow> translate vm3 w =
       (if unat base div 4096 \<le> unat w div 4096 \<and> unat w div 4096 < ?b then Some w else translate vm2 w)"
    using map_identity_spec [of "base + ?z" "unat base div 4096" vm2] vm2(1,2) assms(7) e base(1) by auto
  have "InitialisePaging mMap mMapSize D base sz start stop s m = Some (vm3, PML4 vm3)"
    using f r total vm1(1) vm3(1,3)
    by (simp add: InitialisePaging_def Let_def f1_def [symmetric] vm0_def [symmetric] vm2_def [symmetric] nth_page_def)
  moreover have "translate vm3 w = Some w"
    if w: "unat w < unat M \<or> unat base \<le> unat w \<and> unat w < unat base + unat sz + 0x1000" for w
  proof -
    have "unat w < 2 ^ 48" using w assms(4,7) by (elim disjE conjE) simp_all
    moreover have "unat w < unat M \<Longrightarrow> unat w div 4096 < (unat M + 4095) div 4096"
      unfolding ceiling_page by (rule order_le_less_trans [OF times_div_less_eq_dividend])
    moreover have "unat base \<le> unat w \<Longrightarrow> unat w < unat base + (unat sz + 4096) \<Longrightarrow>
        unat base div 4096 \<le> unat w div 4096 \<and> unat w div 4096 < ?b"
      unfolding ceiling_page e by (intro conjI div_le_mono order_le_less_trans [OF times_div_less_eq_dividend])
    ultimately show ?thesis using w vm1(5) vm2(3) vm3(4) by auto
  qed
  ultimately show ?thesis using vm3(2) unfolding spare_ok_def by blast
qed

text \<open>A machine with 2 MiB of conventional memory, and a frame buffer of one page at 2 GiB.\<close>

lemma one_segment_spare:
  assumes "ReadEFIMemoryMap one_segment 48 48 s = Some f" and "\<not> Initialised s" "pageBitmapIndex s = 0"
  shows "0x100 \<le> spare f"
proof -
  have D: "(48 :: u64) \<noteq> 0" and ok: "map_ok one_segment (48 div 48) 48"
    and M: "unat (0x200000 :: u64) < 2 ^ 31"
    by (simp_all add: map_ok_def one_segment_def Let_def)
  obtain s' where s': "ReadEFIMemoryMap one_segment 48 48 s = Some s'"
    "geometry s' = (0x200000 div 4096 div 8 + 1, fst (largest_segment one_segment (48 div 48) 48), 0x200000, True)"
    "\<And>j. unat j \<le> unat (0x200000 :: u64) div 4096 \<Longrightarrow> marked s' j \<longleftrightarrow> unat j < 0x100
        \<or> \<not> in_conventional one_segment (48 div 48) 48 j
        \<or> in_pages (Buffer (PageBitmap s')) (Size (PageBitmap s') div 4096 + 1) j"
    by (rule boot_result [OF assms(2) D ok one_segment_size [symmetric] M]) blast
  have f: "f = s'" using s'(1) assms(1) by simp
  have g: "Size (PageBitmap f) = 65" "Buffer (PageBitmap f) = 0"
    using s'(2) by (simp_all add: f geometry_def largest_segment_def int_for_fold one_segment_def Let_def)
  have "\<not> marked f (word_of_nat j)" if "0x100 \<le> j" "j < 0x200" for j
    using that s'(3) [of "word_of_nat j"]
    by (simp add: f [symmetric] g in_conventional_def one_segment_def Let_def in_pages_def unat_of_nat_u64)
  moreover have "pageBitmapIndex f = 0" using boot_hint [OF assms(2) D assms(1)] assms(3) by simp
  ultimately have "word_of_nat ` {0x100..<0x200} \<subseteq> spare_set f"
    by (auto simp: spare_set_def g word_less_nat_alt unat_of_nat_u64)
  moreover have "inj_on (word_of_nat :: nat \<Rightarrow> u64) {0x100..<0x200}"
    by (rule inj_on_inverseI [where g = unat]) (simp add: unat_of_nat_u64)
  ultimately have "card {0x100..<0x200 :: nat} \<le> spare f"
    unfolding spare_def by (metis card_image card_mono finite_spare)
  then show ?thesis by simp
qed

theorem boot_identity_map_witness:
  "let s = initial_pfa \<lparr>Size = 0, Buffer = 0, Bytes = (\<lambda>_. 0xFF)\<rparr> in
   \<exists>vm. InitialisePaging one_segment 48 48 0x80000000 0x1000 0x100000 0x100800 s (\<lambda>_. \<lparr>Value = 0\<rparr>) = Some (vm, PML4 vm)
     \<and> translate vm 0x1234 = Some 0x1234 \<and> translate vm 0x80001FFF = Some 0x80001FFF"
proof -
  let ?s = "initial_pfa \<lparr>Size = 0, Buffer = 0, Bytes = (\<lambda>_. 0xFF)\<rparr>"
  have s: "\<not> Initialised ?s" "(48 :: u64) \<noteq> 0" "pageBitmapIndex ?s = 0" by (simp_all add: initial_pfa_def)
  have "boot_frames (unat (0x200000 :: u64)) (unat (0x100800 - 0x100000 :: u64)) (unat (0x1000 :: u64)) \<le> spare f"
    if "ReadEFIMemoryMap one_segment 48 48 ?s = Some f" for f
    using one_segment_spare [OF that s(1,3)] by (simp add: boot_frames_def)
  from boot_identity_map [OF s(1,2) one_segment_size [symmetric] _ _ _ _ _ this, of "0x80000000" "\<lambda>_. \<lparr>Value = 0\<rparr>"]
  show ?thesis by (auto simp: aligned_def Let_def)
qed

end
