(* ===== verification/Smp.thy ===== *)
theory Smp
  imports Interrupts
begin

text \<open>
  The start of the other processors: \<^verbatim>\<open>src/smp/smp.cpp\<close>. Processors are numbered by the identifiers of
  their local APICs. What happens between the start-up interrupt and \<^verbatim>\<open>SMPEntry\<close> is the processor and the
  assembler of the trampoline: \<open>stage i\<close> is the number of the test of the magic value that finds it set,
  counted from 0; from 3 on the processor did not start in time. A processor that starts runs \<^verbatim>\<open>SMPEntry\<close> up
  to its idle loop while the first one waits. \<open>obj i\<close> is the address of the \<^verbatim>\<open>CPU\<close> object of processor
  \<open>i\<close>, \<open>junk\<close> what a fresh one holds, \<open>stack i\<close> the stack pointer in \<^verbatim>\<open>InitTSS\<close>. \<open>None\<close> is a null
  pointer, an index behind the array or an endless wait.
\<close>

section \<open>State\<close>

text \<open>The words the trampoline reads, from address 0x3000 on.\<close>

record trampoline =
  smpMagic :: u16
  smpID :: u16
  smpGDT :: GDTDescriptor
  smpCR3 :: u64
  smpStack :: u64
  smpEntry2 :: u64

text \<open>The registers of a processor that the start sets.\<close>

record core =
  gs_base :: u64
  gdtr :: GDTDescriptor
  idtr :: InterruptDescriptorTablePointer
  task_register :: u16
  core_interrupts :: bool
  core_cr3 :: u64
  core_apic :: lapic

datatype message = Identical | Now_Booted u64 | Failed_To_Intialise

record smp =
  cpus :: "u8 \<Rightarrow> cpu option"
  active :: u8
  doneInit :: bool
  tramp :: trampoline
  cores :: "u8 \<Rightarrow> core"
  gdts :: "u64 \<Rightarrow> GDT"
  smp_frames :: pfa
  smp_mem :: memory
  smp_idt :: InterruptDescriptorTablePointer
  smp_pml4 :: u64
  GDTDesc :: GDTDescriptor
  messages :: "message list"

definition upd_cpu :: "u8 \<Rightarrow> (cpu \<Rightarrow> cpu) \<Rightarrow> smp \<Rightarrow> smp" where
  "upd_cpu i f s = s\<lparr>cpus := (cpus s)(i := map_option f (cpus s i))\<rparr>"

definition upd_core :: "u8 \<Rightarrow> (core \<Rightarrow> core) \<Rightarrow> smp \<Rightarrow> smp" where
  "upd_core i f s = s\<lparr>cores := (cores s)(i := f (cores s i))\<rparr>"

definition say :: "message \<Rightarrow> smp \<Rightarrow> smp" where
  "say x s = s\<lparr>messages := messages s @ [x]\<rparr>"

text \<open>Both GS bases get the same value; the object points to itself.\<close>

definition SetCPULocal :: "u8 \<Rightarrow> u64 \<Rightarrow> smp \<Rightarrow> smp" where
  "SetCPULocal i val s =
     upd_core i (\<lambda>r. r\<lparr>gs_base := wrmsr (val AND 0xFFFFFFFF) (drop_bit 32 val AND 0xFFFFFFFF)\<rparr>)
       (upd_cpu i (\<lambda>c. c\<lparr>self := val\<rparr>) s)"

definition tss_offset :: u64 where "tss_offset = 80"

definition InitTSS_of :: "(u8 \<Rightarrow> u64) \<Rightarrow> (u8 \<Rightarrow> u64) \<Rightarrow> u8 \<Rightarrow> GDTDescriptor \<Rightarrow> smp \<Rightarrow> smp" where
  "InitTSS_of obj stack i gdt s =
     (case InitTSS (obj i + tss_offset) (stack i) (gdts s (Offset gdt)) (smp_frames s) (smp_mem s) of
        (g, t, f, m, tr) \<Rightarrow>
          upd_core i (\<lambda>r. r\<lparr>task_register := tr\<rparr>) (upd_cpu i (\<lambda>c. c\<lparr>tss := t\<rparr>)
            (s\<lparr>gdts := (gdts s)(Offset gdt := g), smp_frames := f, smp_mem := m\<rparr>)))"

section \<open>The processor's name and features\<close>

text \<open>\<open>cpuid\<close> gives the registers EBX, ECX and EDX for a leaf.\<close>

record CPUID =
  vendorString :: "u8 list"
  nullTerminator :: u8
  features_ecx :: u32
  features_edx :: u32

definition GetCPUID :: "(u32 \<Rightarrow> u32 \<times> u32 \<times> u32) \<Rightarrow> CPUID" where
  "GetCPUID cpuid =
     (let (ebx, ecx, edx) = cpuid 0;
          chars = (\<lambda>r. map (\<lambda>i. ucast (drop_bit (i * 8) r AND 0xFF)) [0..<4]);
          s = chars ebx @ chars edx @ chars ecx;
          (ebx, ecx, edx) = cpuid 1
      in \<lparr>vendorString = s, nullTerminator = 0, features_ecx = ecx, features_edx = edx\<rparr>)"

section \<open>The second entry point\<close>

definition SMPEntry ::
  "(u8 \<Rightarrow> u64) \<Rightarrow> (u8 \<Rightarrow> u64) \<Rightarrow> (nat \<Rightarrow> u64) \<Rightarrow> u16 \<Rightarrow> smp \<Rightarrow> smp option"
where
  "SMPEntry obj stack fresh nid s =
     (if unat nid \<ge> 256 then None
      else
        let i = ucast nid :: u8 in
        if cpus s i = None then None
        else
          let s = upd_cpu i (\<lambda>c. c\<lparr>currentProcess := 0, QueueLock := 0\<rparr>) s;
              s = SetCPULocal i (obj i) s;
              (page, f) = RequestPage (smp_frames s);
              s = s\<lparr>smp_frames := f, gdts := (gdts s)(page := gdts s (Offset (GDTDesc s)))\<rparr>;
              ptr = \<lparr>gdt_Size = gdt_Size (GDTDesc s), Offset = page\<rparr>;
              s = upd_cpu i (\<lambda>c. c\<lparr>cpu_gdt := page, gdtPtr := ptr\<rparr>) s;
              s = upd_core i (\<lambda>r. r\<lparr>gdtr := ptr, idtr := smp_idt s\<rparr>) s;
              s = InitTSS_of obj stack i ptr s;
              s = upd_core i (\<lambda>r. r\<lparr>core_apic := Enable (core_apic r)\<rparr>) s;
              s = upd_cpu i (\<lambda>c. c\<lparr>Queue := new_vector fresh\<rparr>) s;
              s = s\<lparr>doneInit := True\<rparr>;
              s = upd_core i (\<lambda>r. r\<lparr>core_interrupts := True, core_cr3 := smp_pml4 s\<rparr>) s
          in Some (say (Now_Booted (case cpus s i of None \<Rightarrow> 0 | Some c \<Rightarrow> cpu_id c)) s))"

section \<open>The first processor\<close>

definition SMP_TRAMPOLINE_ENTRY :: u64 where "SMP_TRAMPOLINE_ENTRY = 0x1000"

definition SMP_ENTRY_ASM_LEN :: u8 where "SMP_ENTRY_ASM_LEN = 130"

definition SMP_MAGIC :: u16 where "SMP_MAGIC = 0xB33F"

definition PrepareTrampoline :: "u64 \<Rightarrow> smp \<Rightarrow> smp" where
  "PrepareTrampoline SMP_ENTRY_ASM s =
     s\<lparr>smp_mem := fst (memcpy SMP_TRAMPOLINE_ENTRY SMP_ENTRY_ASM (ucast SMP_ENTRY_ASM_LEN) (smp_mem s))\<rparr>"

text \<open>An interrupt between processors, sent by the local APIC of processor \<open>me\<close>.\<close>

definition send :: "u8 \<Rightarrow> u8 \<Rightarrow> u32 \<Rightarrow> u8 \<Rightarrow> smp \<Rightarrow> smp" where
  "send me destination type vector =
     upd_core me (\<lambda>r. r\<lparr>core_apic := SendIPI destination ICR_DSH_DEST type vector (core_apic r)\<rparr>)"

text \<open>The test of the magic value with number \<open>n\<close>.\<close>

definition seen :: "(u8 \<Rightarrow> nat) \<Rightarrow> u8 \<Rightarrow> nat \<Rightarrow> smp \<Rightarrow> smp" where
  "seen stage i n s =
     (if stage i \<le> n then s\<lparr>tramp := (tramp s)\<lparr>smpMagic := SMP_MAGIC\<rparr>\<rparr> else s)"

text \<open>The object and the words for the trampoline, then the interrupts.\<close>

definition prepare_cpu :: "cpu \<Rightarrow> u64 \<Rightarrow> u8 \<Rightarrow> u16 \<Rightarrow> smp \<Rightarrow> smp" where
  "prepare_cpu junk entry me nid s =
     (let s = s\<lparr>cpus := (cpus s)(ucast nid \<mapsto> junk\<lparr>currentProcess := 0, cpu_id := ucast nid, QueueLock := 0\<rparr>)\<rparr>;
          t = (tramp s)\<lparr>smpMagic := 0, smpID := nid, smpEntry2 := entry\<rparr>;
          (page, f) = RequestPage (smp_frames s);
          t = t\<lparr>smpStack := page\<rparr>;
          t = t\<lparr>smpStack := smpStack t + 0x1000\<rparr>;
          t = t\<lparr>smpGDT := GDTDesc s, smpCR3 := core_cr3 (cores s me)\<rparr>
      in s\<lparr>smp_frames := f, tramp := t\<rparr>)"

definition wake_cpu :: "(u8 \<Rightarrow> nat) \<Rightarrow> u8 \<Rightarrow> u8 \<Rightarrow> smp \<Rightarrow> smp" where
  "wake_cpu stage me i s =
     (let s = seen stage i 0 (send me i ICR_MESSAGE_TYPE_INIT 0 s);
          s = (if smpMagic (tramp s) \<noteq> SMP_MAGIC
               then seen stage i 1 (send me i ICR_MESSAGE_TYPE_STARTUP (ucast (drop_bit 12 SMP_TRAMPOLINE_ENTRY)) s)
               else s)
      in if smpMagic (tramp s) \<noteq> SMP_MAGIC then seen stage i 2 s else s)"

definition InitializeCPU ::
  "(u8 \<Rightarrow> nat) \<Rightarrow> cpu \<Rightarrow> (u8 \<Rightarrow> u64) \<Rightarrow> (u8 \<Rightarrow> u64) \<Rightarrow> (nat \<Rightarrow> u64) \<Rightarrow> u64 \<Rightarrow> u8 \<Rightarrow> u16 \<Rightarrow> smp \<Rightarrow> (int \<times> smp) option"
where
  "InitializeCPU stage junk obj stack fresh entry me nid s =
     (if unat nid \<ge> 256 then None
      else
        let s = prepare_cpu junk entry me nid s;
            s = wake_cpu stage me (ucast nid) s
        in if smpMagic (tramp s) \<noteq> SMP_MAGIC then Some (0, say Failed_To_Intialise s)
           else
             case SMPEntry obj stack fresh (smpID (tramp s)) s of
               None \<Rightarrow> None
             | Some s \<Rightarrow> if \<not> doneInit s then None else Some (1, s\<lparr>doneInit := False\<rparr>))"

fun boot_others ::
  "(u16 \<Rightarrow> smp \<Rightarrow> (int \<times> smp) option) \<Rightarrow> u8 \<Rightarrow> u8 list \<Rightarrow> smp \<Rightarrow> smp option"
where
  "boot_others init me [] s = Some s"
| "boot_others init me (i # is) s =
     (if i \<noteq> me then
        (case init (ucast i) s of
           None \<Rightarrow> None
         | Some (r, s) \<Rightarrow> boot_others init me is (if r \<noteq> 0 then s\<lparr>active := active s + 1\<rparr> else s))
      else boot_others init me is s)"

text \<open>\<open>me\<close> is the identifier \<^verbatim>\<open>GetLApicID\<close> reads.\<close>

definition SMP_Intitialise ::
  "(u8 \<Rightarrow> nat) \<Rightarrow> cpu \<Rightarrow> (u8 \<Rightarrow> u64) \<Rightarrow> (u8 \<Rightarrow> u64) \<Rightarrow> (nat \<Rightarrow> u64) \<Rightarrow> u64 \<Rightarrow> u64 \<Rightarrow> u64 \<Rightarrow> apic \<Rightarrow> u8 \<Rightarrow> smp \<Rightarrow> smp option"
where
  "SMP_Intitialise stage junk obj stack fresh entry asm desc_addr a me s =
     (let s = s\<lparr>cpus := (cpus s)(me \<mapsto> junk\<lparr>currentProcess := 0, QueueLock := 0\<rparr>)\<rparr>;
          s = upd_cpu me (\<lambda>c. c\<lparr>cpu_id := ucast me, cpu_gdt := desc_addr + 2, gdtPtr := GDTDesc s,
                currentProcess := 0, QueueLock := 0, Queue := new_vector fresh\<rparr>) s;
          s = SetCPULocal me (obj me) s;
          s = PrepareTrampoline asm s;
          s = (if memcmp (smp_mem s) asm SMP_TRAMPOLINE_ENTRY (ucast SMP_ENTRY_ASM_LEN) then say Identical s else s);
          s = s\<lparr>active := 1\<rparr>
      in case boot_others (InitializeCPU stage junk obj stack fresh entry me) me
                (map (\<lambda>n. LAPIC_IDs a (of_nat n)) [0..<unat (CoreCount a)]) s of
           None \<Rightarrow> None
         | Some s \<Rightarrow> Some (InitTSS_of obj stack me (GDTDesc s) s))"


section \<open>A processor that is online\<close>

text \<open>
  Its object holds its number, nothing runs on it and its queue is empty; its registers point to the object,
  to the kernel's page tables and to the table of its object. A table in a page of its own has this
  processor's task state segment.
\<close>

definition online :: "(u8 \<Rightarrow> u64) \<Rightarrow> smp \<Rightarrow> u8 \<Rightarrow> bool" where
  "online obj s i \<longleftrightarrow> (\<exists>c. cpus s i = Some c \<and> cpu_id c = ucast i \<and> self c = obj i \<and> currentProcess c = 0
     \<and> QueueLock c = 0 \<and> get_length (Queue c) = 0
     \<and> gs_base (cores s i) = obj i \<and> gdtr (cores s i) = gdtPtr c
     \<and> core_interrupts (cores s i) \<and> core_cr3 (cores s i) = smp_pml4 s
     \<and> (Offset (gdtPtr c) \<noteq> 0 \<longrightarrow> marked (smp_frames s) (Offset (gdtPtr c) div 4096)
          \<and> Offset (gdtPtr c) \<noteq> Offset (GDTDesc s)
          \<and> descriptor_base (gdt_TSS (gdts s (Offset (gdtPtr c)))) = obj i + tss_offset))"

text \<open>What the start of processor \<open>i\<close> leaves alone: the rest of every other processor, and the tables in use.\<close>

definition spares :: "u8 \<Rightarrow> smp \<Rightarrow> smp \<Rightarrow> bool" where
  "spares i s s' \<longleftrightarrow> (pfa_ok (smp_frames s) \<longrightarrow> pfa_ok (smp_frames s'))
     \<and> (\<forall>j. marked (smp_frames s) j \<longrightarrow> marked (smp_frames s') j)
     \<and> GDTDesc s' = GDTDesc s \<and> smp_pml4 s' = smp_pml4 s \<and> active s' = active s
     \<and> (\<forall>j. j \<noteq> i \<longrightarrow> cpus s' j = cpus s j \<and> gs_base (cores s' j) = gs_base (cores s j)
          \<and> gdtr (cores s' j) = gdtr (cores s j) \<and> core_interrupts (cores s' j) = core_interrupts (cores s j)
          \<and> core_cr3 (cores s' j) = core_cr3 (cores s j))
     \<and> (\<forall>p. p \<noteq> 0 \<longrightarrow> marked (smp_frames s) (p div 4096) \<longrightarrow> gdts s' p = gdts s p)"

lemma spares_trans: "spares i s t \<Longrightarrow> spares i t u \<Longrightarrow> spares i s u"
  unfolding spares_def by auto

lemma online_spares: "online obj s j \<Longrightarrow> j \<noteq> i \<Longrightarrow> spares i s s' \<Longrightarrow> online obj s' j"
  unfolding online_def spares_def by auto

section \<open>Pages\<close>

lemma geometry_RequestPages: "geometry (snd (RequestPages n s)) = geometry s"
proof -
  have "geometry (snd (RequestPages_from c b s)) = geometry s" for c b s
  proof (induction c b s rule: RequestPages_from.induct)
    case (1 c b s)
    moreover have "geometry (s\<lparr>pageBitmapIndex := i\<rparr>) = geometry s" for i by (simp add: geometry_def)
    ultimately show ?case by (subst RequestPages_from.simps) simp
  qed
  then show ?thesis by (simp add: RequestPages_def)
qed

text \<open>Allocations keep the allocator in order and every page in use.\<close>

definition grows :: "pfa \<Rightarrow> pfa \<Rightarrow> bool" where
  "grows f f' \<longleftrightarrow> (pfa_ok f \<longrightarrow> pfa_ok f' \<and> (\<forall>j. marked f j \<longrightarrow> marked f' j))"

lemma grows_trans: "grows f g \<Longrightarrow> grows g h \<Longrightarrow> grows f h"
  unfolding grows_def by blast

lemma RequestPages_grows: "RequestPages 8 f = (a, f') \<Longrightarrow> grows f f'"
proof -
  assume r: "RequestPages 8 f = (a, f')"
  have "pfa_ok f'" if "pfa_ok f"
    using that geometry_RequestPages [of 8 f] r by (simp add: geometry_def pfa_ok_def)
  moreover have "marked f' j" if "pfa_ok f" "marked f j" for j
    using RequestPages_from_spec [OF that(1) _ r [unfolded RequestPages_def]] that(2) by (auto simp: marked_def)
  ultimately show ?thesis by (simp add: grows_def)
qed

lemma RequestPage_grows: "RequestPage f = (a, f') \<Longrightarrow> grows f f'"
  unfolding grows_def using RequestPage_cases [of f] pfa_ok_RequestPage [of f] by auto

lemma InitTSS_result:
  assumes "InitTSS a st g f m = (g', t, f', m', tr)"
  shows "gdt_TSS g' = tss_descriptor a (gdt_TSS g)" "grows f f'"
proof -
  obtain a1 f1 where r1: "RequestPages 8 f = (a1, f1)" by fastforce
  obtain a2 f2 where r2: "RequestPages 8 f1 = (a2, f2)" by fastforce
  obtain a3 f3 where r3: "RequestPages 8 f2 = (a3, f3)" by fastforce
  have "f' = f3" "g' = g\<lparr>gdt_TSS := tss_descriptor a (gdt_TSS g)\<rparr>"
    using assms by (auto simp: InitTSS_def Let_def r1 r2 r3)
  then show "gdt_TSS g' = tss_descriptor a (gdt_TSS g)" "grows f f'"
    using RequestPages_grows [OF r1] RequestPages_grows [OF r2] RequestPages_grows [OF r3] grows_trans
    by (simp, blast)
qed

section \<open>The start of one processor\<close>

lemma narrow_id:
  fixes i :: u8
  shows "\<not> 256 \<le> unat i" "ucast (ucast i :: u16) = i" "(ucast (ucast i :: u16) :: u64) = ucast i"
  by (simp add: not_le, (rule bit_word_eqI, auto simp: bit_simps dest: bit_imp_le_length)+)

text \<open>\<^verbatim>\<open>SMPEntry\<close> brings its processor online.\<close>

lemma SMPEntry_online:
  assumes c: "cpus s i = Some c" "cpu_id c = ucast i" and ok: "pfa_ok (smp_frames s)"
    and K: "marked (smp_frames s) (Offset (GDTDesc s) div 4096)"
  shows "\<exists>s'. SMPEntry obj stack fresh (ucast i) s = Some s' \<and> doneInit s' \<and> online obj s' i \<and> spares i s s'"
proof -
  note i = narrow_id [of i]
  obtain page f where r: "RequestPage (smp_frames s) = (page, f)" by fastforce
  obtain g t f' m tr where tss: "InitTSS (obj i + tss_offset) (stack i) (gdts s (Offset (GDTDesc s))) f (smp_mem s)
      = (g, t, f', m, tr)" by (cases "InitTSS (obj i + tss_offset) (stack i) (gdts s (Offset (GDTDesc s))) f (smp_mem s)") auto
  have grows: "grows (smp_frames s) f" "grows f f'"
    using RequestPage_grows [OF r] InitTSS_result(2) [OF tss] by simp_all
  have base: "descriptor_base (gdt_TSS g) = obj i + tss_offset"
    using InitTSS_result(1) [OF tss] by (simp add: tss_descriptor_base)
  have page: "marked f (page div 4096) \<and> \<not> marked (smp_frames s) (page div 4096)" if "page \<noteq> 0"
    using RequestPage_cases [OF ok] r that by auto
  obtain s' where s': "SMPEntry obj stack fresh (ucast i) s = Some s'"
    "s' = s\<lparr>gdts := (gdts s)(page := g), smp_frames := f', smp_mem := m, cpus := (cpus s)(i \<mapsto> c\<lparr>currentProcess := 0, QueueLock := 0, self := obj i, cpu_gdt := page,
             gdtPtr := \<lparr>gdt_Size = gdt_Size (GDTDesc s), Offset = page\<rparr>, tss := t, Queue := new_vector fresh\<rparr>),
           doneInit := True, cores := (cores s)(i := (cores s i)\<lparr>gs_base := obj i, gdtr := \<lparr>gdt_Size = gdt_Size (GDTDesc s), Offset = page\<rparr>,
             idtr := smp_idt s, task_register := tr, core_apic := Enable (core_apic (cores s i)),
             core_interrupts := True, core_cr3 := smp_pml4 s\<rparr>),
           messages := messages s @ [Now_Booted (ucast i)]\<rparr>"
    using i c r tss
    by (simp add: SMPEntry_def Let_def upd_cpu_def upd_core_def SetCPULocal_def InitTSS_of_def say_def wrmsr_halves
        fun_upd_def cong: if_cong)
  have "online obj s' i"
    unfolding online_def using c base page grows K ok
    by (auto simp: s'(2) grows_def get_length_def new_vector_def)
  moreover have "spares i s s'"
    unfolding spares_def using grows page ok by (auto simp: s'(2) grows_def)
  ultimately show ?thesis using s' by auto
qed


lemma prepare_cpu_result:
  assumes "pfa_ok (smp_frames s)"
  shows "spares i s (prepare_cpu junk entry me (ucast i) s)" "smpID (tramp (prepare_cpu junk entry me (ucast i) s)) = ucast i"
    "cpus (prepare_cpu junk entry me (ucast i) s) i = Some (junk\<lparr>currentProcess := 0, cpu_id := ucast i, QueueLock := 0\<rparr>)"
proof -
  obtain page f where r: "RequestPage (smp_frames s) = (page, f)" by fastforce
  show "spares i s (prepare_cpu junk entry me (ucast i) s)" "smpID (tramp (prepare_cpu junk entry me (ucast i) s)) = ucast i"
    "cpus (prepare_cpu junk entry me (ucast i) s) i = Some (junk\<lparr>currentProcess := 0, cpu_id := ucast i, QueueLock := 0\<rparr>)"
    using RequestPage_grows [OF r] assms by (auto simp: prepare_cpu_def Let_def r narrow_id spares_def grows_def)
qed

text \<open>Waiting for a processor changes its magic value and the local APIC only.\<close>

definition only_waits :: "smp \<Rightarrow> smp \<Rightarrow> bool" where
  "only_waits s t \<longleftrightarrow> (\<forall>i. spares i s t) \<and> cpus t = cpus s \<and> smp_frames t = smp_frames s \<and> GDTDesc t = GDTDesc s
     \<and> smpID (tramp t) = smpID (tramp s)"

lemma only_waits_trans: "only_waits s t \<Longrightarrow> only_waits t u \<Longrightarrow> only_waits s u"
  unfolding only_waits_def using spares_trans by simp blast

lemma send_waits: "only_waits s (send me d ty v s)"
  by (auto simp: send_def upd_core_def spares_def only_waits_def)

lemma seen_waits: "only_waits s (seen stage i n s)"
  by (auto simp: seen_def spares_def only_waits_def)

lemma seen_magic: "smpMagic (tramp (seen stage i n t)) = (if stage i \<le> n then SMP_MAGIC else smpMagic (tramp t))"
  by (simp add: seen_def)

lemma wake_cpu_waits: "only_waits s (wake_cpu stage me i s)"
proof -
  have "only_waits s (seen stage i n t)" "only_waits s (send me d ty v t)" if "only_waits s t" for t n d ty v
    using that only_waits_trans seen_waits send_waits by blast+
  moreover have "only_waits s s" by (simp add: only_waits_def spares_def)
  ultimately show ?thesis unfolding wake_cpu_def Let_def by simp
qed

lemma wake_cpu_magic: "stage i \<le> 2 \<Longrightarrow> smpMagic (tramp (wake_cpu stage me i s)) = SMP_MAGIC"
  by (simp add: wake_cpu_def Let_def seen_magic)

text \<open>A processor that sets the magic value in time comes online and is counted.\<close>

lemma InitializeCPU_online:
  assumes "stage i \<le> 2" "i \<noteq> me" and ok: "pfa_ok (smp_frames s)"
    and K: "marked (smp_frames s) (Offset (GDTDesc s) div 4096)"
  shows "\<exists>s'. InitializeCPU stage junk obj stack fresh entry me (ucast i) s = Some (1, s') \<and> online obj s' i \<and> spares i s s'"
proof -
  define s1 where "s1 = prepare_cpu junk entry me (ucast i) s"
  define s2 where "s2 = wake_cpu stage me i s1"
  note s1 = prepare_cpu_result [OF ok, where i = i and junk = junk and entry = entry and me = me, folded s1_def]
  have s2: "spares i s1 s2" "cpus s2 = cpus s1" "smpID (tramp s2) = ucast i"
    using wake_cpu_waits [of s1 stage me i] s1(2) by (simp_all add: s2_def only_waits_def)
  have sp: "spares i s s2" using s1(1) s2(1) by (rule spares_trans)
  then have ok2: "pfa_ok (smp_frames s2)" "marked (smp_frames s2) (Offset (GDTDesc s2) div 4096)"
    using ok K by (simp_all add: spares_def)
  have "cpus s2 i = Some (junk\<lparr>currentProcess := 0, cpu_id := ucast i, QueueLock := 0\<rparr>)" using s1(3) s2(2) by simp
  from SMPEntry_online [OF this _ ok2, of obj stack fresh]
  obtain s' where s': "SMPEntry obj stack fresh (ucast i) s2 = Some s'" "doneInit s'" "online obj s' i" "spares i s2 s'"
    by auto
  have "InitializeCPU stage junk obj stack fresh entry me (ucast i) s = Some (1, s'\<lparr>doneInit := False\<rparr>)"
    using narrow_id [of i] s'(1,2) s2(3) assms(1) wake_cpu_magic [of stage i me s1]
    by (simp add: InitializeCPU_def s1_def [symmetric] s2_def [symmetric])
  moreover have "online obj (s'\<lparr>doneInit := False\<rparr>) i" using s'(3) by (simp add: online_def)
  moreover have "spares i s (s'\<lparr>doneInit := False\<rparr>)" using spares_trans [OF sp s'(4)] by (simp add: spares_def)
  ultimately show ?thesis by blast
qed

text \<open>
  A processor that does not is given up, but its object stays in the array: it is not counted, its queue and
  its table are not set, and nothing keeps it from starting later.
\<close>

lemma InitializeCPU_timeout:
  assumes "2 < stage i" "pfa_ok (smp_frames s)"
  shows "\<exists>s'. InitializeCPU stage junk obj stack fresh entry me (ucast i) s = Some (0, s') \<and> active s' = active s
    \<and> cpus s' i = Some (junk\<lparr>currentProcess := 0, cpu_id := ucast i, QueueLock := 0\<rparr>)"
proof -
  define s1 where "s1 = prepare_cpu junk entry me (ucast i) s"
  define s2 where "s2 = wake_cpu stage me i s1"
  note s1 = prepare_cpu_result [OF assms(2), where i = i and junk = junk and entry = entry and me = me, folded s1_def]
  have s2: "spares i s1 s2" "cpus s2 = cpus s1"
    using wake_cpu_waits [of s1 stage me i] by (simp_all add: s2_def only_waits_def)
  have "smpMagic (tramp s1) = 0" by (simp add: s1_def prepare_cpu_def Let_def split: prod.splits)
  then have "smpMagic (tramp s2) = 0"
    using assms(1) by (simp add: s2_def wake_cpu_def Let_def seen_magic send_def upd_core_def)
  then have "InitializeCPU stage junk obj stack fresh entry me (ucast i) s = Some (0, say Failed_To_Intialise s2)"
    using narrow_id [of i] by (simp add: InitializeCPU_def s1_def [symmetric] s2_def [symmetric] SMP_MAGIC_def)
  then show ?thesis using s1(1,3) s2 by (auto simp: say_def spares_def)
qed

section \<open>All processors\<close>

text \<open>The start of the list of processors, one after the other: each one counts, and those before stay online.\<close>

lemma boot_others_online:
  assumes "distinct is" "\<And>i. i \<in> set is \<Longrightarrow> i \<noteq> me \<Longrightarrow> stage i \<le> 2"
    and "pfa_ok (smp_frames s)" "marked (smp_frames s) (Offset (GDTDesc s) div 4096)"
  shows "\<exists>s'. boot_others (InitializeCPU stage junk obj stack fresh entry me) me is s = Some s'
    \<and> active s' = active s + of_nat (length (filter (\<lambda>i. i \<noteq> me) is))
    \<and> (\<forall>i \<in> set is. i \<noteq> me \<longrightarrow> online obj s' i)
    \<and> (\<forall>i. i \<notin> set is \<longrightarrow> i \<noteq> me \<longrightarrow> (online obj s i \<longrightarrow> online obj s' i) \<and> cpus s' i = cpus s i)
    \<and> cpus s' me = cpus s me \<and> GDTDesc s' = GDTDesc s \<and> smp_pml4 s' = smp_pml4 s
    \<and> gs_base (cores s' me) = gs_base (cores s me)
    \<and> pfa_ok (smp_frames s') \<and> marked (smp_frames s') (Offset (GDTDesc s') div 4096)"
  using assms
proof (induction "is" arbitrary: s)
  case Nil
  then show ?case by simp
next
  case (Cons i "is")
  show ?case
  proof (cases "i = me")
    case True
    then show ?thesis using Cons.IH [of s] Cons.prems by auto
  next
    case False
    have "stage i \<le> 2" using Cons.prems(2) False by simp
    from InitializeCPU_online [of stage i me s junk obj stack fresh entry, OF this False Cons.prems(3,4)]
    obtain t where t: "InitializeCPU stage junk obj stack fresh entry me (ucast i) s = Some (1, t)" "online obj t i" "spares i s t"
      by blast
    define u where "u = t\<lparr>active := active t + 1\<rparr>"
    have u: "active u = active s + 1" "online obj u i" "GDTDesc u = GDTDesc s" "smp_pml4 u = smp_pml4 s"
      "pfa_ok (smp_frames u)" "marked (smp_frames u) (Offset (GDTDesc u) div 4096)"
      "\<And>j. j \<noteq> i \<Longrightarrow> cpus u j = cpus s j \<and> gs_base (cores u j) = gs_base (cores s j)"
      using t(2,3) Cons.prems(3,4) by (auto simp: u_def spares_def online_def)
    have other: "online obj u j" if "online obj s j" "j \<noteq> i" for j
      using online_spares [OF that t(3)] by (simp add: u_def online_def)
    obtain s' where s': "boot_others (InitializeCPU stage junk obj stack fresh entry me) me is u = Some s'"
      "active s' = active u + of_nat (length (filter (\<lambda>i. i \<noteq> me) is))" "\<forall>i \<in> set is. i \<noteq> me \<longrightarrow> online obj s' i"
      "\<forall>i. i \<notin> set is \<longrightarrow> i \<noteq> me \<longrightarrow> (online obj u i \<longrightarrow> online obj s' i) \<and> cpus s' i = cpus u i"
      "cpus s' me = cpus u me" "GDTDesc s' = GDTDesc u" "smp_pml4 s' = smp_pml4 u" "gs_base (cores s' me) = gs_base (cores u me)"
      "pfa_ok (smp_frames s')" "marked (smp_frames s') (Offset (GDTDesc s') div 4096)"
      using Cons.IH [of u] Cons.prems(1,2) u(5,6) by auto
    have "boot_others (InitializeCPU stage junk obj stack fresh entry me) me (i # is) s = Some s'"
      using False t(1) s'(1) by (simp add: u_def)
    moreover have "i \<notin> set is" using Cons.prems(1) by simp
    ultimately show ?thesis
      using s' u other False by (intro exI [of _ s']) auto
  qed
qed

lemma length_others: "distinct xs \<Longrightarrow> x \<in> set xs \<Longrightarrow> length (filter (\<lambda>i. i \<noteq> x) xs) + 1 = length xs"
proof (induction xs)
  case (Cons y ys)
  show ?case
  proof (cases "y = x")
    case True
    then have "filter (\<lambda>i. i \<noteq> x) ys = ys" using Cons.prems(1) by (intro filter_True) auto
    then show ?thesis using True by simp
  next
    case False
    then show ?thesis using Cons by simp
  qed
qed simp

section \<open>Properties\<close>


text \<open>Two processors, the first with the identifier 0, which start after the start-up interrupt.\<close>

definition idle_core :: core where
  "idle_core = \<lparr>gs_base = 0, gdtr = \<lparr>gdt_Size = 0, Offset = 0\<rparr>, idtr = \<lparr>idt_Limit = 0, idt_Offset = 0\<rparr>, task_register = 0,
     core_interrupts = False, core_cr3 = 0, core_apic = \<lparr>lapic_regs = (\<lambda>_. 0), apic_base = 0, lapic_log = []\<rparr>\<rparr>"

definition before_start :: smp where
  "before_start = \<lparr>cpus = (\<lambda>_. None), active = 0, doneInit = False,
     tramp = \<lparr>smpMagic = 0, smpID = 0, smpGDT = \<lparr>gdt_Size = 0, Offset = 0\<rparr>, smpCR3 = 0, smpStack = 0, smpEntry2 = 0\<rparr>,
     cores = (\<lambda>_. idle_core), gdts = (\<lambda>_. default_GDT),
     smp_frames = initial_pfa \<lparr>Size = 1, Buffer = 0, Bytes = (\<lambda>_. 0xC0)\<rparr>, smp_mem = (\<lambda>_. 0),
     smp_idt = \<lparr>idt_Limit = 0x1000, idt_Offset = 0x2000\<rparr>, smp_pml4 = 0x3000, GDTDesc = \<lparr>gdt_Size = 56, Offset = 0x1000\<rparr>,
     messages = []\<rparr>"

definition no_cpu :: cpu where
  "no_cpu = \<lparr>self = 0, cpu_id = 0, cpu_gdt = 0, gdtPtr = \<lparr>gdt_Size = 0, Offset = 0\<rparr>, currentProcess = 0, idleProcess = 0,
     QueueLock = 0, Queue = new_vector (\<lambda>_. 0), tss = zero_TSS\<rparr>"


end
