(* ===== verification/Kernel.thy ===== *)
theory Kernel
  imports Pci Volumes Console Tga
begin

text \<open>
  The second stage of the kernel: \<^verbatim>\<open>InitVolumes\<close> and \<^verbatim>\<open>DrawBootScreen\<close> of \<^verbatim>\<open>src/kernel.cpp\<close>, which put the
  drivers, the volumes, the files, the image reader and the console together. \<open>ports\<close> gives the ports of
  the AHCI driver at an address, each with the address of its object and its type.
\<close>

section \<open>Volumes\<close>

definition mount_port :: "(u64 \<Rightarrow> 'd files \<Rightarrow> (bool \<times> 'd files) option) \<Rightarrow> u64 \<times> PortType \<Rightarrow> 'd files \<Rightarrow> 'd files option" where
  "mount_port mount port s = (if snd port = SATA then map_option snd (mount (fst port) s) else Some s)"

definition InitVolumes ::
  "(u64 \<Rightarrow> 'd block_op) \<Rightarrow> (nat \<Rightarrow> u64) \<Rightarrow> u8 list \<Rightarrow> u8 list \<Rightarrow> PartitionDevice \<Rightarrow> (u64 \<Rightarrow> (u64 \<times> PortType) list)
    \<Rightarrow> DriverManager \<Rightarrow> 'd files \<Rightarrow> 'd files option"
where
  "InitVolumes rd alloc stack1 stack2 fresh ports driverM s =
     (case FindDriver ''ACPI 1.0 Driver'' driverM of
        None \<Rightarrow> Some s
      | Some driver \<Rightarrow>
          if MainObject driver \<noteq> 0
          then fold (\<lambda>p s. Option.bind s (mount_port (MountVolume rd alloc stack1 stack2 fresh) p))
                 (ports (MainObject driver)) (Some s)
          else Some s)"

section \<open>The boot screen\<close>

text \<open>The image, from its last row and column on; the rows are turned over.\<close>

definition draw_icon :: "TGA_Image \<Rightarrow> u64 \<Rightarrow> u64 \<Rightarrow> console \<Rightarrow> console" where
  "draw_icon img xoff yoff =
     (let w = unat (tga_width (tga_head img)); h = unat (tga_height (tga_head img))
      in fold (\<lambda>y. fold (\<lambda>x. putPix (ucast (of_nat x + xoff)) (ucast (of_nat (h - 1 - y) + yoff))
                              (tga_Buffer img ! (y * w + x)))
                  (rev [0..<w]))
           (rev [0..<h]))"

definition bytes_of :: "string \<Rightarrow> u8 list" where
  "bytes_of = map of_char"

text \<open>
  The texts and the image, in the order they are drawn. All positions are computed with 64 bits; the image
  is placed by its width in both directions.
\<close>

definition show_icon :: "TGA_Image \<Rightarrow> console \<Rightarrow> console option" where
  "show_icon img con =
     (let Width = ucast (Width (framebuffer con)) :: u64; Height = ucast (Height (framebuffer con)) :: u64;
          width = ucast (tga_width (tga_head img)) :: u64;
          xoff = Width div 2 - width div 2;
          xoffText = Width div 2 - (of_nat (length (bytes_of ''Loading System'')) * 16) div 4;
          xoffText1 = Width div 2 - (of_nat (length (bytes_of ''Unified OS: Version 0.0.1'')) * 16) div 4;
          yoff = Height div 4 - width div 2;
          yoffText = Height div 2 - 8;
          con = draw_icon img xoff yoff con;
          con = SetPosX (ucast xoffText) con;
          con = SetPosY (ucast yoffText) con
      in case printf (bytes_of ''Loading System'' @ [0x0A]) con of
           None \<Rightarrow> None
         | Some con \<Rightarrow>
             case printf (bytes_of ''Unified OS: Version 0.0.1'') (SetPosX (ucast xoffText1) con) of
               None \<Rightarrow> None
             | Some con \<Rightarrow> Some (SetPosY 0 (SetPosX 0 con)))"

text \<open>
  \<open>DrawBootScreen\<close>: the file comes from the system call with the number 6, its contents are read into a
  buffer of the size of the screen. \<open>pixels\<close> is what a fresh array of pixels holds.
\<close>

definition DrawBootScreen ::
  "(u64 \<Rightarrow> 'd block_op) \<Rightarrow> (nat \<Rightarrow> u64) \<Rightarrow> (nat \<Rightarrow> u8) \<Rightarrow> (nat \<Rightarrow> u32) \<Rightarrow> console \<times> 'd files \<Rightarrow> (console \<times> 'd files) option"
where
  "DrawBootScreen rd alloc junk pixels s =
     (let (con, fs) = s in
      case Clear 0x00 con of
        None \<Rightarrow> None
      | Some con \<Rightarrow>
          case VolumeManager_ResolveFile rd alloc junk (bytes_of ''B:/UnifiedIcon.tga'') fs of
            None \<Rightarrow> None
          | Some (File, fs) \<Rightarrow>
              if \<not> Found File then Some (con, fs)
              else
                case Disk File of
                  None \<Rightarrow> None
                | Some part \<Rightarrow>
                    if Sectors File = [] then None
                    else
                      let dk = ParentDisk (device part);
                          (Buffer, f) = fs_malloc alloc (to_fs dk fs)
                      in case fs_Read (rd dk) part (Sectors File ! 0 * 512) (gf_FileSize File) Buffer f of
                           None \<Rightarrow> None
                         | Some (_, f) \<Rightarrow>
                             case GetImage pixels (fs_memory f) Buffer of
                               None \<Rightarrow> None
                             | Some img \<Rightarrow> map_option (\<lambda>con. (con, from_fs dk f fs)) (show_icon img con))"

section \<open>Drawing\<close>

text \<open>Two nested loops are one over the pairs of their counters.\<close>

lemma fold_product:
  "fold (\<lambda>y. fold (f y) xs) ys s = fold (\<lambda>(y, x). f y x) (List.product ys xs) s"
  by (induction ys arbitrary: s) (simp_all add: fold_map comp_def)

text \<open>Writes to places of their own.\<close>

lemma fold_writes:
  assumes "inj_on place (set ks)"
  shows "fold (\<lambda>k v. v(place k := val k)) ks v a = (if a \<in> place ` set ks then val (the_inv_into (set ks) place a) else v a)"
  using assms
proof (induction ks rule: rev_induct)
  case Nil
  then show ?case by simp
next
  case (snoc k ks)
  have inj: "inj_on place (set ks)" using snoc.prems by (rule inj_on_subset) auto
  have same: "the_inv_into (set (ks @ [k])) place (place j) = j" if "j \<in> set (ks @ [k])" for j
    using snoc.prems that by (rule the_inv_into_f_f)
  have old: "the_inv_into (set ks) place (place j) = j" if "j \<in> set ks" for j
    using inj that by (rule the_inv_into_f_f)
  show ?case
  proof (cases "a = place k")
    case True
    then show ?thesis using same [of k] by simp
  next
    case False
    then show ?thesis using snoc.IH [OF inj] same old by (auto simp: image_iff)
  qed
qed

lemma fold_putPix:
  "fold (\<lambda>k. putPix (X k) (Y k) (C k)) ks c
    = c\<lparr>video := fold (\<lambda>k v. v(pix_address (framebuffer c) (X k) (Y k) := C k)) ks (video c)\<rparr>"
  by (induction ks arbitrary: c) (simp_all add: putPix_def)

lemma widen_of_nat:
  fixes u :: u32
  assumes "unat u = n"
  shows "(ucast u :: u64) = of_nat n"
proof -
  have "n < 2 ^ 64" using assms unat_u32_less [of u] by simp
  then have "unat (of_nat n :: u64) = n" by (rule unat_of_nat_u64)
  then show ?thesis using assms by (simp add: word_eq_iff_unat)
qed

lemma narrow_of_nat: "(ucast (of_nat n :: u64) :: u32) = of_nat n"
proof -
  have "n mod 2 ^ 64 mod 2 ^ 32 = n mod 2 ^ 32" by (rule mod_mod_cancel) (simp add: le_imp_power_dvd)
  then show ?thesis by (simp add: word_eq_iff_unat unsigned_ucast_eq unat_of_nat take_bit_eq_mod)
qed

text \<open>The addresses with 32 bits are those with 64 bits when the frame is not too large.\<close>

lemma pix_address_pixel:
  assumes "4 * (unat (PixelsPerScanLine fb) * unat (Height fb)) < 2 ^ 32"
    and "x < unat (PixelsPerScanLine fb)" "y < unat (Height fb)"
  shows "pix_address fb (of_nat x) (of_nat y) = pixel fb (of_nat x) (of_nat y)"
proof -
  let ?P = "unat (PixelsPerScanLine fb)"
  have b: "x + y * ?P < ?P * unat (Height fb)" using assms(2,3) by (rule grid_index)
  then have x: "4 * x < 2 ^ 32" and y: "4 * (y * ?P) < 2 ^ 32" using assms(1) by linarith+
  have "unat (of_nat x * 4 :: u32) = 4 * x"
  proof -
    have "of_nat x * 4 = (of_nat (4 * x) :: u32)" by simp
    then show ?thesis using x by (simp only: unat_of_nat_u32)
  qed
  moreover have "unat (of_nat y * PixelsPerScanLine fb * 4) = 4 * (y * ?P)"
  proof -
    have "of_nat y * PixelsPerScanLine fb * 4 = (of_nat (4 * (y * ?P)) :: u32)" by simp
    then show ?thesis using y by (simp only: unat_of_nat_u32)
  qed
  ultimately have "(ucast (of_nat x * 4 :: u32) :: u64) = of_nat (4 * x)"
    "(ucast (of_nat y * PixelsPerScanLine fb * 4) :: u64) = of_nat (4 * (y * ?P))"
    by (simp_all only: widen_of_nat)
  then show ?thesis unfolding pix_address_def pixel_of_nat by (simp add: algebra_simps)
qed


text \<open>The image covers a rectangle of the frame, turned over once more, and nothing else is drawn.\<close>

lemma draw_icon_picture:
  fixes img con X Y
  defines "fb \<equiv> framebuffer con" and "w \<equiv> unat (tga_width (tga_head img))" and "h \<equiv> unat (tga_height (tga_head img))"
  assumes "frame_ok fb" and "4 * (unat (PixelsPerScanLine fb) * unat (Height fb)) < 2 ^ 32"
    and "X + w \<le> unat (Width fb)" "Y + h \<le> unat (Height fb)"
    and "x < unat (PixelsPerScanLine fb)" "y < unat (Height fb)"
  shows "picture fb (video (draw_icon img (of_nat X) (of_nat Y) con)) x y =
    (if X \<le> x \<and> x < X + w \<and> Y \<le> y \<and> y < Y + h then tga_Buffer img ! ((h - 1 - (y - Y)) * w + (x - X))
     else picture fb (video con) x y)"
proof -
  let ?ks = "List.product (rev [0..<h]) (rev [0..<w])"
  let ?place = "\<lambda>(j, i). pixel fb (of_nat (X + i)) (of_nat (Y + (h - 1 - j)))"
  let ?val = "\<lambda>(j, i). tga_Buffer img ! (j * w + i)"
  have P: "unat (Width fb) \<le> unat (PixelsPerScanLine fb)" using assms(4) by (simp add: frame_ok_def word_le_nat_alt)
  have inside: "X + i < unat (PixelsPerScanLine fb)" "Y + (h - 1 - j) < unat (Height fb)" if "j < h" "i < w" for i j
    using that P assms(6,7) by linarith+
  have adr: "pix_address fb (ucast (of_nat i + of_nat X :: u64)) (ucast (of_nat (h - 1 - j) + of_nat Y :: u64)) = ?place (j, i)"
    if "j < h" "i < w" for i j
  proof -
    have "ucast (of_nat n + of_nat m :: u64) = (of_nat (m + n) :: u32)" for n m
      using narrow_of_nat [of "m + n"] by (simp only: of_nat_add add.commute)
    then show ?thesis using pix_address_pixel [OF assms(5) inside [OF that]] by simp
  qed
  have "video (draw_icon img (of_nat X) (of_nat Y) con)
      = fold (\<lambda>k v. v(?place k := ?val k)) ?ks (video con)"
  proof -
    have "draw_icon img (of_nat X) (of_nat Y) con = fold (\<lambda>k. putPix (ucast (of_nat (snd k) + of_nat X :: u64))
        (ucast (of_nat (h - 1 - fst k) + of_nat Y :: u64)) (?val k)) ?ks con"
      unfolding draw_icon_def Let_def fold_product w_def [symmetric] h_def [symmetric] by (simp add: case_prod_beta')
    then have "video (draw_icon img (of_nat X) (of_nat Y) con) = fold (\<lambda>k v. v(pix_address fb (ucast (of_nat (snd k) + of_nat X :: u64))
        (ucast (of_nat (h - 1 - fst k) + of_nat Y :: u64)) := ?val k)) ?ks (video con)"
      by (simp add: fold_putPix fb_def)
    also have "\<dots> = fold (\<lambda>k v. v(?place k := ?val k)) ?ks (video con)"
      using adr by (intro fold_cong refl) (auto simp: fun_eq_iff)
    finally show ?thesis .
  qed
  moreover have inj: "inj_on ?place (set ?ks)"
  proof (rule inj_onI)
    fix k k'
    assume "k \<in> set ?ks" "k' \<in> set ?ks" and eq: "?place k = ?place k'"
    moreover obtain j i j' i' where k: "k = (j, i)" "k' = (j', i')" by (metis prod.exhaust)
    ultimately have l: "j < h" "i < w" "j' < h" "i' < w" by (simp_all only: set_product set_rev set_upt mem_Times_iff fst_conv snd_conv atLeastLessThan_iff)
    have "X + i = X + i' \<and> Y + (h - 1 - j) = Y + (h - 1 - j')"
      using eq pixel_inj [OF assms(4) inside [OF l(1,2)] inside [OF l(3,4)]] unfolding k prod.case by blast
    then show "k = k'" using l by (auto simp: k)
  qed
  ultimately have v: "video (draw_icon img (of_nat X) (of_nat Y) con) a =
      (if a \<in> ?place ` set ?ks then ?val (the_inv_into (set ?ks) ?place a) else video con a)" for a
    by (simp only: fold_writes)
  show ?thesis
  proof (cases "X \<le> x \<and> x < X + w \<and> Y \<le> y \<and> y < Y + h")
    case True
    let ?k = "(h - 1 - (y - Y), x - X)"
    have k: "?k \<in> set ?ks" using True by auto
    have place: "?place ?k = pixel fb (of_nat x) (of_nat y)" using True by simp
    have "pixel fb (of_nat x) (of_nat y) \<in> ?place ` set ?ks" using imageI [OF k, of ?place] unfolding place .
    moreover have "the_inv_into (set ?ks) ?place (pixel fb (of_nat x) (of_nat y)) = ?k"
      using the_inv_into_f_f [OF inj k] unfolding place .
    ultimately have "video (draw_icon img (of_nat X) (of_nat Y) con) (pixel fb (of_nat x) (of_nat y)) = ?val ?k"
      using v by (simp only: if_True)
    then show ?thesis using True by (simp add: picture_def)
  next
    case False
    have "pixel fb (of_nat x) (of_nat y) \<notin> ?place ` set ?ks"
    proof
      assume "pixel fb (of_nat x) (of_nat y) \<in> ?place ` set ?ks"
      then obtain k where "k \<in> set ?ks" and eq: "pixel fb (of_nat x) (of_nat y) = ?place k" by (rule imageE)
      moreover obtain j i where k: "k = (j, i)" by (cases k)
      ultimately have l: "j < h" "i < w" by simp_all
      have "x = X + i \<and> y = Y + (h - 1 - j)"
        using eq pixel_inj [OF assms(4,8,9) inside [OF l]] unfolding k prod.case by blast
      then show False using False l by auto
    qed
    then have "video (draw_icon img (of_nat X) (of_nat Y) con) (pixel fb (of_nat x) (of_nat y)) = video con (pixel fb (of_nat x) (of_nat y))"
      using v by (simp only: if_False)
    then show ?thesis using False unfolding picture_def by (simp only: if_False)
  qed
qed


section \<open>Properties\<close>

text \<open>C29. The boot logo is the right way up: reading the file turns its rows over and drawing turns them back, so
  the pixel in column \<open>x\<close> and row \<open>y\<close> of the rectangle at \<open>X\<close>, \<open>Y\<close> is the one in row \<open>y\<close> and column \<open>x\<close> of
  the file, for every image that fits into the frame; the rest of the picture stays.\<close>

theorem boot_icon_upright:
  fixes m p con
  defines "fb \<equiv> framebuffer con" and "w \<equiv> unat (load16 m (p + 12))" and "h \<equiv> unat (load16 m (p + 14))"
    and "b \<equiv> (if m (p + 16) = 24 then 3 else 4 :: nat)"
  assumes "m (p + 2) = 2" and "m (p + 16) = 24 \<or> m (p + 16) = 32" and "w * h < 2 ^ 31"
    and "frame_ok fb" and "4 * (unat (PixelsPerScanLine fb) * unat (Height fb)) < 2 ^ 32"
    and "X + w \<le> unat (Width fb)" "Y + h \<le> unat (Height fb)"
    and "x < unat (Width fb)" "y < unat (Height fb)"
  shows "\<exists>img. GetImage junk m p = Some img
    \<and> picture fb (video (draw_icon img (of_nat X) (of_nat Y) con)) x y =
        (if X \<le> x \<and> x < X + w \<and> Y \<le> y \<and> y < Y + h
         then (if m (p + 16) = 24 then pixel24 m else pixel32 m)
                (p + 18 + ucast (m p) + of_nat (b * ((y - Y) * w + (x - X))))
         else picture fb (video con) x y)"
proof -
  obtain img where img: "GetImage junk m p = Some img" "unat (tga_width (tga_head img)) = w" "unat (tga_height (tga_head img)) = h"
    "\<forall>x < w. \<forall>y < h. tga_Buffer img ! (y * w + x) =
       (if m (p + 16) = 24 then pixel24 m else pixel32 m) (p + 18 + ucast (m p) + of_nat (b * ((h - 1 - y) * w + x)))"
    using GetImage_pixels [of m p junk, folded w_def h_def b_def, OF assms(5-7)] by blast
  have x: "x < unat (PixelsPerScanLine fb)"
    using assms(8,12) by (auto simp: frame_ok_def word_le_nat_alt)
  have "tga_Buffer img ! ((h - 1 - (y - Y)) * w + (x - X)) = (if m (p + 16) = 24 then pixel24 m else pixel32 m)
      (p + 18 + ucast (m p) + of_nat (b * ((y - Y) * w + (x - X))))" if "X \<le> x" "x < X + w" "Y \<le> y" "y < Y + h"
  proof -
    have "x - X < w" "h - 1 - (y - Y) < h" "h - 1 - (h - 1 - (y - Y)) = y - Y" using that by linarith+
    then show ?thesis using img(4) by simp
  qed
  then show ?thesis
    using img(1) draw_icon_picture [of con X img Y x y, folded fb_def, unfolded img(2,3), OF assms(8-11) x assms(13)]
    by auto
qed

text \<open>A file of two rows of one pixel, drawn at the corner of a small frame.\<close>

definition small_screen :: console where
  "small_screen = \<lparr>framebuffer = \<lparr>BaseAddress = 0x1000, BufferSize = 0x100, Width = 4, Height = 4, PixelsPerScanLine = 4\<rparr>,
     psf1_font = \<lparr>charsize = 16, glyphBuffer = 0, glyph_bytes = (\<lambda>_. 0)\<rparr>, video = (\<lambda>_. 0), CursorX = 0, CursorY = 0\<rparr>"

theorem boot_icon_upright_witness:
  "\<exists>img. GetImage (\<lambda>_. 0) small_tga 0 = Some img
     \<and> picture (framebuffer small_screen) (video (draw_icon img 1 2 small_screen)) 1 3 = 0xFF665544"
proof -
  let ?fb = "framebuffer small_screen"
  have h: "small_tga 2 = 2" "small_tga 16 = 24" "load16 small_tga 12 = 1" "load16 small_tga 14 = 2" "small_tga 0 = 0"
    "small_tga 21 = 0x44" "small_tga 22 = 0x55" "small_tga 23 = 0x66"
    by (simp_all add: small_tga_def load16_def)
  have fb: "frame_ok ?fb" "unat (PixelsPerScanLine ?fb) = 4" "unat (Height ?fb) = 4" "unat (Width ?fb) = 4"
    by (simp_all add: frame_ok_def small_screen_def)
  show ?thesis
    using boot_icon_upright [of small_tga 0 small_screen 1 2 1 3 "\<lambda>_. 0"]
    by (simp add: h fb pixel24_bytes)
qed

end
