(* ===== verification/Spec2Isabelle.thy ===== *)
theory Spec2Isabelle
  imports Scheduler CString Volumes Ports Ahci Interrupts Panic Pci Input Tga BootPaging Smp Kernel
begin

text \<open>
  A verification development for the Unified-OS kernel.
\<close>

end
